(* ===== verification/Prelude.thy ===== *)
theory Prelude
  imports Main "HOL-Library.AList" "HOL-Library.List_Lexorder" "HOL-Library.Multiset"
begin

text \<open>
  What every component of the development shares: Python text as a list of code
  points, Python exceptions as values, the loop combinators over results that
  may raise, dictionaries as association lists in insertion order, and the
  theorem collections that the component proofs feed to the simplifier.
\<close>

section \<open>Theorem collections\<close>

named_theorems res_simps "evaluation of results that may raise"
named_theorems res_dest "what a result without an exception tells about its parts"
named_theorems text_simps "evaluation of text operations"

section \<open>Text\<close>

text \<open>
  A Python \<open>str\<close> is a sequence of code points, and \<open>len\<close>, indexing, comparison
  and the regular expressions of the scripts count code points, so a string is
  the list of its code points. Literals of the source are written through
  \<open>lit\<close>, which reads an Isabelle string literal as ASCII.
\<close>

type_synonym str = "nat list"

definition lit :: "string \<Rightarrow> str" where
  "lit s = map of_char s"

lemma lit_inject [simp]: "lit a = lit b \<longleftrightarrow> a = b"
  by (simp add: lit_def inj_map_eq_map inj_of_char)

lemma lit_Nil [simp]: "lit [] = []"
  by (simp add: lit_def)

lemma lit_eq_Nil [simp]: "lit s = [] \<longleftrightarrow> s = []" "[] = lit s \<longleftrightarrow> s = []"
  by (simp_all add: lit_def)

lemma lit_append: "lit (a @ b) = lit a @ lit b"
  by (simp add: lit_def)

lemma length_lit [simp]: "length (lit s) = length s"
  by (simp add: lit_def)

lemma set_lit_bound: "c \<in> set (lit s) \<Longrightarrow> c < 256"
  by (auto simp: lit_def)

section \<open>Exceptions\<close>

text \<open>
  The exceptions the scripts can end in. \<open>ValueError\<close> and \<open>SystemExit\<close> are
  raised by the scripts with a message; the others are raised by the
  interpreter or the standard library, and only their class is kept.
\<close>

datatype exn =
    ValueError str
  | SystemExit str
  | KeyError str
  | IndexError
  | TypeError
  | AttributeError
  | JSONDecodeError
  | UnicodeError
  | OverflowError
  | MemoryError
  | FileNotFoundError
  | IsADirectoryError
  | NotADirectoryError
  | FileExistsError
  | SymlinkLoop

type_synonym 'a res = "exn + 'a"

fun ebind :: "'e + 'a \<Rightarrow> ('a \<Rightarrow> 'e + 'b) \<Rightarrow> 'e + 'b" where
  "ebind (Inl e) f = Inl e"
| "ebind (Inr x) f = f x"

lemma ebind_Inr_iff [res_dest]: "ebind m f = Inr y \<longleftrightarrow> (\<exists>x. m = Inr x \<and> f x = Inr y)"
  by (cases m) auto

lemma ebind_Inl_iff: "ebind m f = Inl e \<longleftrightarrow> m = Inl e \<or> (\<exists>x. m = Inr x \<and> f x = Inl e)"
  by (cases m) auto

lemma ebind_cong [fundef_cong]:
  "m = n \<Longrightarrow> (\<And>x. n = Inr x \<Longrightarrow> f x = g x) \<Longrightarrow> ebind m f = ebind n g"
  by (cases n) auto

lemma ebind_assoc: "ebind (ebind m f) g = ebind m (\<lambda>x. ebind (f x) g)"
  by (cases m) simp_all

definition of_option :: "'e \<Rightarrow> 'a option \<Rightarrow> 'e + 'a" where
  "of_option e x = (case x of None \<Rightarrow> Inl e | Some y \<Rightarrow> Inr y)"

lemma of_option_simps [simp]: "of_option e None = Inl e" "of_option e (Some y) = Inr y"
  by (simp_all add: of_option_def)

lemma of_option_Inr_iff [res_dest]: "of_option e x = Inr y \<longleftrightarrow> x = Some y"
  by (auto simp: of_option_def split: option.splits)

lemma sort_key_eq_Nil [simp]: "sort_key f xs = [] \<longleftrightarrow> xs = []"
  by (metis length_0_conv length_sort)

lemma distinct_map_sort_key [simp]: "distinct (map f (sort_key g xs)) \<longleftrightarrow> distinct (map f xs)"
  by (simp add: distinct_map)

lemma if_raise_iff [simp, res_dest]: "(if bad then Inl e else k) = Inr y \<longleftrightarrow> \<not> bad \<and> k = Inr y"
  by simp

section \<open>Loops that may raise\<close>

text \<open>
  A \<open>for\<close> loop whose body updates a state and may raise is \<open>efold\<close>: the first
  exception ends it.
\<close>

primrec efold :: "('s \<Rightarrow> 'a \<Rightarrow> 'e + 's) \<Rightarrow> 's \<Rightarrow> 'a list \<Rightarrow> 'e + 's" where
  "efold f s [] = Inr s"
| "efold f s (x # xs) = ebind (f s x) (\<lambda>s'. efold f s' xs)"

primrec emap :: "('a \<Rightarrow> 'e + 'b) \<Rightarrow> 'a list \<Rightarrow> 'e + 'b list" where
  "emap f [] = Inr []"
| "emap f (x # xs) = ebind (f x) (\<lambda>y. ebind (emap f xs) (\<lambda>ys. Inr (y # ys)))"

lemma efold_append: "efold f s (xs @ ys) = ebind (efold f s xs) (\<lambda>t. efold f t ys)"
proof (induction xs arbitrary: s)
  case Nil
  show ?case by simp
next
  case (Cons x xs)
  then show ?case by (cases "f s x") simp_all
qed

lemma efold_invariant:
  assumes "efold f s xs = Inr t" and "I s"
    and "\<And>s x s'. x \<in> set xs \<Longrightarrow> I s \<Longrightarrow> f s x = Inr s' \<Longrightarrow> I s'"
  shows "I t"
  using assms
proof (induction xs arbitrary: s)
  case Nil
  then show ?case by simp
next
  case (Cons x xs)
  from Cons.prems(1) obtain s' where s': "f s x = Inr s'" "efold f s' xs = Inr t"
    by (auto simp: ebind_Inr_iff)
  moreover from s'(1) Cons.prems(2,3) have "I s'" by (meson list.set_intros(1))
  ultimately show ?case using Cons.IH Cons.prems(3) by (meson list.set_intros(2))
qed

text \<open>A loop that ends has run its body on every element.\<close>

lemma efold_each:
  assumes "efold f s xs = Inr t" and "x \<in> set xs"
    and "\<And>s s'. f s x = Inr s' \<Longrightarrow> P"
  shows P
  using assms(1,2)
proof (induction xs arbitrary: s)
  case Nil
  then show ?case by simp
next
  case (Cons y ys)
  then show ?case using assms(3) by (auto simp: ebind_Inr_iff)
qed

text \<open>A loop that only checks passes exactly when every element passes.\<close>

lemma efold_check_iff:
  fixes f :: "'a \<Rightarrow> 'e + unit"
  shows "efold (\<lambda>_. f) u xs = Inr v \<longleftrightarrow> (\<forall>x\<in>set xs. f x = Inr ())"
  by (induction xs arbitrary: u) (auto simp: ebind_Inr_iff)

lemma efold_check_first:
  fixes f :: "'a \<Rightarrow> 'e + unit"
  assumes "\<forall>x\<in>set xs. f x = Inr ()"
  shows "efold (\<lambda>_. f) u (xs @ y # ys) = ebind (f y) (\<lambda>v. efold (\<lambda>_. f) v ys)"
  using assms by (induction xs arbitrary: u) auto

text \<open>A loop that adds one item per element, or raises.\<close>

lemma efold_collect_iff:
  assumes "\<And>s x t. f s x = Inr t \<longleftrightarrow> (\<exists>y. g x y \<and> t = add y s)"
  shows "efold f s xs = Inr t \<longleftrightarrow> (\<exists>ys. list_all2 g xs ys \<and> t = fold add ys s)"
proof (induction xs arbitrary: s)
  case Nil
  show ?case by auto
next
  case (Cons x xs)
  have "efold f s (x # xs) = Inr t
      \<longleftrightarrow> (\<exists>y ys. g x y \<and> list_all2 g xs ys \<and> t = fold add ys (add y s))"
    by (auto simp: ebind_Inr_iff assms Cons.IH)
  also have "\<dots> \<longleftrightarrow> (\<exists>ys. list_all2 g (x # xs) ys \<and> t = fold add ys s)"
    unfolding list_all2_Cons1 by (metis fold_simps(2))
  finally show ?case .
qed

text \<open>The same loops over \<open>enumerate(xs)\<close>, when the index only labels messages.\<close>

lemma enumerate_snd: "set xs = snd ` set (enumerate n xs)"
  by (metis list.set_map map_snd_enumerate)

lemma list_all2_enumerate: "list_all2 (\<lambda>p. g (snd p)) (enumerate n xs) ys \<longleftrightarrow> list_all2 g xs ys"
  by (metis list_all2_map1 map_snd_enumerate)

lemma efold_collect_enumerate:
  assumes "\<And>s i x t. f s (i, x) = Inr t \<longleftrightarrow> (\<exists>y. g x y \<and> t = add y s)"
  shows "efold f s (enumerate n xs) = Inr t \<longleftrightarrow> (\<exists>ys. list_all2 g xs ys \<and> t = fold add ys s)"
proof -
  have "f s p = Inr t \<longleftrightarrow> (\<exists>y. g (snd p) y \<and> t = add y s)" for s p t
    by (cases p) (simp add: assms)
  then show ?thesis by (simp add: efold_collect_iff list_all2_enumerate)
qed

text \<open>A loop that collects faults ends without one exactly when every element is without fault.\<close>

lemma efold_good:
  assumes "\<And>s x. (\<exists>t. f s x = Inr t \<and> good t) \<longleftrightarrow> good s \<and> ok x"
  shows "(\<exists>t. efold f s xs = Inr t \<and> good t) \<longleftrightarrow> good s \<and> list_all ok xs"
proof (induction xs arbitrary: s)
  case Nil
  show ?case by simp
next
  case (Cons x xs)
  have "(\<exists>t. efold f s (x # xs) = Inr t \<and> good t)
      \<longleftrightarrow> (\<exists>s'. f s x = Inr s' \<and> (\<exists>t. efold f s' xs = Inr t \<and> good t))"
    by (auto simp: ebind_Inr_iff)
  also have "\<dots> \<longleftrightarrow> (\<exists>s'. f s x = Inr s' \<and> good s') \<and> list_all ok xs"
    unfolding Cons.IH by blast
  finally show ?case by (simp add: assms)
qed

lemma fold_snoc: "fold (\<lambda>y s. s @ [y]) ys s = s @ ys"
  by (induction ys arbitrary: s) simp_all

lemma emap_Inr_length: "emap f xs = Inr ys \<Longrightarrow> length ys = length xs"
  by (induction xs arbitrary: ys) (auto simp: ebind_Inr_iff)

lemma emap_Inr_nth:
  "emap f xs = Inr ys \<Longrightarrow> i < length xs \<Longrightarrow> f (xs ! i) = Inr (ys ! i)"
  by (induction xs arbitrary: ys i) (auto simp: ebind_Inr_iff nth_Cons split: nat.splits)

lemma emap_Inr_list_all2: "emap f xs = Inr ys \<longleftrightarrow> list_all2 (\<lambda>x y. f x = Inr y) xs ys"
  by (induction xs arbitrary: ys) (auto simp: ebind_Inr_iff list_all2_Cons1)

lemma emap_total: "(\<And>x. x \<in> set xs \<Longrightarrow> \<exists>y. f x = Inr y) \<Longrightarrow> \<exists>ys. emap f xs = Inr ys"
proof (induction xs)
  case (Cons x xs)
  then obtain y ys where "f x = Inr y" "emap f xs = Inr ys" by (meson list.set_intros)
  then show ?case by simp
qed simp

section \<open>Dictionaries\<close>

text \<open>
  A Python \<open>dict\<close> keeps the order of first insertion: an association list with
  distinct keys, where assignment replaces in place or appends
  (\<open>AList.update\<close>) and \<open>pop\<close> removes (\<open>AList.delete\<close>).
\<close>

type_synonym 'v dict = "(str \<times> 'v) list"

abbreviation keys :: "'v dict \<Rightarrow> str list" where
  "keys d \<equiv> map fst d"

definition get_or :: "'v dict \<Rightarrow> str \<Rightarrow> 'v \<Rightarrow> 'v" where
  "get_or d k v = (case map_of d k of None \<Rightarrow> v | Some x \<Rightarrow> x)"

text \<open>
  Sorting with Python's \<open>sorted\<close>: strings compare by code points, which is the
  lexicographic order of \<open>List_Lexorder\<close>.
\<close>

definition sorted_set :: "'a::linorder list \<Rightarrow> 'a list" where
  "sorted_set xs = sort (remdups xs)"

lemma set_sorted_set [simp]: "set (sorted_set xs) = set xs"
  by (simp add: sorted_set_def)

lemma distinct_sorted_set [simp]: "distinct (sorted_set xs)"
  by (simp add: sorted_set_def)

lemma sorted_sorted_set [simp]: "sorted (sorted_set xs)"
  by (simp add: sorted_set_def)

lemma sorted_set_cong: "set xs = set ys \<Longrightarrow> sorted_set xs = sorted_set ys"
  by (simp add: sorted_set_def sorted_distinct_set_unique)

lemma map_of_perm:
  assumes "distinct (map fst xs)" and "set xs = set ys" and "distinct (map fst ys)"
  shows "map_of xs = map_of ys"
  using assms by (metis map_of_eqI map_of_inject_set)

end
