(* ===== verification/Sha256.thy ===== *)
theory Sha256
  imports Prelude "HOL-Library.Word"
begin

unbundle bit_operations_syntax

text \<open>
  \<open>hashlib.sha256\<close>, which every script of the repository uses for its evidence
  digests: the compression function of FIPS 180-4 on 32-bit words, the one-shot
  hash of a byte string, and the incremental object (\<open>update\<close>, \<open>hexdigest\<close>)
  that buffers an incomplete block. The incremental object computes the
  one-shot hash, however the input is cut into chunks; the scripts that hash a
  file in chunks of a mebibyte rest on it.
\<close>

type_synonym byte = "8 word"
type_synonym bytes = "byte list"
type_synonym w32 = "32 word"
type_synonym sha_state = "w32 list"

section \<open>Compression\<close>

definition rotr :: "nat \<Rightarrow> w32 \<Rightarrow> w32" where
  "rotr n x = drop_bit n x OR push_bit (32 - n) x"

definition big_sigma :: "nat \<times> nat \<times> nat \<Rightarrow> w32 \<Rightarrow> w32" where
  "big_sigma r x = (case r of (i, j, k) \<Rightarrow> rotr i x XOR rotr j x XOR rotr k x)"

definition small_sigma :: "nat \<times> nat \<times> nat \<Rightarrow> w32 \<Rightarrow> w32" where
  "small_sigma r x = (case r of (i, j, k) \<Rightarrow> rotr i x XOR rotr j x XOR drop_bit k x)"

definition choose_bits :: "w32 \<Rightarrow> w32 \<Rightarrow> w32 \<Rightarrow> w32" where
  "choose_bits e f g = (e AND f) XOR (NOT e AND g)"

definition majority :: "w32 \<Rightarrow> w32 \<Rightarrow> w32 \<Rightarrow> w32" where
  "majority a b c = (a AND b) XOR (a AND c) XOR (b AND c)"

text \<open>The round constants: the first 32 fractional bits of the cube roots of the primes.\<close>

definition round_constants :: "w32 list" where
  "round_constants = [
     1116352408, 1899447441, 3049323471, 3921009573, 961987163, 1508970993,
     2453635748, 2870763221, 3624381080, 310598401, 607225278, 1426881987,
     1925078388, 2162078206, 2614888103, 3248222580, 3835390401, 4022224774,
     264347078, 604807628, 770255983, 1249150122, 1555081692, 1996064986,
     2554220882, 2821834349, 2952996808, 3210313671, 3336571891, 3584528711,
     113926993, 338241895, 666307205, 773529912, 1294757372, 1396182291,
     1695183700, 1986661051, 2177026350, 2456956037, 2730485921, 2820302411,
     3259730800, 3345764771, 3516065817, 3600352804, 4094571909, 275423344,
     430227734, 506948616, 659060556, 883997877, 958139571, 1322822218,
     1537002063, 1747873779, 1955562222, 2024104815, 2227730452, 2361852424,
     2428436474, 2756734187, 3204031479, 3329325298]"

definition initial_state :: sha_state where
  "initial_state = [1779033703, 3144134277, 1013904242, 2773480762, 1359893119, 2600822924, 528734635, 1541459225]"

text \<open>The message schedule extends the 16 words of a block by \<open>n\<close> words.\<close>

primrec schedule :: "nat \<Rightarrow> w32 list \<Rightarrow> w32 list" where
  "schedule 0 ws = ws"
| "schedule (Suc n) ws =
     (let t = length ws in
      schedule n (ws @ [small_sigma (17, 19, 10) (ws ! (t - 2)) + ws ! (t - 7)
                        + small_sigma (7, 18, 3) (ws ! (t - 15)) + ws ! (t - 16)]))"

fun sha_round :: "w32 \<times> w32 \<Rightarrow> sha_state \<Rightarrow> sha_state" where
  "sha_round (k, w) [a, b, c, d, e, f, g, h] =
     (let t1 = h + big_sigma (6, 11, 25) e + choose_bits e f g + k + w;
          t2 = big_sigma (2, 13, 22) a + majority a b c
      in [t1 + t2, a, b, c, d + t1, e, f, g])"
| "sha_round _ st = st"

definition word_of_bytes :: "bytes \<Rightarrow> w32" where
  "word_of_bytes bs = foldl (\<lambda>w b. push_bit 8 w OR ucast b) 0 bs"

definition block_words :: "bytes \<Rightarrow> w32 list" where
  "block_words bs = map (\<lambda>i. word_of_bytes (take 4 (drop (4 * i) bs))) [0..<16]"

definition compress :: "sha_state \<Rightarrow> bytes \<Rightarrow> sha_state" where
  "compress st block =
     map2 (+) st (fold sha_round (zip round_constants (schedule 48 (block_words block))) st)"

section \<open>Absorbing blocks\<close>

function absorb :: "sha_state \<Rightarrow> bytes \<Rightarrow> sha_state \<times> bytes" where
  "absorb st bs =
     (if length bs < 64 then (st, bs) else absorb (compress st (take 64 bs)) (drop 64 bs))"
  by pat_completeness auto
termination
  by (relation "measure (\<lambda>(st, bs). length bs)") auto

declare absorb.simps [simp del]

lemma absorb_short [simp]: "length bs < 64 \<Longrightarrow> absorb st bs = (st, bs)"
  by (simp add: absorb.simps)

lemma absorb_block:
  "length b = 64 \<Longrightarrow> absorb st (b @ bs) = absorb (compress st b) bs"
  by (subst absorb.simps) simp

lemma absorb_pending: "length (snd (absorb st bs)) < 64"
  by (induction st bs rule: absorb.induct) (subst absorb.simps, auto)

text \<open>Absorbing in two pieces, with the incomplete block carried over.\<close>

lemma absorb_append:
  "absorb st (xs @ ys) = absorb (fst (absorb st xs)) (snd (absorb st xs) @ ys)"
proof (induction st xs rule: absorb.induct)
  case (1 st xs)
  show ?case
  proof (cases "length xs < 64")
    case True
    then show ?thesis by simp
  next
    case False
    then have split: "absorb st (xs @ ys) = absorb (compress st (take 64 xs)) (drop 64 xs @ ys)"
      by (subst absorb.simps) simp
    from False have "absorb st xs = absorb (compress st (take 64 xs)) (drop 64 xs)"
      by (simp add: absorb.simps [of st xs])
    with split "1" [OF False] show ?thesis by simp
  qed
qed

section \<open>Padding and the digest\<close>

definition be64 :: "nat \<Rightarrow> bytes" where
  "be64 n = map (\<lambda>i. ucast (drop_bit (8 * (7 - i)) (of_nat n :: 64 word))) [0..<8]"

definition padding :: "nat \<Rightarrow> bytes" where
  "padding n = 128 # replicate ((119 - n mod 64) mod 64) 0 @ be64 (8 * n)"

text \<open>The padded message is a whole number of blocks, so nothing stays pending.\<close>

lemma padding_aligned: "(n + length (padding n)) mod 64 = 0"
proof -
  define r where "r = n mod 64"
  have r: "r < 64" by (simp add: r_def)
  have len: "length (padding n) = 9 + (119 - r) mod 64"
    by (simp add: padding_def be64_def r_def)
  have "(r + (9 + (119 - r) mod 64)) mod 64 = 0"
  proof (cases "r \<le> 55")
    case True
    then have "119 - r = 64 + (55 - r)" by simp
    then have "(119 - r) mod 64 = (64 + (55 - r)) mod 64" by (rule arg_cong)
    also have "\<dots> = 55 - r" by (simp only: mod_add_self1) simp
    finally show ?thesis using True by simp
  next
    case False
    then have "(119 - r) mod 64 = 119 - r" by simp
    then show ?thesis using r False by simp
  qed
  then have "(n mod 64 + length (padding n)) mod 64 = 0" by (simp add: len r_def)
  then show ?thesis by (simp only: mod_add_left_eq)
qed

definition hex_digit :: "nat \<Rightarrow> nat" where
  "hex_digit d = (if d < 10 then 48 + d else 87 + d)"

definition hex_byte :: "byte \<Rightarrow> str" where
  "hex_byte b = [hex_digit (unat b div 16), hex_digit (unat b mod 16)]"

definition word_bytes :: "w32 \<Rightarrow> bytes" where
  "word_bytes w = map (\<lambda>i. ucast (drop_bit (8 * (3 - i)) w)) [0..<4]"

definition hex_of_state :: "sha_state \<Rightarrow> str" where
  "hex_of_state st = concat (map hex_byte (concat (map word_bytes st)))"

definition sha256_hex :: "bytes \<Rightarrow> str" where
  "sha256_hex bs = hex_of_state (fst (absorb initial_state (bs @ padding (length bs))))"

section \<open>The incremental object\<close>

record sha_ctx =
  chain :: sha_state
  pending :: bytes
  total :: nat

definition sha_new :: sha_ctx where
  "sha_new = \<lparr>chain = initial_state, pending = [], total = 0\<rparr>"

definition sha_update :: "sha_ctx \<Rightarrow> bytes \<Rightarrow> sha_ctx" where
  "sha_update c bs =
     (case absorb (chain c) (pending c @ bs) of (st, rest) \<Rightarrow>
        \<lparr>chain = st, pending = rest, total = total c + length bs\<rparr>)"

definition sha_hexdigest :: "sha_ctx \<Rightarrow> str" where
  "sha_hexdigest c = hex_of_state (fst (absorb (chain c) (pending c @ padding (total c))))"

text \<open>A context stands for the bytes fed to it so far.\<close>

definition sha_represents :: "sha_ctx \<Rightarrow> bytes \<Rightarrow> bool" where
  "sha_represents c m \<longleftrightarrow>
     absorb initial_state m = (chain c, pending c) \<and> total c = length m"

section \<open>The interface of an incremental hash\<close>

text \<open>
  What a client that feeds a file chunk by chunk relies on: a representation of
  the bytes fed so far that \<open>update\<close> extends and \<open>digest\<close> hashes.
\<close>

locale stream_hash =
  fixes start :: 'c
    and update :: "'c \<Rightarrow> 'b list \<Rightarrow> 'c"
    and digest :: "'c \<Rightarrow> 'd"
    and hash :: "'b list \<Rightarrow> 'd"
    and represents :: "'c \<Rightarrow> 'b list \<Rightarrow> bool"
  assumes represents_start: "represents start []"
    and represents_update: "represents c m \<Longrightarrow> represents (update c bs) (m @ bs)"
    and digest_represents: "represents c m \<Longrightarrow> digest c = hash m"
begin

lemma represents_chunks:
  "represents c m \<Longrightarrow> represents (foldl update c chunks) (m @ concat chunks)"
proof (induction chunks arbitrary: c m)
  case Nil
  then show ?case by simp
next
  case (Cons b bs)
  from Cons.IH [OF represents_update [OF Cons.prems]] show ?case by simp
qed

lemma digest_chunks: "digest (foldl update start chunks) = hash (concat chunks)"
  using represents_chunks [OF represents_start] digest_represents by fastforce

text \<open>How the input is cut does not matter.\<close>

lemma digest_recut:
  "concat chunks = concat chunks' \<Longrightarrow>
     digest (foldl update start chunks) = digest (foldl update start chunks')"
  by (simp add: digest_chunks)

end

interpretation sha: stream_hash sha_new sha_update sha_hexdigest sha256_hex sha_represents
proof unfold_locales
  show "sha_represents sha_new []"
    by (simp add: sha_represents_def sha_new_def)
next
  fix c m bs
  assume rep: "sha_represents c m"
  have "absorb initial_state (m @ bs) = absorb (chain c) (pending c @ bs)"
    using rep absorb_append [of initial_state m bs] by (simp add: sha_represents_def)
  then show "sha_represents (sha_update c bs) (m @ bs)"
    using rep by (simp add: sha_represents_def sha_update_def split: prod.splits)
next
  fix c m
  assume rep: "sha_represents c m"
  have "absorb initial_state (m @ padding (length m)) = absorb (chain c) (pending c @ padding (length m))"
    using rep absorb_append [of initial_state m "padding (length m)"]
    by (simp add: sha_represents_def)
  then show "sha_hexdigest c = sha256_hex m"
    using rep by (simp add: sha_represents_def sha_hexdigest_def sha256_hex_def)
qed

section \<open>Shape of a digest\<close>

definition is_hex_lower :: "nat \<Rightarrow> bool" where
  "is_hex_lower c \<longleftrightarrow> (48 \<le> c \<and> c \<le> 57) \<or> (97 \<le> c \<and> c \<le> 102)"

lemma is_hex_lower_hex_digit: "d < 16 \<Longrightarrow> is_hex_lower (hex_digit d)"
  by (auto simp: is_hex_lower_def hex_digit_def)

lemma length_schedule: "length (schedule n ws) = length ws + n"
  by (induction n arbitrary: ws) (simp_all add: Let_def)

lemma length_sha_round [simp]: "length (sha_round kw st) = length st"
  by (induction kw st rule: sha_round.induct) (simp_all add: Let_def)

lemma length_fold_sha_round [simp]: "length (fold sha_round kws st) = length st"
  by (induction kws arbitrary: st) simp_all

lemma length_compress [simp]: "length (compress st b) = length st"
  by (simp add: compress_def)

lemma length_absorb: "length (fst (absorb st bs)) = length st"
  by (induction st bs rule: absorb.induct) (subst absorb.simps, auto)

lemma length_hex_of_state: "length (hex_of_state st) = 8 * length st"
  by (induction st) (simp_all add: hex_of_state_def word_bytes_def hex_byte_def upt_rec)

lemma length_sha256_hex [simp]: "length (sha256_hex bs) = 64"
  by (simp add: sha256_hex_def length_hex_of_state length_absorb) (simp add: initial_state_def)

lemma is_hex_lower_hex_byte: "c \<in> set (hex_byte b) \<Longrightarrow> is_hex_lower c"
proof -
  have "unat b < 2 ^ LENGTH(8)" by (rule unsigned_less)
  then have "unat b div 16 < 16" by simp
  moreover assume "c \<in> set (hex_byte b)"
  ultimately show ?thesis
    by (auto simp: hex_byte_def intro: is_hex_lower_hex_digit)
qed

lemma sha256_hex_lower: "c \<in> set (sha256_hex bs) \<Longrightarrow> is_hex_lower c"
  by (auto simp: sha256_hex_def hex_of_state_def dest: is_hex_lower_hex_byte)

end
