(* ===== verification/PyText.thy ===== *)
theory PyText
  imports Sha256
begin

text \<open>
  The string and byte operations the scripts call: decimal numerals, white
  space and line splitting, \<open>split\<close>, \<open>join\<close>, \<open>startswith\<close>, UTF-8 in both
  directions, and the newline translation of a file opened in text mode. The
  encoder and the decoder are inverse to each other, so bytes and text identify
  each other where both are defined.
\<close>

section \<open>Decimal numerals\<close>

fun dec_nat :: "nat \<Rightarrow> str" where
  "dec_nat n = (if n < 10 then [48 + n] else dec_nat (n div 10) @ [48 + n mod 10])"

declare dec_nat.simps [simp del]

definition dec_int :: "int \<Rightarrow> str" where
  "dec_int i = (if i < 0 then 45 # dec_nat (nat (- i)) else dec_nat (nat i))"

definition is_digit :: "nat \<Rightarrow> bool" where
  "is_digit c \<longleftrightarrow> 48 \<le> c \<and> c \<le> 57"

definition undec :: "str \<Rightarrow> nat" where
  "undec s = foldl (\<lambda>a c. 10 * a + (c - 48)) 0 s"

lemma undec_snoc: "undec (s @ [c]) = 10 * undec s + (c - 48)"
  by (simp add: undec_def)

lemma undec_dec_nat [simp]: "undec (dec_nat n) = n"
proof (induction n rule: dec_nat.induct)
  case (1 n)
  show ?case
  proof (cases "n < 10")
    case True
    then show ?thesis by (subst dec_nat.simps) (simp add: undec_def)
  next
    case False
    with "1" show ?thesis by (subst dec_nat.simps) (simp add: undec_snoc)
  qed
qed

lemma dec_nat_digits: "list_all is_digit (dec_nat n)"
proof (induction n rule: dec_nat.induct)
  case (1 n)
  show ?case
  proof (cases "n < 10")
    case True
    then show ?thesis by (subst dec_nat.simps) (simp add: is_digit_def)
  next
    case False
    with "1" have "list_all is_digit (dec_nat (n div 10))" by simp
    moreover have "is_digit (48 + n mod 10)" unfolding is_digit_def by presburger
    ultimately show ?thesis using False by (subst dec_nat.simps) simp
  qed
qed

lemma dec_nat_nonempty [simp]: "dec_nat n \<noteq> []"
  by (subst dec_nat.simps) simp

lemma dec_nat_0 [simp]: "dec_nat 0 = [48]"
  by (subst dec_nat.simps) simp

text \<open>Only zero starts with the digit zero.\<close>

lemma hd_dec_nat: "0 < n \<Longrightarrow> hd (dec_nat n) \<noteq> 48"
proof (induction n rule: dec_nat.induct)
  case (1 n)
  then show ?case by (subst dec_nat.simps) auto
qed

lemma dec_nat_inject [simp]: "dec_nat a = dec_nat b \<longleftrightarrow> a = b"
  by (metis undec_dec_nat)

section \<open>White space, lines, splitting\<close>

text \<open>\<open>str.isspace\<close>, which \<open>str.strip\<close> and the regular expression class \<open>\s\<close> share.\<close>

definition is_py_space :: "nat \<Rightarrow> bool" where
  "is_py_space c \<longleftrightarrow>
     (9 \<le> c \<and> c \<le> 13) \<or> (28 \<le> c \<and> c \<le> 32) \<or> c = 133 \<or> c = 160 \<or> c = 5760
     \<or> (8192 \<le> c \<and> c \<le> 8202) \<or> c = 8232 \<or> c = 8233 \<or> c = 8239 \<or> c = 8287 \<or> c = 12288"

definition strip :: "str \<Rightarrow> str" where
  "strip s = rev (dropWhile is_py_space (rev (dropWhile is_py_space s)))"

lemma hd_strip: "strip s \<noteq> [] \<Longrightarrow> \<not> is_py_space (hd (strip s))"
proof -
  define t where "t = dropWhile is_py_space s"
  assume ne: "strip s \<noteq> []"
  then obtain u where u: "t = rev (dropWhile is_py_space (rev t)) @ u"
    by (metis rev_append rev_rev_ident takeWhile_dropWhile_id)
  then have "hd t = hd (strip s)" using ne
    by (metis hd_append strip_def t_def)
  moreover have "t \<noteq> []" using u ne by (metis append_is_Nil_conv strip_def t_def)
  ultimately show ?thesis by (metis hd_dropWhile t_def)
qed

lemma last_strip: "strip s \<noteq> [] \<Longrightarrow> \<not> is_py_space (last (strip s))"
  by (metis hd_dropWhile last_rev rev_is_Nil_conv strip_def)

lemma strip_idem [simp]: "strip (strip s) = strip s"
proof (cases "strip s = []")
  case True
  moreover have "strip [] = []" by (simp add: strip_def)
  ultimately show ?thesis by simp
next
  case False
  define t where "t = strip s"
  from False have t: "t \<noteq> []" by (simp add: t_def)
  have "dropWhile is_py_space t = t"
    using t hd_strip [OF False] by (cases t) (simp_all add: t_def)
  moreover have "dropWhile is_py_space (rev t) = rev t"
  proof (cases "rev t")
    case (Cons x xs)
    then have "last t = x" by (metis last_snoc rev_eq_Cons_iff)
    with last_strip [OF False] Cons show ?thesis by (simp add: t_def)
  qed simp
  ultimately show ?thesis unfolding t_def [symmetric] by (simp add: strip_def)
qed

definition is_line_break :: "nat \<Rightarrow> bool" where
  "is_line_break c \<longleftrightarrow>
     (10 \<le> c \<and> c \<le> 13) \<or> (28 \<le> c \<and> c \<le> 30) \<or> c = 133 \<or> c = 8232 \<or> c = 8233"

text \<open>\<open>str.splitlines()\<close>: the line so far is kept reversed; a carriage return and a following line feed are one break.\<close>

fun splitlines_from :: "str \<Rightarrow> str \<Rightarrow> str list" where
  "splitlines_from acc [] = (if acc = [] then [] else [rev acc])"
| "splitlines_from acc [c] =
     (if is_line_break c then [rev acc] else [rev (c # acc)])"
| "splitlines_from acc (c # d # s) =
     (if c = 13 \<and> d = 10 then rev acc # splitlines_from [] s
      else if is_line_break c then rev acc # splitlines_from [] (d # s)
      else splitlines_from (c # acc) (d # s))"

definition splitlines :: "str \<Rightarrow> str list" where
  "splitlines s = splitlines_from [] s"

lemma splitlines_from_lines:
  "list_all (\<lambda>c. \<not> is_line_break c) acc \<Longrightarrow>
     l \<in> set (splitlines_from acc s) \<Longrightarrow> list_all (\<lambda>c. \<not> is_line_break c) l"
  by (induction acc s rule: splitlines_from.induct) (auto split: if_splits)

lemma splitlines_lines: "l \<in> set (splitlines s) \<Longrightarrow> list_all (\<lambda>c. \<not> is_line_break c) l"
  using splitlines_from_lines [of "[]"] by (simp add: splitlines_def)

lemma set_splitlines_from: "l \<in> set (splitlines_from acc s) \<Longrightarrow> set l \<subseteq> set acc \<union> set s"
  by (induction acc s rule: splitlines_from.induct) (fastforce split: if_splits)+

lemma set_splitlines: "l \<in> set (splitlines s) \<Longrightarrow> set l \<subseteq> set s"
  using set_splitlines_from [of l "[]"] by (simp add: splitlines_def)

text \<open>\<open>s.split(c)\<close> for a one-character separator.\<close>

fun split_from :: "nat \<Rightarrow> str \<Rightarrow> str \<Rightarrow> str list" where
  "split_from c acc [] = [rev acc]"
| "split_from c acc (d # s) =
     (if d = c then rev acc # split_from c [] s else split_from c (d # acc) s)"

definition split_on :: "nat \<Rightarrow> str \<Rightarrow> str list" where
  "split_on c s = split_from c [] s"

primrec join_with :: "str \<Rightarrow> str list \<Rightarrow> str" where
  "join_with sep [] = []"
| "join_with sep (x # xs) = (if xs = [] then x else x @ sep @ join_with sep xs)"

lemma split_from_nonempty [simp]: "split_from c acc s \<noteq> []"
  by (induction c acc s rule: split_from.induct) simp_all

lemma join_split_from: "join_with [c] (split_from c acc s) = rev acc @ s"
  by (induction c acc s rule: split_from.induct) auto

text \<open>Joining the pieces with the separator gives the string back.\<close>

lemma join_split_on [simp]: "join_with [c] (split_on c s) = s"
  by (simp add: split_on_def join_split_from)

lemma split_from_pieces: "c \<notin> set acc \<Longrightarrow> p \<in> set (split_from c acc s) \<Longrightarrow> c \<notin> set p"
  by (induction c acc s rule: split_from.induct) (auto split: if_splits)

lemma split_on_pieces: "p \<in> set (split_on c s) \<Longrightarrow> c \<notin> set p"
  using split_from_pieces [of c "[]"] by (simp add: split_on_def)

lemma split_from_skip: "c \<notin> set p \<Longrightarrow> split_from c acc (p @ s) = split_from c (rev p @ acc) s"
  by (induction p arbitrary: acc) auto

lemma split_from_join:
  "ps \<noteq> [] \<Longrightarrow> \<forall>p\<in>set ps. c \<notin> set p \<Longrightarrow> split_from c [] (join_with [c] ps) = ps"
proof (induction ps)
  case (Cons p ps)
  then show ?case
    using split_from_skip [of c p "[]" "[]"] by (cases "ps = []") (simp_all add: split_from_skip)
qed simp

text \<open>Splitting what was joined gives the pieces back.\<close>

lemma split_on_join: "ps \<noteq> [] \<Longrightarrow> \<forall>p\<in>set ps. c \<notin> set p \<Longrightarrow> split_on c (join_with [c] ps) = ps"
  by (simp add: split_on_def split_from_join)

lemma split_unique:
  assumes "x \<notin> set a" "x \<notin> set b" "a @ x # r = b @ x # q"
  shows "a = b \<and> r = q"
proof -
  have "takeWhile (\<lambda>c. c \<noteq> x) (w @ x # s) = w" if "x \<notin> set w" for w s
    using that by (subst takeWhile_append2) auto
  with assms have "a = b" by metis
  with assms(3) show ?thesis by simp
qed

definition starts_with :: "str \<Rightarrow> str \<Rightarrow> bool" where
  "starts_with p s \<longleftrightarrow> take (length p) s = p"

lemma starts_with_iff: "starts_with p s \<longleftrightarrow> (\<exists>r. s = p @ r)"
  by (auto simp: starts_with_def) (metis append_take_drop_id)

text \<open>The first piece of a joined text.\<close>

lemma starts_with_join:
  assumes "c \<notin> set p" "\<forall>q\<in>set ps. c \<notin> set q"
  shows "starts_with (p @ [c]) (join_with [c] ps) \<longleftrightarrow> (\<exists>qs. ps = p # qs \<and> qs \<noteq> [])"
proof (cases "2 \<le> length ps")
  case True
  then obtain q qs where ps: "ps = q # qs" "qs \<noteq> []" by (cases ps; cases "tl ps") auto
  then have "starts_with (p @ [c]) (join_with [c] ps) \<longleftrightarrow> (\<exists>r. q @ c # join_with [c] qs = p @ c # r)"
    by (simp add: starts_with_iff)
  also have "\<dots> \<longleftrightarrow> q = p" using split_unique [of c q p] assms ps by auto
  finally show ?thesis using ps by auto
next
  case False
  then have "ps = [] \<or> (\<exists>q. ps = [q])" by (cases ps; cases "tl ps") auto
  with assms(2) show ?thesis by (auto simp: starts_with_iff)
qed

text \<open>
  \<open>str.lower\<close> on the ASCII letters; code points above are left as they are,
  which the scripts cannot tell apart: they lower a text only to require
  hexadecimal digits of it afterwards.
\<close>

definition lower :: "str \<Rightarrow> str" where
  "lower s = map (\<lambda>c. if 65 \<le> c \<and> c \<le> 90 then c + 32 else c) s"

section \<open>UTF-8\<close>

definition is_scalar :: "nat \<Rightarrow> bool" where
  "is_scalar c \<longleftrightarrow> c < 55296 \<or> (57343 < c \<and> c < 1114112)"

definition utf8_of_cp :: "nat \<Rightarrow> nat list" where
  "utf8_of_cp c =
     (if c < 128 then [c]
      else if c < 2048 then [192 + c div 64, 128 + c mod 64]
      else if c < 65536 then [224 + c div 4096, 128 + c div 64 mod 64, 128 + c mod 64]
      else [240 + c div 262144, 128 + c div 4096 mod 64, 128 + c div 64 mod 64, 128 + c mod 64])"

definition is_cont :: "nat \<Rightarrow> bool" where
  "is_cont b \<longleftrightarrow> 128 \<le> b \<and> b < 192"

fun utf8_to_cps :: "nat list \<Rightarrow> str option" where
  "utf8_to_cps [] = Some []"
| "utf8_to_cps (b # bs) =
     (if b < 128 then map_option (Cons b) (utf8_to_cps bs)
      else if 192 \<le> b \<and> b < 224 then
        (case bs of
           c1 # bs' \<Rightarrow>
             (let c = (b - 192) * 64 + (c1 - 128) in
              if is_cont c1 \<and> 128 \<le> c then map_option (Cons c) (utf8_to_cps bs') else None)
         | _ \<Rightarrow> None)
      else if 224 \<le> b \<and> b < 240 then
        (case bs of
           c1 # c2 # bs' \<Rightarrow>
             (let c = (b - 224) * 4096 + (c1 - 128) * 64 + (c2 - 128) in
              if is_cont c1 \<and> is_cont c2 \<and> 2048 \<le> c \<and> is_scalar c
              then map_option (Cons c) (utf8_to_cps bs') else None)
         | _ \<Rightarrow> None)
      else if 240 \<le> b \<and> b < 248 then
        (case bs of
           c1 # c2 # c3 # bs' \<Rightarrow>
             (let c = (b - 240) * 262144 + (c1 - 128) * 4096 + (c2 - 128) * 64 + (c3 - 128) in
              if is_cont c1 \<and> is_cont c2 \<and> is_cont c3 \<and> 65536 \<le> c \<and> is_scalar c
              then map_option (Cons c) (utf8_to_cps bs') else None)
         | _ \<Rightarrow> None)
      else None)"

definition utf8_encode :: "str \<Rightarrow> bytes res" where
  "utf8_encode s =
     (if list_all is_scalar s then Inr (map of_nat (concat (map utf8_of_cp s)))
      else Inl UnicodeError)"

definition utf8_decode :: "bytes \<Rightarrow> str res" where
  "utf8_decode bs = of_option UnicodeError (utf8_to_cps (map unat bs))"

lemma utf8_two_scalar: "b < 224 \<Longrightarrow> is_cont d \<Longrightarrow> is_scalar ((b - 192) * 64 + (d - 128))"
  by (auto simp: is_scalar_def is_cont_def)

lemma utf8_to_cps_scalar: "utf8_to_cps bs = Some s \<Longrightarrow> list_all is_scalar s"
proof (induction bs arbitrary: s rule: utf8_to_cps.induct)
  case (2 b bs)
  consider "b < 128" | "192 \<le> b" "b < 224" | "224 \<le> b" "b < 240" | "240 \<le> b" "b < 248"
    using "2.prems" by (fastforce split: if_splits)
  then show ?case
  proof cases
    case 1
    with "2.prems" "2.IH"(1) show ?thesis by (auto simp: is_scalar_def)
  next
    case 2
    with "2.prems" "2.IH"(2) show ?thesis
      by (auto simp: Let_def utf8_two_scalar split: list.splits if_splits)
  next
    case 3
    with "2.prems" "2.IH"(3) show ?thesis
      by (auto simp: Let_def split: list.splits if_splits)
  next
    case 4
    with "2.prems" "2.IH"(4) show ?thesis
      by (auto simp: Let_def split: list.splits if_splits)
  qed
qed simp

text \<open>The digits of a code point in base 64.\<close>

lemma base64_parts:
  fixes c :: nat
  shows "c div 64 * 64 + c mod 64 = c"
    and "c div 4096 * 4096 + c div 64 mod 64 * 64 + c mod 64 = c"
    and "c div 262144 * 262144 + c div 4096 mod 64 * 4096 + c div 64 mod 64 * 64 + c mod 64 = c"
proof -
  have e: "c div 4096 = c div 64 div 64" "c div 262144 = c div 64 div 64 div 64"
    by (simp_all add: div_mult2_eq [symmetric])
  have d: "c div 64 * 64 + c mod 64 = c"
    "c div 64 div 64 * 64 + c div 64 mod 64 = c div 64"
    "c div 64 div 64 div 64 * 64 + c div 64 div 64 mod 64 = c div 64 div 64"
    by (rule div_mult_mod_eq)+
  show "c div 64 * 64 + c mod 64 = c" by (rule d)
  show "c div 4096 * 4096 + c div 64 mod 64 * 64 + c mod 64 = c"
    unfolding e using d(1,2) by linarith
  show "c div 262144 * 262144 + c div 4096 mod 64 * 4096 + c div 64 mod 64 * 64 + c mod 64 = c"
    unfolding e using d by linarith
qed

lemma utf8_to_cps_of_cp:
  assumes "is_scalar c"
  shows "utf8_to_cps (utf8_of_cp c @ bs) = map_option (Cons c) (utf8_to_cps bs)"
proof -
  have "c < 1114112" using assms by (auto simp: is_scalar_def)
  then consider "c < 128" | "128 \<le> c" "c < 2048" | "2048 \<le> c" "c < 65536" | "65536 \<le> c" "c < 1114112"
    by linarith
  then show ?thesis
  proof cases
    case 1
    then show ?thesis by (simp add: utf8_of_cp_def)
  next
    case 2
    then have "c div 64 < 32" by (simp add: div_less_iff_less_mult)
    with 2 show ?thesis
      by (simp add: utf8_of_cp_def is_cont_def Let_def)
  next
    case 3
    then have "c div 4096 < 16" by (simp add: div_less_iff_less_mult)
    with 3 assms base64_parts(2) [of c] show ?thesis
      by (simp add: utf8_of_cp_def is_cont_def Let_def add.assoc)
  next
    case 4
    then have "c div 262144 < 5" by (simp add: div_less_iff_less_mult)
    with 4 assms base64_parts(3) [of c] show ?thesis
      by (simp add: utf8_of_cp_def is_cont_def Let_def add.assoc)
  qed
qed

lemma utf8_to_cps_concat:
  "list_all is_scalar s \<Longrightarrow> utf8_to_cps (concat (map utf8_of_cp s)) = Some s"
  by (induction s) (simp_all add: utf8_to_cps_of_cp)

lemma utf8_of_cp_bytes: "is_scalar c \<Longrightarrow> b \<in> set (utf8_of_cp c) \<Longrightarrow> b < 256"
  by (auto simp: utf8_of_cp_def is_scalar_def div_less_iff_less_mult split: if_splits)

lemma unat_of_byte: "b < 256 \<Longrightarrow> unat (of_nat b :: byte) = b"
  by (simp add: unat_of_nat)

lemma utf8_decode_encode: "utf8_encode s = Inr bs \<Longrightarrow> utf8_decode bs = Inr s"
proof -
  assume enc: "utf8_encode s = Inr bs"
  then have s: "list_all is_scalar s" and bs: "bs = map of_nat (concat (map utf8_of_cp s))"
    by (auto simp: utf8_encode_def split: if_splits)
  have "\<forall>b\<in>set (concat (map utf8_of_cp s)). b < 256"
    using s utf8_of_cp_bytes by (auto simp: list_all_iff)
  then have "map unat bs = concat (map utf8_of_cp s)"
    unfolding bs map_map by (intro map_idI) (auto simp: unat_of_byte)
  with s show ?thesis by (simp add: utf8_decode_def utf8_to_cps_concat)
qed

lemma utf8_of_cp_two:
  assumes "192 \<le> b" "b < 224" "is_cont d" "128 \<le> (b - 192) * 64 + (d - 128)"
  shows "utf8_of_cp ((b - 192) * 64 + (d - 128)) = [b, d]"
    and "is_scalar ((b - 192) * 64 + (d - 128))"
proof -
  obtain q r where b: "b = 192 + q" and d: "d = 128 + r" and q: "q < 32" and r: "r < 64"
    using assms(1-3) by (auto simp: is_cont_def le_iff_add)
  have "(q * 64 + r) div 64 = q" "(q * 64 + r) mod 64 = r" using r by simp_all
  then show "utf8_of_cp ((b - 192) * 64 + (d - 128)) = [b, d]"
    using assms(4) q r by (simp add: b d utf8_of_cp_def)
  show "is_scalar ((b - 192) * 64 + (d - 128))"
    using q r by (simp add: b d is_scalar_def)
qed

text \<open>A number written in base 64, and its digits.\<close>

lemma base64_digit:
  fixes q r :: nat
  assumes "r < 64"
  shows "(q * 64 + r) div 64 = q" and "(q * 64 + r) mod 64 = r"
  using assms by simp_all

lemma base64_div:
  fixes q r s :: nat
  assumes "r < 64" and "s < 64"
  shows "((q * 64 + r) * 64 + s) div 4096 = q"
proof -
  have "((q * 64 + r) * 64 + s) div (64 * 64) = ((q * 64 + r) * 64 + s) div 64 div 64"
    by (rule div_mult2_eq)
  then show ?thesis using assms by simp
qed

lemma utf8_of_cp_three:
  assumes "224 \<le> b" "b < 240" "is_cont d" "is_cont e"
    "2048 \<le> (b - 224) * 4096 + (d - 128) * 64 + (e - 128)"
  shows "utf8_of_cp ((b - 224) * 4096 + (d - 128) * 64 + (e - 128)) = [b, d, e]"
proof -
  obtain q r s where b: "b = 224 + q" and d: "d = 128 + r" and e: "e = 128 + s"
    and q: "q < 16" and r: "r < 64" and s: "s < 64"
    using assms(1-4) by (auto simp: is_cont_def le_iff_add)
  define c where "c = (q * 64 + r) * 64 + s"
  have c: "(b - 224) * 4096 + (d - 128) * 64 + (e - 128) = c"
    by (simp add: b d e c_def)
  have "c div 64 = q * 64 + r" "c mod 64 = s" "c div 4096 = q"
    unfolding c_def using r s by (simp_all only: base64_digit base64_div)
  moreover have "2048 \<le> c" using assms(5) by (simp only: c)
  moreover have "c < 65536" using q r s by (simp add: c_def)
  ultimately have "utf8_of_cp c = [b, d, e]"
    using r by (simp add: b d e utf8_of_cp_def)
  then show ?thesis by (simp only: c)
qed

lemma utf8_of_cp_four:
  assumes "240 \<le> b" "b < 248" "is_cont d" "is_cont e" "is_cont f"
    "65536 \<le> (b - 240) * 262144 + (d - 128) * 4096 + (e - 128) * 64 + (f - 128)"
  shows "utf8_of_cp ((b - 240) * 262144 + (d - 128) * 4096 + (e - 128) * 64 + (f - 128))
    = [b, d, e, f]"
proof -
  obtain q r s u where b: "b = 240 + q" and d: "d = 128 + r" and e: "e = 128 + s"
    and f: "f = 128 + u" and r: "r < 64" and s: "s < 64" and u: "u < 64"
    using assms(1-5) by (auto simp: is_cont_def le_iff_add)
  define c where "c = ((q * 64 + r) * 64 + s) * 64 + u"
  have c: "(b - 240) * 262144 + (d - 128) * 4096 + (e - 128) * 64 + (f - 128) = c"
    by (simp add: b d e f c_def)
  have parts: "c div 64 = (q * 64 + r) * 64 + s" "c mod 64 = u" "c div 4096 = q * 64 + r"
    unfolding c_def using s u by (simp_all only: base64_digit base64_div)
  then have "c div 262144 = q"
    using div_mult2_eq [of c 4096 64] r by simp
  moreover have "c div 64 mod 64 = s" "c div 4096 mod 64 = r" "c mod 64 = u"
    unfolding parts using r s by (simp_all only: base64_digit)
  moreover have "65536 \<le> c" using assms(6) by (simp only: c)
  ultimately have "utf8_of_cp c = [b, d, e, f]"
    by (simp add: b d e f utf8_of_cp_def)
  then show ?thesis by (simp only: c)
qed

text \<open>One step of the decoder, by the leading byte.\<close>

lemma utf8_to_cps_two:
  assumes "192 \<le> b" "b < 224" "utf8_to_cps (b # bs) = Some s"
  obtains d bs' t where "bs = d # bs'" "utf8_to_cps bs' = Some t" "s = ((b - 192) * 64 + (d - 128)) # t"
    "is_cont d" "128 \<le> (b - 192) * 64 + (d - 128)"
  using assms by (simp add: Let_def split: list.splits if_splits) blast

lemma utf8_to_cps_three:
  assumes "224 \<le> b" "b < 240" "utf8_to_cps (b # bs) = Some s"
  obtains d e bs' t where "bs = d # e # bs'" "utf8_to_cps bs' = Some t"
    "s = ((b - 224) * 4096 + (d - 128) * 64 + (e - 128)) # t" "is_cont d" "is_cont e"
    "2048 \<le> (b - 224) * 4096 + (d - 128) * 64 + (e - 128)"
    "is_scalar ((b - 224) * 4096 + (d - 128) * 64 + (e - 128))"
  using assms by (simp add: Let_def split: list.splits if_splits) blast

lemma utf8_to_cps_four:
  assumes "240 \<le> b" "b < 248" "utf8_to_cps (b # bs) = Some s"
  obtains d e f bs' t where "bs = d # e # f # bs'" "utf8_to_cps bs' = Some t"
    "s = ((b - 240) * 262144 + (d - 128) * 4096 + (e - 128) * 64 + (f - 128)) # t"
    "is_cont d" "is_cont e" "is_cont f"
    "65536 \<le> (b - 240) * 262144 + (d - 128) * 4096 + (e - 128) * 64 + (f - 128)"
    "is_scalar ((b - 240) * 262144 + (d - 128) * 4096 + (e - 128) * 64 + (f - 128))"
  using assms by (simp add: Let_def split: list.splits if_splits) blast

declare utf8_to_cps.simps [simp del]

lemma utf8_to_cps_sound:
  "utf8_to_cps bs = Some s \<Longrightarrow> list_all is_scalar s \<and> concat (map utf8_of_cp s) = bs"
proof (induction "length bs" arbitrary: bs s rule: less_induct)
  case less
  show ?case
  proof (cases bs)
    case Nil
    with less.prems show ?thesis by (simp add: utf8_to_cps.simps)
  next
    case (Cons b cs)
    have dec: "utf8_to_cps (b # cs) = Some s" using less.prems Cons by simp
    then consider "b < 128" | "192 \<le> b" "b < 224" | "224 \<le> b" "b < 240" | "240 \<le> b" "b < 248"
      by (auto simp: utf8_to_cps.simps split: if_splits)
    then show ?thesis
    proof cases
      case 1
      with dec obtain t where "utf8_to_cps cs = Some t" "s = b # t"
        by (auto simp: utf8_to_cps.simps)
      with 1 less.hyps [of cs t] show ?thesis by (simp add: Cons utf8_of_cp_def is_scalar_def)
    next
      case 2
      from utf8_to_cps_two [OF 2 dec] obtain d bs' t where *: "cs = d # bs'" "utf8_to_cps bs' = Some t"
        "s = ((b - 192) * 64 + (d - 128)) # t" "is_cont d" "128 \<le> (b - 192) * 64 + (d - 128)" .
      with less.hyps [of bs' t] utf8_of_cp_two [OF 2 *(4,5)] show ?thesis by (simp add: Cons)
    next
      case 3
      from utf8_to_cps_three [OF 3 dec] obtain d e bs' t where *: "cs = d # e # bs'"
        "utf8_to_cps bs' = Some t" "s = ((b - 224) * 4096 + (d - 128) * 64 + (e - 128)) # t"
        "is_cont d" "is_cont e" "2048 \<le> (b - 224) * 4096 + (d - 128) * 64 + (e - 128)"
        "is_scalar ((b - 224) * 4096 + (d - 128) * 64 + (e - 128))" .
      with less.hyps [of bs' t] utf8_of_cp_three [OF 3 *(4,5,6)] show ?thesis by (simp add: Cons)
    next
      case 4
      from utf8_to_cps_four [OF 4 dec] obtain d e f bs' t where *: "cs = d # e # f # bs'"
        "utf8_to_cps bs' = Some t"
        "s = ((b - 240) * 262144 + (d - 128) * 4096 + (e - 128) * 64 + (f - 128)) # t"
        "is_cont d" "is_cont e" "is_cont f"
        "65536 \<le> (b - 240) * 262144 + (d - 128) * 4096 + (e - 128) * 64 + (f - 128)"
        "is_scalar ((b - 240) * 262144 + (d - 128) * 4096 + (e - 128) * 64 + (f - 128))" .
      with less.hyps [of bs' t] utf8_of_cp_four [OF 4 *(4,5,6,7)] show ?thesis by (simp add: Cons)
    qed
  qed
qed

lemma utf8_encode_decode: "utf8_decode bs = Inr s \<Longrightarrow> utf8_encode s = Inr bs"
proof -
  assume "utf8_decode bs = Inr s"
  then have "list_all is_scalar s" "concat (map utf8_of_cp s) = map unat bs"
    using utf8_to_cps_sound by (auto simp: utf8_decode_def of_option_Inr_iff)
  then show ?thesis by (simp add: utf8_encode_def o_def)
qed

section \<open>Reading text\<close>

text \<open>
  \<open>Path.read_text()\<close>: the bytes decoded as UTF-8, with each carriage return,
  alone or before a line feed, translated to a line feed.
\<close>

fun universal_newlines :: "str \<Rightarrow> str" where
  "universal_newlines [] = []"
| "universal_newlines [c] = [if c = 13 then 10 else c]"
| "universal_newlines (c # d # s) =
     (if c = 13 \<and> d = 10 then 10 # universal_newlines s
      else (if c = 13 then 10 else c) # universal_newlines (d # s))"

lemma universal_newlines_no_cr: "13 \<notin> set (universal_newlines s)"
  by (induction s rule: universal_newlines.induct) auto

lemma universal_newlines_id: "13 \<notin> set s \<Longrightarrow> universal_newlines s = s"
  by (induction s rule: universal_newlines.induct) auto

lemma set_universal_newlines: "set (universal_newlines s) \<subseteq> insert 10 (set s)"
  by (induction s rule: universal_newlines.induct) auto

definition read_text :: "bytes \<Rightarrow> str res" where
  "read_text bs = ebind (utf8_decode bs) (\<lambda>s. Inr (universal_newlines s))"

definition write_text :: "str \<Rightarrow> bytes res" where
  "write_text s = utf8_encode s"

lemma read_write_text:
  "write_text s = Inr bs \<Longrightarrow> 13 \<notin> set s \<Longrightarrow> read_text bs = Inr s"
  by (simp add: write_text_def read_text_def utf8_decode_encode universal_newlines_id)

section \<open>The representation of a string\<close>

text \<open>
  \<open>repr(s)\<close>: quotes and escapes. Which code points from 128 on are printable is
  a table of the Unicode database, the parameter \<open>printable\<close>.
\<close>

definition hex_of :: "nat \<Rightarrow> nat \<Rightarrow> str" where
  "hex_of width c = map (\<lambda>i. hex_digit (c div 16 ^ i mod 16)) (rev [0..<width])"

definition repr_char :: "(nat \<Rightarrow> bool) \<Rightarrow> nat \<Rightarrow> nat \<Rightarrow> str" where
  "repr_char printable quote c =
     (if c = quote \<or> c = 92 then [92, c]
      else if c = 9 then [92, 116]
      else if c = 10 then [92, 110]
      else if c = 13 then [92, 114]
      else if c < 32 \<or> c = 127 then [92, 120] @ hex_of 2 c
      else if c < 127 then [c]
      else if printable c then [c]
      else if c < 256 then [92, 120] @ hex_of 2 c
      else if c < 65536 then [92, 117] @ hex_of 4 c
      else [92, 85] @ hex_of 8 c)"

definition repr_str :: "(nat \<Rightarrow> bool) \<Rightarrow> str \<Rightarrow> str" where
  "repr_str printable s =
     (let quote = (if 39 \<in> set s \<and> 34 \<notin> set s then 34 else 39) in
      [quote] @ concat (map (repr_char printable quote) s) @ [quote])"

definition repr_option :: "(nat \<Rightarrow> bool) \<Rightarrow> str option \<Rightarrow> str" where
  "repr_option printable s = (case s of None \<Rightarrow> lit ''None'' | Some t \<Rightarrow> repr_str printable t)"

end
