(* ===== verification/PyFs.thy ===== *)
theory PyFs
  imports PyText
begin

text \<open>
  The file system as \<open>pathlib\<close> shows it: a finite map from absolute component
  paths to files, directories and symbolic links; the look-up of the kernel behind
  \<open>open\<close>; \<open>Path.resolve\<close> of Python 3.12, which passes over names that do not exist
  and, once it meets a link it is already resolving, leaves the rest of the path as
  it is; joining, \<open>relative_to\<close>, and the writes the scripts make. A path resolved
  without meeting such a loop is proved to run through no link.
\<close>

section \<open>Nodes and paths\<close>

type_synonym path = "str list"

datatype node =
    File bytes
  | Dir
  | Link str

type_synonym fs = "(path \<times> node) list"

text \<open>The root directory always exists.\<close>

definition node_at :: "fs \<Rightarrow> path \<Rightarrow> node option" where
  "node_at fs p = (if p = [] then Some Dir else map_of fs p)"

definition link_target :: "fs \<Rightarrow> path \<Rightarrow> str option" where
  "link_target fs p = (case map_of fs p of Some (Link t) \<Rightarrow> Some t | _ \<Rightarrow> None)"

fun file_bytes :: "node option \<Rightarrow> bytes option" where
  "file_bytes (Some (File bs)) = Some bs"
| "file_bytes _ = None"

lemma file_bytes_Some [simp]: "file_bytes n = Some bs \<longleftrightarrow> n = Some (File bs)"
  by (cases n rule: file_bytes.cases) auto

text \<open>The components of a path as written; \<open>pathlib\<close> drops empty and dot components.\<close>

definition path_parts :: "str \<Rightarrow> str list" where
  "path_parts raw = filter (\<lambda>c. c \<noteq> [] \<and> c \<noteq> lit ''.'') (split_on 47 raw)"

definition is_absolute :: "str \<Rightarrow> bool" where
  "is_absolute raw \<longleftrightarrow> take 1 raw = [47]"

definition join_path :: "path \<Rightarrow> str \<Rightarrow> path" where
  "join_path root raw = (if is_absolute raw then path_parts raw else root @ path_parts raw)"

section \<open>The look-up of a path\<close>

text \<open>The links of the file system that are not being resolved.\<close>

definition unvisited :: "fs \<Rightarrow> path list \<Rightarrow> nat" where
  "unvisited fs active = card (fst ` set fs - set active)"

lemma unvisited_less:
  assumes "link_target fs p = Some t" and "p \<notin> set active"
  shows "unvisited fs (p # active) < unvisited fs active"
proof -
  have "p \<in> fst ` set fs"
    using assms(1) by (force simp: link_target_def dest: map_of_SomeD split: option.splits node.splits)
  then show ?thesis
    unfolding unvisited_def using assms(2) by (intro psubset_card_mono) auto
qed

text \<open>
  \<open>active\<close> holds the links being followed: meeting one again is a loop. The
  recursion stops because every link followed makes \<open>active\<close> larger, and there
  are finitely many links. Every step is taken in a directory that exists; only the
  last name may be missing.
\<close>

function traverse :: "fs \<Rightarrow> path list \<Rightarrow> path \<Rightarrow> str list \<Rightarrow> path res" where
  "traverse fs active path [] = Inr path"
| "traverse fs active path (c # cs) =
     (if node_at fs path = None then Inl FileNotFoundError
      else if node_at fs path \<noteq> Some Dir then Inl NotADirectoryError
      else if c = [] \<or> c = lit ''.'' then traverse fs active path cs
      else if c = lit ''..'' then traverse fs active (butlast path) cs
      else
        (case link_target fs (path @ [c]) of
           None \<Rightarrow> traverse fs active (path @ [c]) cs
         | Some target \<Rightarrow>
             if path @ [c] \<in> set active then Inl SymlinkLoop
             else ebind (traverse fs ((path @ [c]) # active)
                          (if is_absolute target then [] else path) (split_on 47 target))
                    (\<lambda>p. traverse fs active p cs)))"
  by pat_completeness auto

termination
  by (relation "measures [\<lambda>(fs, active, path, cs). unvisited fs active,
                          \<lambda>(fs, active, path, cs). length cs]")
    (auto simp: unvisited_less)

definition locate :: "fs \<Rightarrow> path \<Rightarrow> path res" where
  "locate fs p = traverse fs [] [] p"

section \<open>Resolution\<close>

text \<open>
  \<open>os.path.realpath\<close>, not strict: the path reached and whether no loop was met. At a
  loop the rest of the path is joined to the link unchanged, and \<open>posixpath.join\<close>
  takes a rest that begins with a slash for absolute.
\<close>

definition rejoin :: "path \<Rightarrow> str list \<Rightarrow> str list" where
  "rejoin path rest = (if take 1 rest = [[]] \<and> 1 < length rest then rest else path @ rest)"

function walk :: "fs \<Rightarrow> path list \<Rightarrow> path \<Rightarrow> str list \<Rightarrow> str list \<times> bool" where
  "walk fs active path [] = (path, True)"
| "walk fs active path (c # cs) =
     (if c = [] \<or> c = lit ''.'' then walk fs active path cs
      else if c = lit ''..'' then walk fs active (butlast path) cs
      else
        (case link_target fs (path @ [c]) of
           None \<Rightarrow> walk fs active (path @ [c]) cs
         | Some target \<Rightarrow>
             if path @ [c] \<in> set active then (rejoin (path @ [c]) cs, False)
             else
               (case walk fs ((path @ [c]) # active)
                       (if is_absolute target then [] else path) (split_on 47 target) of
                  (p, ok) \<Rightarrow> if ok then walk fs active p cs else (rejoin p cs, False))))"
  by pat_completeness auto

termination
  by (relation "measures [\<lambda>(fs, active, path, cs). unvisited fs active,
                          \<lambda>(fs, active, path, cs). length cs]")
    (auto simp: unvisited_less)

text \<open>\<open>os.path.normpath\<close> of an absolute path: dots are taken away without looking at links.\<close>

definition normal_step :: "path \<Rightarrow> str \<Rightarrow> path" where
  "normal_step path c =
     (if c = [] \<or> c = lit ''.'' then path else if c = lit ''..'' then butlast path else path @ [c])"

definition normal_path :: "str list \<Rightarrow> path" where
  "normal_path cs = foldl normal_step [] cs"

text \<open>\<open>Path.resolve\<close> asks for the status of a path after a loop, and raises when the kernel sees the loop too.\<close>

definition loop_free :: "fs \<Rightarrow> path \<Rightarrow> bool" where
  "loop_free fs p \<longleftrightarrow> snd (walk fs [] [] p)"

definition resolve :: "fs \<Rightarrow> path \<Rightarrow> path res" where
  "resolve fs p =
     (let q = normal_path (fst (walk fs [] [] p)) in
      if \<not> loop_free fs p \<and> locate fs q = Inl SymlinkLoop then Inl SymlinkLoop else Inr q)"

definition relative_to :: "path \<Rightarrow> path \<Rightarrow> bool" where
  "relative_to p root \<longleftrightarrow> take (length root) p = root"

lemma relative_to_iff: "relative_to p root \<longleftrightarrow> (\<exists>rest. p = root @ rest)"
  by (auto simp: relative_to_def) (metis append_take_drop_id)

text \<open>No prefix of a canonical path is a link, and its components are plain names.\<close>

definition plain_name :: "str \<Rightarrow> bool" where
  "plain_name c \<longleftrightarrow> c \<noteq> [] \<and> c \<noteq> lit ''.'' \<and> c \<noteq> lit ''..''"

definition canonical :: "fs \<Rightarrow> path \<Rightarrow> bool" where
  "canonical fs p \<longleftrightarrow>
     list_all plain_name p \<and> (\<forall>n\<le>length p. link_target fs (take n p) = None \<or> n = 0)"

lemma canonical_Nil [simp]: "canonical fs []"
  by (simp add: canonical_def)

lemma canonical_take: "canonical fs p \<Longrightarrow> canonical fs (take m p)"
  by (auto simp: canonical_def list_all_iff min_def dest: in_set_takeD)

lemma canonical_butlast: "canonical fs p \<Longrightarrow> canonical fs (butlast p)"
  using canonical_take [of fs p "length p - 1"] by (simp add: butlast_conv_take)

lemma canonical_snoc:
  assumes "canonical fs p" "plain_name c" "link_target fs (p @ [c]) = None"
  shows "canonical fs (p @ [c])"
  unfolding canonical_def
proof (intro conjI allI impI)
  show "list_all plain_name (p @ [c])" using assms by (simp add: canonical_def)
  fix n assume "n \<le> length (p @ [c])"
  then consider "n \<le> length p" | "n = length (p @ [c])" by fastforce
  then show "link_target fs (take n (p @ [c])) = None \<or> n = 0"
    by cases (use assms in \<open>auto simp: canonical_def\<close>)
qed

lemma walk_canonical:
  "walk fs active path cs = (p, True) \<Longrightarrow> canonical fs path \<Longrightarrow> canonical fs p"
proof (induction fs active path cs arbitrary: p rule: walk.induct)
  case (1 fs active path)
  then show ?case by simp
next
  case (2 fs active path c cs)
  note IH = "2.IH"
  consider (skip) "c = [] \<or> c = lit ''.''" | (up) "\<not> (c = [] \<or> c = lit ''.'')" "c = lit ''..''"
    | (link) t where "\<not> (c = [] \<or> c = lit ''.'')" "c \<noteq> lit ''..''" "link_target fs (path @ [c]) = Some t"
    | (step) "\<not> (c = [] \<or> c = lit ''.'')" "c \<noteq> lit ''..''" "link_target fs (path @ [c]) = None"
    by (cases "link_target fs (path @ [c])") auto
  then show ?case
  proof cases
    case skip
    with 2 show ?thesis by auto
  next
    case up
    with 2 show ?thesis by (auto simp: canonical_butlast)
  next
    case link
    with "2.prems" obtain q where q: "path @ [c] \<notin> set active"
      "walk fs ((path @ [c]) # active) (if is_absolute t then [] else path) (split_on 47 t) = (q, True)"
      "walk fs active q cs = (p, True)"
      by (auto split: if_splits prod.splits)
    then have "canonical fs q"
      using IH(4) [OF link q(1,2)] "2.prems" by simp
    with IH(5) [OF link q(1) q(2) [symmetric]] q(3) show ?thesis by simp
  next
    case step
    moreover from this have "canonical fs (path @ [c])"
      using "2.prems" by (intro canonical_snoc) (auto simp: plain_name_def)
    ultimately show ?thesis using "2.prems" IH(3) by simp
  qed
qed

lemma normal_step_plain [simp]: "plain_name c \<Longrightarrow> normal_step path c = path @ [c]"
  by (simp add: normal_step_def plain_name_def)

lemma normal_path_plain: "list_all plain_name p \<Longrightarrow> normal_path p = p"
proof -
  have "foldl normal_step q p = q @ p" if "list_all plain_name p" for q
    using that by (induction p arbitrary: q) simp_all
  then show "list_all plain_name p \<Longrightarrow> normal_path p = p" by (simp add: normal_path_def)
qed

text \<open>Without a loop, resolution ends where the walk does.\<close>

lemma resolve_walk:
  assumes "walk fs [] [] p = (q, True)"
  shows "canonical fs q" "resolve fs p = Inr q" "loop_free fs p"
proof -
  show can: "canonical fs q" using walk_canonical [OF assms] by simp
  then show "resolve fs p = Inr q" "loop_free fs p"
    using assms by (simp_all add: resolve_def loop_free_def normal_path_plain canonical_def)
qed

lemma resolve_canonical: "resolve fs p = Inr q \<Longrightarrow> loop_free fs p \<Longrightarrow> canonical fs q"
  using resolve_walk [of fs p] by (cases "walk fs [] [] p") (auto simp: loop_free_def)

text \<open>A path without links and dots resolves to itself.\<close>

lemma walk_plain:
  "canonical fs (path @ cs) \<Longrightarrow> walk fs active path cs = (path @ cs, True)"
proof (induction cs arbitrary: path)
  case Nil
  then show ?case by simp
next
  case (Cons c cs)
  have "plain_name c" using Cons.prems by (simp add: canonical_def)
  moreover have "link_target fs (path @ [c]) = None"
    using Cons.prems by (auto simp: canonical_def dest!: spec [of _ "Suc (length path)"])
  ultimately show ?case using Cons.IH [of "path @ [c]"] Cons.prems by (simp add: plain_name_def)
qed

lemma resolve_plain: "canonical fs p \<Longrightarrow> resolve fs p = Inr p"
  using walk_plain [of fs "[]" p] resolve_walk(2) by simp

lemma loop_free_plain: "canonical fs p \<Longrightarrow> loop_free fs p"
  using walk_plain [of fs "[]" p] resolve_walk(3) by simp

lemma resolve_idem: "resolve fs p = Inr q \<Longrightarrow> loop_free fs p \<Longrightarrow> resolve fs q = Inr q"
  by (rule resolve_plain) (rule resolve_canonical)

text \<open>What the look-up finds is where resolution ends.\<close>

lemma traverse_walk: "traverse fs active path cs = Inr p \<Longrightarrow> walk fs active path cs = (p, True)"
proof (induction fs active path cs arbitrary: p rule: traverse.induct)
  case (1 fs active path)
  then show ?case by simp
next
  case (2 fs active path c cs)
  note IH = "2.IH"
  have d: "node_at fs path = Some Dir" using "2.prems" by (auto split: if_splits)
  consider (skip) "c = [] \<or> c = lit ''.''" | (up) "\<not> (c = [] \<or> c = lit ''.'')" "c = lit ''..''"
    | (link) t where "\<not> (c = [] \<or> c = lit ''.'')" "c \<noteq> lit ''..''" "link_target fs (path @ [c]) = Some t"
    | (step) "\<not> (c = [] \<or> c = lit ''.'')" "c \<noteq> lit ''..''" "link_target fs (path @ [c]) = None"
    by (cases "link_target fs (path @ [c])") auto
  then show ?case
  proof cases
    case skip
    with d "2.prems" IH(1) show ?thesis by auto
  next
    case up
    with d "2.prems" IH(2) show ?thesis by auto
  next
    case link
    with d "2.prems" obtain q where q: "path @ [c] \<notin> set active"
      "traverse fs ((path @ [c]) # active) (if is_absolute t then [] else path) (split_on 47 t) = Inr q"
      "traverse fs active q cs = Inr p"
      by (auto simp: ebind_Inr_iff split: if_splits)
    with d link IH(4) IH(5) show ?thesis by simp
  next
    case step
    with d "2.prems" IH(3) show ?thesis by simp
  qed
qed

lemma locate_canonical: "locate fs p = Inr q \<Longrightarrow> canonical fs q"
  by (rule resolve_walk(1) [OF traverse_walk]) (simp add: locate_def)

lemma locate_resolve: "locate fs p = Inr q \<Longrightarrow> resolve fs p = Inr q"
  by (rule resolve_walk(2) [OF traverse_walk]) (simp add: locate_def)

text \<open>Both read the links and the kind of the nodes, no contents.\<close>

definition same_shape :: "fs \<Rightarrow> fs \<Rightarrow> bool" where
  "same_shape fs fs' \<longleftrightarrow> link_target fs = link_target fs'
     \<and> (\<forall>p. (node_at fs p = None) = (node_at fs' p = None) \<and> (node_at fs p = Some Dir) = (node_at fs' p = Some Dir))"

lemma traverse_cong:
  "same_shape fs fs' \<Longrightarrow> traverse fs active path cs = traverse fs' active path cs"
proof (induction fs active path cs rule: traverse.induct)
  case (1 fs active path)
  show ?case by simp
next
  case (2 fs active path c cs)
  have same: "link_target fs' = link_target fs" "(node_at fs' path = None) = (node_at fs path = None)"
    "(node_at fs' path = Some Dir) = (node_at fs path = Some Dir)"
    using "2.prems" by (auto simp: same_shape_def)
  from 2 show ?case
    by (auto simp: same intro!: ebind_cong split: option.splits)
qed

lemma walk_cong:
  "link_target fs = link_target fs' \<Longrightarrow> walk fs active path cs = walk fs' active path cs"
proof (induction fs active path cs rule: walk.induct)
  case (1 fs active path)
  show ?case by simp
next
  case (2 fs active path c cs)
  then show ?case by (auto split: option.splits prod.splits)
qed

lemma resolve_cong: "same_shape fs fs' \<Longrightarrow> resolve fs p = resolve fs' p"
  using traverse_cong [of fs fs'] walk_cong [of fs fs']
  by (simp add: resolve_def loop_free_def locate_def same_shape_def)

lemma locate_cong: "same_shape fs fs' \<Longrightarrow> locate fs p = locate fs' p"
  by (simp add: locate_def traverse_cong)

text \<open>The directories above a path.\<close>

definition above :: "fs \<Rightarrow> path \<Rightarrow> bool" where
  "above fs p \<longleftrightarrow> (\<forall>n<length p. node_at fs (take n p) = Some Dir)"

lemma node_at_root [simp]: "node_at fs [] = Some Dir"
  by (simp add: node_at_def)

lemma above_Nil [simp]: "above fs []"
  by (simp add: above_def)

lemma above_snoc [simp]: "above fs (p @ [c]) \<longleftrightarrow> above fs p \<and> node_at fs p = Some Dir"
  by (auto simp: above_def less_Suc_eq)

lemma above_short [simp]:
  "above fs [a]" "above fs [a, b] \<longleftrightarrow> node_at fs [a] = Some Dir"
  "above fs [a, b, c] \<longleftrightarrow> node_at fs [a] = Some Dir \<and> node_at fs [a, b] = Some Dir"
  using above_snoc [of fs "[]" a] above_snoc [of fs "[a]" b] above_snoc [of fs "[a, b]" c] by auto

text \<open>A path of directories is canonical.\<close>

lemma directories_canonical:
  assumes "list_all plain_name p" "\<And>n. 0 < n \<Longrightarrow> n \<le> length p \<Longrightarrow> node_at fs (take n p) = Some Dir"
  shows "canonical fs p" "above fs p"
proof -
  show "above fs p"
    unfolding above_def
  proof (intro allI impI)
    fix n assume "n < length p"
    then show "node_at fs (take n p) = Some Dir" using assms(2) by (cases n) simp_all
  qed
  show "canonical fs p"
    unfolding canonical_def
  proof (intro conjI allI impI assms(1))
    fix n assume "n \<le> length p"
    with assms(2) [of n] show "link_target fs (take n p) = None \<or> n = 0"
      by (cases "n = 0") (auto simp: node_at_def link_target_def split: if_splits)
  qed
qed

lemma traverse_plain:
  "canonical fs (path @ cs) \<Longrightarrow> above fs (path @ cs) \<Longrightarrow> traverse fs active path cs = Inr (path @ cs)"
proof (induction cs arbitrary: path)
  case Nil
  then show ?case by simp
next
  case (Cons c cs)
  have "plain_name c" using Cons.prems by (simp add: canonical_def)
  moreover have "link_target fs (path @ [c]) = None"
    using Cons.prems by (auto simp: canonical_def dest!: spec [of _ "Suc (length path)"])
  moreover have "node_at fs path = Some Dir"
    using Cons.prems(2) by (auto simp: above_def dest!: spec [of _ "length path"])
  ultimately show ?case using Cons.IH [of "path @ [c]"] Cons.prems by (simp add: plain_name_def)
qed

lemma locate_plain: "canonical fs p \<Longrightarrow> above fs p \<Longrightarrow> locate fs p = Inr p"
  using traverse_plain [of fs "[]" p] by (simp add: locate_def)

section \<open>Writes\<close>

text \<open>\<open>Path.write_text\<close> and \<open>write_bytes\<close>: through links, into an existing directory.\<close>

definition put_file :: "path \<Rightarrow> bytes \<Rightarrow> fs \<Rightarrow> fs" where
  "put_file p bs fs = AList.update p (File bs) fs"

definition write_file :: "fs \<Rightarrow> path \<Rightarrow> bytes \<Rightarrow> fs res" where
  "write_file fs p bs =
     ebind (locate fs p) (\<lambda>q.
       case node_at fs q of
         Some (File _) \<Rightarrow> Inr (put_file q bs fs)
       | Some _ \<Rightarrow> Inl IsADirectoryError
       | None \<Rightarrow> if node_at fs (butlast q) = Some Dir then Inr (put_file q bs fs)
                 else Inl FileNotFoundError)"

lemma node_at_put_file: "p \<noteq> [] \<Longrightarrow> node_at (put_file p bs fs) q = (if q = p then Some (File bs) else node_at fs q)"
  by (simp add: node_at_def put_file_def update_conv')

lemma write_file_node_at:
  assumes "write_file fs p bs = Inr fs'" "resolve fs p = Inr q"
  shows "node_at fs' r = (if r = q then Some (File bs) else node_at fs r)"
proof -
  from assms(1) obtain q' where "locate fs p = Inr q'" by (auto simp: write_file_def res_dest)
  with assms(2) have loc: "locate fs p = Inr q" by (auto dest: locate_resolve)
  have "q \<noteq> []" using assms loc by (auto simp: write_file_def)
  moreover have "fs' = put_file q bs fs"
    using assms loc by (auto simp: write_file_def split: option.splits node.splits if_splits)
  ultimately show ?thesis by (simp add: node_at_put_file)
qed

text \<open>Writing into a file that is not a link moves no path.\<close>

lemma link_target_put_file:
  "link_target fs p = None \<Longrightarrow> link_target (put_file p bs fs) = link_target fs"
  by (rule ext) (auto simp: link_target_def put_file_def update_conv' split: option.splits node.splits)

text \<open>A name that is one component of a path as written.\<close>

definition good_name :: "str \<Rightarrow> bool" where
  "good_name c \<longleftrightarrow> plain_name c \<and> 47 \<notin> set c"

lemma join_good_name: "good_name c \<Longrightarrow> join_path root c = root @ [c]"
proof -
  assume c: "good_name c"
  then have "split_on 47 c = [c]" using split_on_join [of "[c]" 47] by (simp add: good_name_def)
  moreover have "\<not> is_absolute c" using c by (cases c) (auto simp: is_absolute_def good_name_def)
  ultimately show ?thesis using c by (simp add: join_path_def path_parts_def good_name_def plain_name_def)
qed

text \<open>A write to a plain path in a directory.\<close>

lemma write_file_plain:
  assumes "canonical fs p" "node_at fs p = None \<or> (\<exists>old. node_at fs p = Some (File old))"
    "p \<noteq> []" "above fs p"
  shows "write_file fs p bs = Inr (put_file p bs fs)"
proof -
  have "node_at fs (butlast p) = Some Dir"
    using assms(3,4) above_snoc [of fs "butlast p" "last p"] by simp
  then show ?thesis using assms by (auto simp: write_file_def locate_plain)
qed

lemma canonical_put_file:
  "link_target fs p = None \<Longrightarrow> canonical (put_file p bs fs) q \<longleftrightarrow> canonical fs q"
  by (simp add: canonical_def link_target_put_file)

text \<open>New contents for a file keep the shape.\<close>

lemma same_shape_put_file:
  assumes "node_at fs p = Some (File old)" "p \<noteq> []"
  shows "same_shape fs (put_file p bs fs)"
proof -
  have "link_target fs p = None" using assms by (simp add: node_at_def link_target_def)
  with assms show ?thesis by (simp add: same_shape_def link_target_put_file node_at_put_file)
qed

lemma link_target_node_at: "p \<noteq> [] \<Longrightarrow> node_at fs p = None \<or> (\<exists>old. node_at fs p = Some (File old)) \<Longrightarrow> link_target fs p = None"
  by (auto simp: node_at_def link_target_def split: option.splits node.splits)

section \<open>Reading\<close>

definition read_bytes :: "fs \<Rightarrow> path \<Rightarrow> bytes res" where
  "read_bytes fs p =
     ebind (locate fs p) (\<lambda>q.
       case node_at fs q of
         Some (File bs) \<Rightarrow> Inr bs
       | Some Dir \<Rightarrow> Inl IsADirectoryError
       | _ \<Rightarrow> Inl FileNotFoundError)"

text \<open>\<open>Path.is_file\<close> follows links; a path that cannot be looked up is no file.\<close>

definition is_file :: "fs \<Rightarrow> path \<Rightarrow> bool" where
  "is_file fs p = (case read_bytes fs p of Inl _ \<Rightarrow> False | Inr _ \<Rightarrow> True)"

definition read_path_text :: "fs \<Rightarrow> path \<Rightarrow> str res" where
  "read_path_text fs p = ebind (read_bytes fs p) read_text"

lemma is_file_iff: "is_file fs p \<longleftrightarrow> (\<exists>bs. read_bytes fs p = Inr bs)"
  by (simp add: is_file_def split: sum.splits)

lemma read_bytes_iff:
  "read_bytes fs p = Inr bs \<longleftrightarrow> (\<exists>q. locate fs p = Inr q \<and> node_at fs q = Some (File bs))"
  by (cases "locate fs p") (auto simp: read_bytes_def split: option.splits node.splits)

lemma read_bytes_plain:
  "canonical fs p \<Longrightarrow> above fs p \<Longrightarrow> node_at fs p = Some (File bs) \<Longrightarrow> read_bytes fs p = Inr bs"
  by (simp add: read_bytes_def locate_plain)

lemma read_bytes_canonical:
  "canonical fs p \<Longrightarrow> read_bytes fs p = Inr bs \<Longrightarrow> node_at fs p = Some (File bs)"
  using locate_resolve resolve_plain by (fastforce simp: read_bytes_iff)

lemma traverse_above:
  "traverse fs active path cs = Inr q \<Longrightarrow> canonical fs (path @ cs) \<Longrightarrow> n < length cs \<Longrightarrow>
   node_at fs (path @ take n cs) = Some Dir"
proof (induction cs arbitrary: path n)
  case (Cons c cs)
  have "plain_name c" using Cons.prems(2) by (simp add: canonical_def)
  moreover have "link_target fs (path @ [c]) = None"
    using Cons.prems(2) by (auto simp: canonical_def dest!: spec [of _ "Suc (length path)"])
  ultimately have "node_at fs path = Some Dir" "traverse fs active (path @ [c]) cs = Inr q"
    using Cons.prems(1) by (auto simp: plain_name_def split: if_splits)
  then show ?case using Cons.IH [of "path @ [c]" "n - 1"] Cons.prems(2,3) by (cases n) simp_all
qed simp

lemma read_bytes_above: "canonical fs p \<Longrightarrow> read_bytes fs p = Inr bs \<Longrightarrow> above fs p"
  using traverse_above [of fs "[]" "[]" p] by (auto simp: read_bytes_iff locate_def above_def)

text \<open>Writing to a path that could be read: the new bytes are read back, and no path moves.\<close>

lemma overwrite:
  assumes "read_bytes fs p = Inr old" "write_file fs p bs = Inr fs'"
  shows "same_shape fs fs' \<and> read_bytes fs' p = Inr bs"
proof -
  from assms(1) obtain q where q: "locate fs p = Inr q" "node_at fs q = Some (File old)"
    by (auto simp: read_bytes_iff)
  then have ne: "q \<noteq> []" by auto
  from q assms(2) have fs': "fs' = put_file q bs fs" by (simp add: write_file_def)
  have shape: "same_shape fs fs'" unfolding fs' by (rule same_shape_put_file [OF q(2) ne])
  moreover have "locate fs' p = Inr q" using locate_cong [OF shape] q(1) by simp
  ultimately show ?thesis using ne by (simp add: read_bytes_iff fs' node_at_put_file)
qed

definition is_dir :: "fs \<Rightarrow> path \<Rightarrow> bool" where
  "is_dir fs p = (case locate fs p of Inl _ \<Rightarrow> False | Inr q \<Rightarrow> node_at fs q = Some Dir)"

text \<open>
  \<open>root.rglob("*")\<close>: everything below a directory, which may be named through links,
  relative to it; links below it are not descended into.
\<close>

definition below :: "fs \<Rightarrow> path \<Rightarrow> path list" where
  "below fs root =
     map (drop (length root)) (filter (\<lambda>p. relative_to p root \<and> p \<noteq> root) (remdups (map fst fs)))"

definition rglob :: "fs \<Rightarrow> path \<Rightarrow> path list" where
  "rglob fs root =
     (case locate fs root of
        Inl _ \<Rightarrow> []
      | Inr d \<Rightarrow> if node_at fs d = Some Dir then below fs d else [])"

lemma set_below: "set (below fs root) = {rest. rest \<noteq> [] \<and> root @ rest \<in> fst ` set fs}"
proof -
  have "drop (length root) ` {p \<in> fst ` set fs. relative_to p root \<and> p \<noteq> root}
      = {rest. rest \<noteq> [] \<and> root @ rest \<in> fst ` set fs}" (is "?l = ?r")
  proof
    show "?l \<subseteq> ?r" by (auto simp: relative_to_iff intro: rev_image_eqI)
    show "?r \<subseteq> ?l"
    proof
      fix rest assume "rest \<in> ?r"
      then have "root @ rest \<in> {p \<in> fst ` set fs. relative_to p root \<and> p \<noteq> root}"
        by (simp add: relative_to_def)
      then have "drop (length root) (root @ rest) \<in> ?l" by (rule imageI)
      then show "rest \<in> ?l" by simp
    qed
  qed
  then show ?thesis by (simp add: below_def)
qed

lemma set_rglob:
  "set (rglob fs root) = {rest. \<exists>d. locate fs root = Inr d \<and> node_at fs d = Some Dir
     \<and> rest \<noteq> [] \<and> d @ rest \<in> fst ` set fs}"
  by (cases "locate fs root") (auto simp: rglob_def set_below)

section \<open>Directories\<close>

text \<open>
  \<open>Path.mkdir(parents=True, exist_ok=True)\<close>: one directory for each prefix that
  is missing; a file or a dangling link in the way is an error.
\<close>

definition make_dir :: "fs \<Rightarrow> path \<Rightarrow> fs res" where
  "make_dir fs p =
     (if is_dir fs p then Inr fs
      else
        ebind (locate fs (butlast p)) (\<lambda>d.
        if node_at fs d \<noteq> Some Dir then Inl FileNotFoundError
        else if p = [] \<or> last p = lit ''..'' \<or> node_at fs (d @ [last p]) \<noteq> None then Inl FileExistsError
        else Inr ((d @ [last p], Dir) # fs)))"

definition make_dirs :: "fs \<Rightarrow> path \<Rightarrow> fs res" where
  "make_dirs fs p = efold (\<lambda>fs n. make_dir fs (take n p)) fs [1..<Suc (length p)]"

text \<open>Making directories changes no node that is there, and no link.\<close>

definition extends :: "fs \<Rightarrow> fs \<Rightarrow> bool" where
  "extends fs fs' \<longleftrightarrow>
     (\<forall>q. node_at fs' q = node_at fs q \<or> node_at fs q = None \<and> node_at fs' q = Some Dir)"

lemma extends_refl [simp]: "extends fs fs"
  by (simp add: extends_def)

lemma extends_trans: "extends fs fs' \<Longrightarrow> extends fs' fs'' \<Longrightarrow> extends fs fs''"
  unfolding extends_def by metis

lemma extends_node: "extends fs fs' \<Longrightarrow> node_at fs q = Some n \<Longrightarrow> node_at fs' q = Some n"
  unfolding extends_def by (metis option.distinct(1))

lemma make_dir_extends: "make_dir fs p = Inr fs' \<Longrightarrow> extends fs fs'"
  by (auto simp: make_dir_def res_dest extends_def node_at_def split: if_splits)

lemma make_dirs_extends: "make_dirs fs p = Inr fs' \<Longrightarrow> extends fs fs'"
  unfolding make_dirs_def
  by (rule efold_invariant [where I = "extends fs"]) (auto dest: make_dir_extends intro: extends_trans)

lemma make_dir_Dir [simp]: "locate fs p = Inr q \<Longrightarrow> node_at fs q = Some Dir \<Longrightarrow> make_dir fs p = Inr fs"
  by (simp add: make_dir_def is_dir_def)

text \<open>A directory that is already there stays as it is.\<close>

lemma make_dirs_present:
  assumes "canonical fs p" "\<forall>n. 0 < n \<and> n \<le> length p \<longrightarrow> node_at fs (take n p) = Some Dir"
  shows "make_dirs fs p = Inr fs"
proof -
  have up: "above fs (take n p)" if "n \<le> length p" for n
    using assms that by (intro directories_canonical(2)) (auto simp: canonical_def list_all_iff dest: in_set_takeD)
  have step: "make_dir fs (take n p) = Inr fs" if "0 < n" "n \<le> length p" for n
    using that assms up by (simp add: canonical_take locate_plain)
  have "efold (\<lambda>fs n. make_dir fs (take n p)) fs ns = Inr fs" if "\<forall>n\<in>set ns. 0 < n \<and> n \<le> length p" for ns
    using that by (induction ns) (simp_all add: step)
  from this [of "[1..<Suc (length p)]"] show ?thesis unfolding make_dirs_def by (simp del: upt_Suc)
qed

text \<open>Making the directories of a canonical path.\<close>

lemma canonical_nodes:
  assumes "canonical fs p"
    and "\<And>n t. 0 < n \<Longrightarrow> n \<le> length p \<Longrightarrow> node_at fs' (take n p) = Some (Link t) \<Longrightarrow> node_at fs (take n p) = Some (Link t)"
  shows "canonical fs' p"
  unfolding canonical_def
proof (intro conjI allI impI)
  show "list_all plain_name p" using assms(1) by (simp add: canonical_def)
  fix n assume n: "n \<le> length p"
  show "link_target fs' (take n p) = None \<or> n = 0"
  proof (rule ccontr)
    assume "\<not> ?thesis"
    then obtain t where "n \<noteq> 0" "map_of fs' (take n p) = Some (Link t)"
      by (auto simp: link_target_def split: option.splits node.splits)
    moreover from this n have "node_at fs' (take n p) = Some (Link t)" by (cases p) (auto simp: node_at_def)
    ultimately have "node_at fs (take n p) = Some (Link t)" using assms(2) n by simp
    then have "link_target fs (take n p) = Some t"
      by (auto simp: node_at_def link_target_def split: if_splits)
    with assms(1) n \<open>n \<noteq> 0\<close> show False by (auto simp: canonical_def)
  qed
qed

lemma is_dir_canonical: "canonical fs p \<Longrightarrow> is_dir fs p \<Longrightarrow> node_at fs p = Some Dir"
  using locate_resolve [of fs p] resolve_plain [of fs p] by (auto simp: is_dir_def split: sum.splits)

lemma make_dir_ok:
  assumes "canonical fs p" "above fs p" "p \<noteq> []" "node_at fs p = None \<or> node_at fs p = Some Dir"
  shows "\<exists>fs'. make_dir fs p = Inr fs'"
proof -
  have p: "p = butlast p @ [last p]" using assms(3) by simp
  then have up: "above fs (butlast p)" "node_at fs (butlast p) = Some Dir"
    using assms(2) above_snoc by metis+
  have "locate fs (butlast p) = Inr (butlast p)"
    using canonical_butlast [OF assms(1)] up(1) by (rule locate_plain)
  moreover have "last p \<noteq> lit ''..''"
    using assms(1,3) by (auto simp: canonical_def plain_name_def list_all_iff)
  moreover have "is_dir fs p" if "node_at fs p = Some Dir"
    using that assms(1,2) by (simp add: is_dir_def locate_plain)
  ultimately show ?thesis using assms(3,4) up p by (auto simp: make_dir_def)
qed

lemma make_dir_canonical:
  assumes "canonical fs p" "make_dir fs p = Inr fs'"
  shows "(\<forall>r. r \<noteq> p \<longrightarrow> node_at fs' r = node_at fs r) \<and> (node_at fs p = None \<or> fs' = fs) \<and> node_at fs' p = Some Dir"
proof (cases "is_dir fs p")
  case True
  then have "node_at fs p = Some Dir" by (rule is_dir_canonical [OF assms(1)])
  with True assms(2) show ?thesis by (simp add: make_dir_def)
next
  case False
  with assms(2) obtain d where d: "locate fs (butlast p) = Inr d" "p \<noteq> []" "node_at fs (d @ [last p]) = None"
    "fs' = (d @ [last p], Dir) # fs"
    by (auto simp: make_dir_def res_dest split: if_splits)
  have "d = butlast p"
    using locate_resolve [OF d(1)] resolve_plain [OF canonical_butlast [OF assms(1)]] by simp
  with d show ?thesis by (simp add: node_at_def)
qed

text \<open>The directories made so far are there, and no link has come in the way.\<close>

lemma making_dirs:
  assumes "canonical fs p" "k \<le> length p" "efold (\<lambda>fs n. make_dir fs (take n p)) fs [1..<Suc k] = Inr t"
  shows "canonical t p \<and> (\<forall>n. 0 < n \<and> n \<le> k \<longrightarrow> node_at t (take n p) = Some Dir)"
  using assms(2,3)
proof (induction k arbitrary: t)
  case 0
  then show ?case using assms(1) by simp
next
  case (Suc k)
  have upt: "[1..<Suc (Suc k)] = [1..<Suc k] @ [Suc k]" by simp
  from Suc.prems(2) obtain s where s: "efold (\<lambda>fs n. make_dir fs (take n p)) fs [1..<Suc k] = Inr s"
    "make_dir s (take (Suc k) p) = Inr t"
    unfolding upt efold_append by (auto simp: res_dest simp del: upt_Suc)
  have I: "canonical s p" "\<And>n. 0 < n \<Longrightarrow> n \<le> k \<Longrightarrow> node_at s (take n p) = Some Dir"
    using Suc.IH [OF _ s(1)] Suc.prems(1) by auto
  note made = make_dir_canonical [OF canonical_take [OF I(1)] s(2)]
  have "canonical t p"
    by (rule canonical_nodes [OF I(1)]) (metis made node.distinct(5) option.inject)
  moreover have "node_at t (take n p) = Some Dir" if "0 < n" "n \<le> Suc k" for n
    using that made I(2) by (metis le_Suc_eq)
  ultimately show ?case by blast
qed

text \<open>Where every directory on the way is there or missing, all of them can be made.\<close>

lemma make_dirs_ok:
  assumes "canonical fs p"
    and "\<And>n. 0 < n \<Longrightarrow> n \<le> length p \<Longrightarrow> node_at fs (take n p) \<in> {None, Some Dir}"
  shows "\<exists>fs'. make_dirs fs p = Inr fs'"
proof -
  have "\<exists>fs'. efold (\<lambda>fs n. make_dir fs (take n p)) fs [1..<Suc k] = Inr fs'" if "k \<le> length p" for k
    using that
  proof (induction k)
    case 0
    show ?case by simp
  next
    case (Suc k)
    then obtain fs1 where fs1: "efold (\<lambda>fs n. make_dir fs (take n p)) fs [1..<Suc k] = Inr fs1" by auto
    have ext: "extends fs fs1"
      using fs1 by (rule efold_invariant [where I = "extends fs"]) (auto dest: make_dir_extends intro: extends_trans)
    then have can: "canonical fs1 p"
      by (intro canonical_nodes [OF assms(1)]) (metis extends_def node.distinct(5) option.inject)
    have nodes: "node_at fs1 (take (Suc k) p) \<in> {None, Some Dir}"
      using ext assms(2) [of "Suc k"] Suc.prems unfolding extends_def by (metis Suc_le_eq insert_iff zero_less_Suc)
    have upt: "[1..<Suc (Suc k)] = [1..<Suc k] @ [Suc k]" by simp
    have take_k: "take (Suc k) p \<noteq> []" using Suc.prems by (cases p) auto
    have made: "node_at fs1 (take n p) = Some Dir" if "0 < n" "n \<le> k" for n
      using making_dirs [OF assms(1) _ fs1] Suc.prems that by simp
    have "\<exists>fs'. make_dir fs1 (take (Suc k) p) = Inr fs'"
    proof (rule make_dir_ok)
      show "canonical fs1 (take (Suc k) p)" by (rule canonical_take [OF can])
      show "above fs1 (take (Suc k) p)"
        unfolding above_def
      proof (intro allI impI)
        fix n assume "n < length (take (Suc k) p)"
        then show "node_at fs1 (take n (take (Suc k) p)) = Some Dir"
          using made by (cases n) auto
      qed
    qed (use nodes take_k in auto)
    with fs1 show ?case unfolding upt efold_append by (auto simp del: upt_Suc)
  qed
  then show ?thesis unfolding make_dirs_def by simp
qed

end
