(* ===== verification/PyFloat.thy ===== *)
theory PyFloat
  imports PyText
begin

text \<open>
  Python floats as IEEE 754 binary64 values, for the JSON documents the scripts
  read and write: reading a decimal literal (correctly rounded, ties to even) and
  \<open>repr\<close> (the shortest decimal that reads back). A finite value is a sign, a
  mantissa and a binary exponent in canonical form: the mantissa has 53 bits, or
  the exponent is the least one.
\<close>

datatype pyfloat =
    FNan
  | FInf bool
  | FFin bool nat int

section \<open>Reading a decimal\<close>

fun bits :: "nat \<Rightarrow> nat" where
  "bits n = (if n = 0 then 0 else Suc (bits (n div 2)))"

declare bits.simps [simp del]

text \<open>\<open>num / den * base ^ e\<close> as a fraction of naturals.\<close>

definition scale :: "nat \<Rightarrow> nat \<times> nat \<Rightarrow> int \<Rightarrow> nat \<times> nat" where
  "scale base nd e =
     (if 0 \<le> e then (fst nd * base ^ nat e, snd nd) else (fst nd, snd nd * base ^ nat (- e)))"

definition round_half_even :: "nat \<times> nat \<Rightarrow> nat" where
  "round_half_even nd =
     (let q = fst nd div snd nd; r = fst nd mod snd nd in
      if snd nd < 2 * r \<or> (2 * r = snd nd \<and> odd q) then q + 1 else q)"

text \<open>The nearest double to a positive fraction, \<open>None\<close> when it overflows.\<close>

definition to_binary64 :: "nat \<times> nat \<Rightarrow> (nat \<times> int) option" where
  "to_binary64 nd =
     (let l = int (bits (fst nd)) - int (bits (snd nd));
          fl = (case scale 2 nd (- l) of (a, b) \<Rightarrow> if b \<le> a then l else l - 1);
          e = max (fl - 52) (- 1074);
          m = round_half_even (scale 2 nd (- e));
          (m', e') = (if m = 2 ^ 53 then (2 ^ 52, e + 1) else (m, e))
      in if 971 < e' then None else Some (m', e'))"

definition float_of_decimal :: "bool \<Rightarrow> nat \<Rightarrow> int \<Rightarrow> pyfloat" where
  "float_of_decimal neg d e =
     (if d = 0 then FFin neg 0 (- 1074)
      else (case to_binary64 (scale 10 (d, 1) e) of
              None \<Rightarrow> FInf neg
            | Some (m, b) \<Rightarrow> if m = 0 then FFin neg 0 (- 1074) else FFin neg m b))"

section \<open>repr\<close>

text \<open>The \<open>k\<close> with \<open>10 ^ (k - 1) \<le> num / den < 10 ^ k\<close>.\<close>

definition decimal_point :: "nat \<times> nat \<Rightarrow> int" where
  "decimal_point nd =
     (if snd nd \<le> fst nd then int (length (dec_nat (fst nd div snd nd)))
      else 1 - int (length (dec_nat ((snd nd - 1) div fst nd))))"

definition candidates :: "nat \<times> nat \<Rightarrow> int \<Rightarrow> nat \<Rightarrow> (nat \<times> int) list" where
  "candidates nd k n =
     (let s = scale 10 nd (int n - k); q = fst s div snd s; r = fst s mod snd s in
      if 2 * r \<le> snd s then [(q, k - int n), (q + 1, k - int n)]
      else [(q + 1, k - int n), (q, k - int n)])"

definition shortest_decimal :: "nat \<Rightarrow> int \<Rightarrow> nat \<times> int" where
  "shortest_decimal m e =
     (let nd = scale 2 (m, 1) e; k = decimal_point nd;
          cs = concat (map (candidates nd k) [1..<18])
      in case find (\<lambda>(d, x). float_of_decimal False d x = FFin False m e) cs of
           Some c \<Rightarrow> c
         | None \<Rightarrow> hd (candidates nd k 17))"

definition two_digits :: "nat \<Rightarrow> str" where
  "two_digits n = (if n < 10 then 48 # dec_nat n else dec_nat n)"

text \<open>The layout of \<open>float.__repr__\<close>: positional between \<open>1e-4\<close> and \<open>1e16\<close>, scientific outside.\<close>

definition layout_decimal :: "str \<Rightarrow> int \<Rightarrow> str" where
  "layout_decimal ds k =
     (let n = int (length ds) in
      if - 4 < k \<and> k \<le> 16 then
        (if k \<le> 0 then lit ''0.'' @ replicate (nat (- k)) 48 @ ds
         else if n \<le> k then ds @ replicate (nat (k - n)) 48 @ lit ''.0''
         else take (nat k) ds @ lit ''.'' @ drop (nat k) ds)
      else
        take 1 ds @ (if n = 1 then [] else lit ''.'' @ drop 1 ds)
        @ lit ''e'' @ (if k - 1 < 0 then lit ''-'' else lit ''+'') @ two_digits (nat \<bar>k - 1\<bar>))"

fun repr_float :: "pyfloat \<Rightarrow> str" where
  "repr_float FNan = lit ''NaN''"
| "repr_float (FInf neg) = (if neg then lit ''-Infinity'' else lit ''Infinity'')"
| "repr_float (FFin neg m e) =
     (if neg then lit ''-'' else []) @
     (if m = 0 then lit ''0.0''
      else (case shortest_decimal m e of
              (d, x) \<Rightarrow>
                (let full = dec_nat d; k = int (length full) + x;
                     ds = rev (dropWhile (\<lambda>c. c = 48) (rev full))
                 in layout_decimal ds k)))"

section \<open>Values\<close>

text \<open>What the scripts ask of a float: whether it equals zero, and \<open>int(x)\<close>.\<close>

fun float_is_zero :: "pyfloat \<Rightarrow> bool" where
  "float_is_zero (FFin neg m e) = (m = 0)"
| "float_is_zero _ = False"

fun int_of_float :: "pyfloat \<Rightarrow> int res" where
  "int_of_float FNan = Inl (ValueError (lit ''cannot convert float NaN to integer''))"
| "int_of_float (FInf neg) = Inl OverflowError"
| "int_of_float (FFin neg m e) =
     (case scale 2 (m, 1) e of (a, b) \<Rightarrow> Inr (if neg then - int (a div b) else int (a div b)))"

end
