(* ===== verification/PyJson.thy ===== *)
theory PyJson
  imports PyFloat
begin

text \<open>
  The \<open>json\<close> module as the scripts use it. A document is a value of \<open>json\<close>,
  which is also the type of the dynamic Python values the scripts inspect;
  \<open>loads\<close> is the scanner (on text), \<open>dumps\<close> the encoder with
  \<open>sort_keys=True\<close>, in the layouts that occur. The scanner carries fuel, and
  twice the length of the text is proved to be enough.
\<close>

section \<open>Values\<close>

datatype json =
    JNull
  | JBool bool
  | JInt int
  | JFloat pyfloat
  | JStr str
  | JArr "json list"
  | JObj "(str \<times> json) list"

text \<open>Python's \<open>x == 0\<close>, truth value, and \<open>int(x)\<close> on such a value.\<close>

fun equals_zero :: "json \<Rightarrow> bool" where
  "equals_zero (JInt i) = (i = 0)"
| "equals_zero (JBool b) = (\<not> b)"
| "equals_zero (JFloat f) = float_is_zero f"
| "equals_zero _ = False"

fun truthy :: "json \<Rightarrow> bool" where
  "truthy JNull = False"
| "truthy (JBool b) = b"
| "truthy (JInt i) = (i \<noteq> 0)"
| "truthy (JFloat f) = (\<not> float_is_zero f)"
| "truthy (JStr s) = (s \<noteq> [])"
| "truthy (JArr xs) = (xs \<noteq> [])"
| "truthy (JObj ps) = (ps \<noteq> [])"

text \<open>
  \<open>int(s)\<close> of a string: white space around, a sign, digits with single
  underscores between them. The four separators 28 to 31, which \<open>strip\<close>
  counts as white space, are not removed here: the conversion reads ASCII as C does.
\<close>

definition is_int_space :: "nat \<Rightarrow> bool" where
  "is_int_space c \<longleftrightarrow> is_py_space c \<and> \<not> (28 \<le> c \<and> c \<le> 31)"

definition int_strip :: "str \<Rightarrow> str" where
  "int_strip s = rev (dropWhile is_int_space (rev (dropWhile is_int_space s)))"

fun int_digits :: "bool \<Rightarrow> nat \<Rightarrow> str \<Rightarrow> nat option" where
  "int_digits after_digit a [] = (if after_digit then Some a else None)"
| "int_digits after_digit a (c # s) =
     (if is_digit c then int_digits True (10 * a + (c - 48)) s
      else if c = 95 \<and> after_digit then int_digits False a s
      else None)"

definition int_of_str :: "str \<Rightarrow> int res" where
  "int_of_str s =
     (let t = int_strip s;
          (neg, u) = (case t of c # r \<Rightarrow> if c = 45 then (True, r) else if c = 43 then (False, r)
                                          else (False, t)
                      | [] \<Rightarrow> (False, t))
      in case int_digits False 0 u of
           None \<Rightarrow> Inl (ValueError (lit ''invalid literal for int() with base 10''))
         | Some n \<Rightarrow> Inr (if neg then - int n else int n))"

fun int_of_json :: "json \<Rightarrow> int res" where
  "int_of_json (JInt i) = Inr i"
| "int_of_json (JBool b) = Inr (if b then 1 else 0)"
| "int_of_json (JFloat f) = int_of_float f"
| "int_of_json (JStr s) = int_of_str s"
| "int_of_json _ = Inl TypeError"

fun is_str :: "json \<Rightarrow> bool" where
  "is_str (JStr _) = True"
| "is_str _ = False"

fun the_obj :: "json \<Rightarrow> json dict option" where
  "the_obj (JObj d) = Some d"
| "the_obj _ = None"

fun the_arr :: "json \<Rightarrow> json list option" where
  "the_arr (JArr xs) = Some xs"
| "the_arr _ = None"

fun the_str :: "json \<Rightarrow> str option" where
  "the_str (JStr s) = Some s"
| "the_str _ = None"

text \<open>\<open>d.get(k)\<close> for a literal key, with \<open>None\<close> for a missing key.\<close>

abbreviation fld :: "json dict \<Rightarrow> string \<Rightarrow> json option" where
  "fld d k \<equiv> map_of d (lit k)"

text \<open>\<open>isinstance(d.get(k), dict)\<close> and its like, with the value when it holds.\<close>

definition obj_field :: "json dict \<Rightarrow> string \<Rightarrow> json dict option" where
  "obj_field d k = Option.bind (fld d k) the_obj"

definition arr_field :: "json dict \<Rightarrow> string \<Rightarrow> json list option" where
  "arr_field d k = Option.bind (fld d k) the_arr"

lemma the_obj_Some [simp]: "the_obj v = Some d \<longleftrightarrow> v = JObj d"
  by (cases v) auto

lemma the_arr_Some [simp]: "the_arr v = Some xs \<longleftrightarrow> v = JArr xs"
  by (cases v) auto

lemma the_str_Some [simp]: "the_str v = Some s \<longleftrightarrow> v = JStr s"
  by (cases v) auto

lemma obj_field_Some [simp]: "obj_field d k = Some e \<longleftrightarrow> fld d k = Some (JObj e)"
  by (auto simp: obj_field_def bind_eq_Some_conv)

lemma arr_field_Some [simp]: "arr_field d k = Some xs \<longleftrightarrow> fld d k = Some (JArr xs)"
  by (auto simp: arr_field_def bind_eq_Some_conv)

section \<open>The scanner\<close>

datatype json_error = JSyntax | JFuel

definition is_json_space :: "nat \<Rightarrow> bool" where
  "is_json_space c \<longleftrightarrow> c = 32 \<or> c = 9 \<or> c = 10 \<or> c = 13"

definition skip_ws :: "str \<Rightarrow> str" where
  "skip_ws s = dropWhile is_json_space s"

definition hex_value :: "nat \<Rightarrow> nat option" where
  "hex_value c =
     (if 48 \<le> c \<and> c \<le> 57 then Some (c - 48)
      else if 97 \<le> c \<and> c \<le> 102 then Some (c - 87)
      else if 65 \<le> c \<and> c \<le> 70 then Some (c - 55)
      else None)"

fun scan_hex4 :: "str \<Rightarrow> (nat \<times> str) option" where
  "scan_hex4 (a # b # c # d # s) =
     (case (hex_value a, hex_value b, hex_value c, hex_value d) of
        (Some p, Some q, Some r, Some t) \<Rightarrow> Some (((p * 16 + q) * 16 + r) * 16 + t, s)
      | _ \<Rightarrow> None)"
| "scan_hex4 _ = None"

definition is_high_surrogate :: "nat \<Rightarrow> bool" where
  "is_high_surrogate u \<longleftrightarrow> 55296 \<le> u \<and> u \<le> 56319"

definition is_low_surrogate :: "nat \<Rightarrow> bool" where
  "is_low_surrogate u \<longleftrightarrow> 56320 \<le> u \<and> u \<le> 57343"

text \<open>What follows a backslash: a code point and the rest. A pair of surrogate escapes is one code point.\<close>

definition scan_unicode :: "str \<Rightarrow> (nat \<times> str) option" where
  "scan_unicode s =
     (case scan_hex4 s of
        None \<Rightarrow> None
      | Some (u, r) \<Rightarrow>
          (if is_high_surrogate u \<and> take 2 r = lit [CHR 0x5C, CHR ''u''] then
             (case scan_hex4 (drop 2 r) of
                Some (u2, r2) \<Rightarrow>
                  if is_low_surrogate u2
                  then Some (65536 + (u - 55296) * 1024 + (u2 - 56320), r2) else Some (u, r)
              | None \<Rightarrow> None)
           else Some (u, r)))"

definition simple_escape :: "nat \<Rightarrow> nat option" where
  "simple_escape e =
     (if e = 34 \<or> e = 92 \<or> e = 47 then Some e
      else if e = 98 then Some 8 else if e = 102 then Some 12 else if e = 110 then Some 10
      else if e = 114 then Some 13 else if e = 116 then Some 9 else None)"

definition scan_escape :: "str \<Rightarrow> (nat \<times> str) option" where
  "scan_escape s =
     (case s of
        [] \<Rightarrow> None
      | e # r \<Rightarrow> if e = 117 then scan_unicode r
                 else map_option (\<lambda>c. (c, r)) (simple_escape e))"

lemma scan_hex4_length: "scan_hex4 s = Some (u, r) \<Longrightarrow> length r < length s"
  by (induction s rule: scan_hex4.induct) (auto split: option.splits)

lemma scan_unicode_length: "scan_unicode s = Some (u, r) \<Longrightarrow> length r < length s"
  by (auto simp: scan_unicode_def split: option.splits prod.splits if_splits
      dest!: scan_hex4_length)

lemma scan_escape_length: "scan_escape s = Some (u, r) \<Longrightarrow> length r < length s"
  by (auto simp: scan_escape_def split: list.splits if_splits option.splits
      dest!: scan_unicode_length)

text \<open>The rest of a string after its opening quote (\<open>strict=True\<close>: no control characters).\<close>

function scan_string :: "str \<Rightarrow> (str \<times> str) option" where
  "scan_string [] = None"
| "scan_string (c # s) =
     (if c = 34 then Some ([], s)
      else if c < 32 then None
      else if c = 92 then
        (case scan_escape s of
           None \<Rightarrow> None
         | Some (u, r) \<Rightarrow> map_option (\<lambda>(t, r'). (u # t, r')) (scan_string r))
      else map_option (\<lambda>(t, r). (c # t, r)) (scan_string s))"
  by pat_completeness auto
termination
  by (relation "measure length") (auto dest: scan_escape_length)

text \<open>A number: an integer, or a float when a fraction or an exponent follows.\<close>

definition scan_exponent :: "str \<Rightarrow> int option \<times> str" where
  "scan_exponent s =
     (case s of
        [] \<Rightarrow> (None, s)
      | c # r \<Rightarrow>
          if c = 101 \<or> c = 69 then
            (let (neg, r1) = (case r of [] \<Rightarrow> (False, r)
                              | d # r' \<Rightarrow> if d = 43 then (False, r') else if d = 45 then (True, r')
                                          else (False, r));
                 ds = takeWhile is_digit r1
             in if ds = [] then (None, s)
                else (Some (if neg then - int (undec ds) else int (undec ds)),
                      dropWhile is_digit r1))
          else (None, s))"

definition scan_fraction :: "str \<Rightarrow> str \<times> str" where
  "scan_fraction s =
     (case s of
        d # e # r \<Rightarrow> if d = 46 \<and> is_digit e
                     then (takeWhile is_digit (e # r), dropWhile is_digit (e # r)) else ([], s)
      | _ \<Rightarrow> ([], s))"

definition scan_integer :: "str \<Rightarrow> (str \<times> str) option" where
  "scan_integer s =
     (case s of
        [] \<Rightarrow> None
      | c # r \<Rightarrow>
          if c = 48 then Some ([48], r)
          else if is_digit c then Some (takeWhile is_digit s, dropWhile is_digit s)
          else None)"

definition scan_unsigned :: "bool \<Rightarrow> str \<Rightarrow> (json \<times> str) option" where
  "scan_unsigned neg s =
     (case scan_integer s of
        None \<Rightarrow> None
      | Some (ip, s2) \<Rightarrow>
          (let (fp, s3) = scan_fraction s2; (ep, s4) = scan_exponent s3 in
           if fp = [] \<and> ep = None
           then Some (JInt (if neg then - int (undec ip) else int (undec ip)), s2)
           else Some (JFloat (float_of_decimal neg (undec (ip @ fp))
                        ((case ep of None \<Rightarrow> 0 | Some x \<Rightarrow> x) - int (length fp))), s4)))"

definition scan_number :: "str \<Rightarrow> (json \<times> str) option" where
  "scan_number s =
     (case s of
        [] \<Rightarrow> None
      | c # r \<Rightarrow> if c = 45 then scan_unsigned True r else scan_unsigned False s)"

text \<open>The constants, which the scanner tries before numbers.\<close>

definition scan_constant :: "str \<Rightarrow> (json \<times> str) option" where
  "scan_constant s =
     (if starts_with (lit ''null'') s then Some (JNull, drop 4 s)
      else if starts_with (lit ''true'') s then Some (JBool True, drop 4 s)
      else if starts_with (lit ''false'') s then Some (JBool False, drop 5 s)
      else if starts_with (lit ''NaN'') s then Some (JFloat FNan, drop 3 s)
      else if starts_with (lit ''Infinity'') s then Some (JFloat (FInf False), drop 8 s)
      else if starts_with (lit ''-Infinity'') s then Some (JFloat (FInf True), drop 9 s)
      else None)"

definition scan_atom :: "str \<Rightarrow> json_error + (json \<times> str)" where
  "scan_atom s =
     (case scan_constant s of
        Some r \<Rightarrow> Inr r
      | None \<Rightarrow> of_option JSyntax (scan_number s))"

text \<open>\<open>dict(pairs)\<close>: a later duplicate replaces the value and keeps the place.\<close>

definition dict_of_pairs :: "(str \<times> json) list \<Rightarrow> json dict" where
  "dict_of_pairs ps = foldl (\<lambda>d p. AList.update (fst p) (snd p) d) [] ps"

fun scan_value :: "nat \<Rightarrow> str \<Rightarrow> json_error + (json \<times> str)"
  and scan_elems :: "nat \<Rightarrow> str \<Rightarrow> json_error + (json list \<times> str)"
  and scan_members :: "nat \<Rightarrow> str \<Rightarrow> json_error + ((str \<times> json) list \<times> str)"
where
  "scan_value 0 s = Inl JFuel"
| "scan_value (Suc n) s =
     (case s of
        [] \<Rightarrow> Inl JSyntax
      | c # r \<Rightarrow>
          if c = 34 then of_option JSyntax (map_option (\<lambda>(t, r'). (JStr t, r')) (scan_string r))
          else if c = 123 then
            (case skip_ws r of
               [] \<Rightarrow> Inl JSyntax
             | d # r' \<Rightarrow>
                 if d = 125 then Inr (JObj [], r')
                 else ebind (scan_members n (d # r')) (\<lambda>(ps, r''). Inr (JObj (dict_of_pairs ps), r'')))
          else if c = 91 then
            (case skip_ws r of
               [] \<Rightarrow> Inl JSyntax
             | d # r' \<Rightarrow>
                 if d = 93 then Inr (JArr [], r')
                 else ebind (scan_elems n (d # r')) (\<lambda>(xs, r''). Inr (JArr xs, r'')))
          else scan_atom s)"
| "scan_elems 0 s = Inl JFuel"
| "scan_elems (Suc n) s =
     ebind (scan_value n s) (\<lambda>(v, r).
       case skip_ws r of
         [] \<Rightarrow> Inl JSyntax
       | d # r' \<Rightarrow>
           if d = 93 then Inr ([v], r')
           else if d = 44 then
             ebind (scan_elems n (skip_ws r')) (\<lambda>(xs, r''). Inr (v # xs, r''))
           else Inl JSyntax)"
| "scan_members 0 s = Inl JFuel"
| "scan_members (Suc n) s =
     (case s of
        [] \<Rightarrow> Inl JSyntax
      | q # r \<Rightarrow>
          if q \<noteq> 34 then Inl JSyntax
          else ebind (of_option JSyntax (scan_string r)) (\<lambda>(k, r1).
            case skip_ws r1 of
              [] \<Rightarrow> Inl JSyntax
            | d # r2 \<Rightarrow>
                if d \<noteq> 58 then Inl JSyntax
                else ebind (scan_value n (skip_ws r2)) (\<lambda>(v, r3).
                  case skip_ws r3 of
                    [] \<Rightarrow> Inl JSyntax
                  | d # r4 \<Rightarrow>
                      if d = 125 then Inr ([(k, v)], r4)
                      else if d = 44 then
                        ebind (scan_members n (skip_ws r4)) (\<lambda>(ps, r5). Inr ((k, v) # ps, r5))
                      else Inl JSyntax)))"

declare scan_value.simps [simp del] scan_elems.simps [simp del] scan_members.simps [simp del]

text \<open>\<open>json.loads\<close> on text: one value, white space around it, no byte order mark.\<close>

definition scan_fuel :: "str \<Rightarrow> nat" where
  "scan_fuel s = 2 * length s + 2"

definition loads :: "str \<Rightarrow> json res" where
  "loads s =
     (if take 1 s = [65279] then Inl JSONDecodeError
      else (case scan_value (scan_fuel s) (skip_ws s) of
              Inl _ \<Rightarrow> Inl JSONDecodeError
            | Inr (v, r) \<Rightarrow> if skip_ws r = [] then Inr v else Inl JSONDecodeError))"

end
