(* ===== verification/JsonScan.thy ===== *)
theory JsonScan
  imports PyJson
begin

text \<open>
  Facts about the JSON scanner itself: every scanning function consumes input,
  the fuel of \<open>loads\<close> is enough, and fuel beyond what is enough changes nothing.
\<close>

section \<open>Consumption\<close>

lemma skip_ws_length: "length (skip_ws s) \<le> length s"
  by (simp add: skip_ws_def length_dropWhile_le)

lemma skip_ws_Cons_length: "skip_ws s = c # r \<Longrightarrow> length r < length s"
  using skip_ws_length [of s] by simp

lemma skip_ws_idem [simp]: "skip_ws (skip_ws s) = skip_ws s"
  by (simp add: skip_ws_def)

lemma skip_ws_space [simp]: "is_json_space c \<Longrightarrow> skip_ws (c # s) = skip_ws s"
  by (simp add: skip_ws_def)

lemma skip_ws_nonspace [simp]: "\<not> is_json_space c \<Longrightarrow> skip_ws (c # s) = c # s"
  by (simp add: skip_ws_def)

lemma skip_ws_Nil [simp]: "skip_ws [] = []"
  by (simp add: skip_ws_def)

lemma scan_string_length: "scan_string s = Some (t, r) \<Longrightarrow> length r < length s"
proof (induction s arbitrary: t r rule: scan_string.induct)
  case 1
  then show ?case by simp
next
  case (2 c s)
  show ?case
  proof (cases "c = 92")
    case True
    with "2.prems" obtain u r1 t1 where e: "scan_escape s = Some (u, r1)"
      and t: "scan_string r1 = Some (t1, r)"
      by (auto split: option.splits)
    from "2.IH"(1) [of "(u, r1)" u r1 t1 r] e t True have "length r < length r1" by simp
    with scan_escape_length [OF e] show ?thesis by simp
  next
    case False
    with "2.prems" "2.IH"(2) show ?thesis by (fastforce split: if_splits)
  qed
qed

lemma scan_fraction_length: "length (snd (scan_fraction s)) \<le> length s"
  by (auto simp: scan_fraction_def length_dropWhile_le le_SucI split: list.splits)

lemma scan_exponent_length: "length (snd (scan_exponent s)) \<le> length s"
  by (auto simp: scan_exponent_def Let_def split: list.splits
      intro: le_trans [OF length_dropWhile_le] le_SucI)

lemma scan_integer_length: "scan_integer s = Some (ip, r) \<Longrightarrow> length r < length s"
proof -
  assume ok: "scan_integer s = Some (ip, r)"
  then obtain c q where s: "s = c # q" by (auto simp: scan_integer_def split: list.splits)
  have "length (dropWhile is_digit q) \<le> length q" by (rule length_dropWhile_le)
  then show ?thesis using ok by (auto simp: s scan_integer_def split: if_splits)
qed

lemma scan_unsigned_length: "scan_unsigned neg s = Some (v, r) \<Longrightarrow> length r < length s"
proof -
  assume ok: "scan_unsigned neg s = Some (v, r)"
  then obtain ip s2 where s2: "scan_integer s = Some (ip, s2)"
    by (auto simp: scan_unsigned_def split: option.splits)
  have "length r \<le> length s2"
    using ok s2 scan_fraction_length [of s2] scan_exponent_length [of "snd (scan_fraction s2)"]
    by (auto simp: scan_unsigned_def split: prod.splits if_splits)
  with scan_integer_length [OF s2] show ?thesis by simp
qed

lemma scan_number_length: "scan_number s = Some (v, r) \<Longrightarrow> length r < length s"
  by (auto simp: scan_number_def split: list.splits if_splits dest!: scan_unsigned_length)

lemma starts_with_drop_length: "starts_with p s \<Longrightarrow> p \<noteq> [] \<Longrightarrow> length (drop (length p) s) < length s"
  by (auto simp: starts_with_iff)

lemma scan_constant_length: "scan_constant s = Some (v, r) \<Longrightarrow> length r < length s"
  using starts_with_drop_length [of "lit ''null''" s] starts_with_drop_length [of "lit ''true''" s]
    starts_with_drop_length [of "lit ''false''" s] starts_with_drop_length [of "lit ''NaN''" s]
    starts_with_drop_length [of "lit ''Infinity''" s] starts_with_drop_length [of "lit ''-Infinity''" s]
  by (simp only: scan_constant_def length_lit list.size lit_eq_Nil split: if_splits) auto

lemma scan_atom_length: "scan_atom s = Inr (v, r) \<Longrightarrow> length r < length s"
  by (auto simp: scan_atom_def of_option_Inr_iff scan_constant_length scan_number_length
      split: option.splits)

text \<open>The steps of a successful scan of elements and of members.\<close>

lemma scan_elems_Suc:
  assumes "scan_elems (Suc n) s = Inr (xs, r)"
  obtains v q c q' where "scan_value n s = Inr (v, q)" "skip_ws q = c # q'"
    "(c = 93 \<and> xs = [v] \<and> r = q')
     \<or> (c = 44 \<and> (\<exists>ys. scan_elems n (skip_ws q') = Inr (ys, r) \<and> xs = v # ys))"
proof -
  from assms obtain v q where v: "scan_value n s = Inr (v, q)"
    by (auto simp: scan_elems.simps ebind_Inr_iff)
  with assms obtain c q' where q: "skip_ws q = c # q'"
    by (auto simp: scan_elems.simps split: list.splits)
  show thesis
    by (rule that [OF v q]) (use assms v q in \<open>auto simp: scan_elems.simps ebind_Inr_iff split: if_splits\<close>)
qed

lemma scan_members_Suc:
  assumes "scan_members (Suc n) s = Inr (ps, r)"
  obtains q k r1 r2 v r3 c r4 where "s = 34 # q" "scan_string q = Some (k, r1)"
    "skip_ws r1 = 58 # r2" "scan_value n (skip_ws r2) = Inr (v, r3)" "skip_ws r3 = c # r4"
    "(c = 125 \<and> ps = [(k, v)] \<and> r = r4)
     \<or> (c = 44 \<and> (\<exists>qs. scan_members n (skip_ws r4) = Inr (qs, r) \<and> ps = (k, v) # qs))"
proof -
  from assms obtain q where s: "s = 34 # q"
    by (auto simp: scan_members.simps split: list.splits if_splits)
  with assms obtain k r1 where k: "scan_string q = Some (k, r1)"
    by (auto simp: scan_members.simps ebind_Inr_iff of_option_Inr_iff)
  with s assms obtain r2 where r2: "skip_ws r1 = 58 # r2"
    by (auto simp: scan_members.simps split: list.splits if_splits)
  with s k assms obtain v r3 where v: "scan_value n (skip_ws r2) = Inr (v, r3)"
    by (auto simp: scan_members.simps ebind_Inr_iff)
  with s k r2 assms obtain c r4 where r3: "skip_ws r3 = c # r4"
    by (auto simp: scan_members.simps split: list.splits)
  show thesis
    by (rule that [OF s k r2 v r3])
      (use assms s k r2 v r3 in \<open>auto simp: scan_members.simps ebind_Inr_iff split: if_splits\<close>)
qed

lemma scan_length:
  "scan_value n s = Inr (v, r) \<Longrightarrow> length r < length s"
  "scan_elems n s = Inr (xs, r) \<Longrightarrow> length r < length s"
  "scan_members n s = Inr (ps, r) \<Longrightarrow> length r < length s"
proof (induction n arbitrary: s v xs ps r)
  case 0
  { case 1 then show ?case by (simp add: scan_value.simps)
  next case 2 then show ?case by (simp add: scan_elems.simps)
  next case 3 then show ?case by (simp add: scan_members.simps) }
next
  case (Suc n)
  { case 1
    then show ?case
      using Suc.IH(2) [of "skip_ws (tl s)"] Suc.IH(3) [of "skip_ws (tl s)"] skip_ws_length [of "tl s"]
      by (auto simp: scan_value.simps of_option_Inr_iff ebind_Inr_iff
          split: list.splits if_splits prod.splits dest!: scan_string_length scan_atom_length)
  next
    case 2
    then show ?case
    proof (rule scan_elems_Suc)
      fix v q c q'
      assume v: "scan_value n s = Inr (v, q)" and q: "skip_ws q = c # q'"
        and *: "(c = 93 \<and> xs = [v] \<and> r = q')
          \<or> (c = 44 \<and> (\<exists>ys. scan_elems n (skip_ws q') = Inr (ys, r) \<and> xs = v # ys))"
      have "length r \<le> length q'"
        using * Suc.IH(2) [of "skip_ws q'"] skip_ws_length [of q'] by fastforce
      with Suc.IH(1) [OF v] skip_ws_Cons_length [OF q] show ?thesis by simp
    qed
  next
    case 3
    then show ?case
    proof (rule scan_members_Suc)
      fix q k r1 r2 v r3 c r4
      assume s: "s = 34 # q" and k: "scan_string q = Some (k, r1)" and r2: "skip_ws r1 = 58 # r2"
        and v: "scan_value n (skip_ws r2) = Inr (v, r3)" and r3: "skip_ws r3 = c # r4"
        and *: "(c = 125 \<and> ps = [(k, v)] \<and> r = r4)
          \<or> (c = 44 \<and> (\<exists>qs. scan_members n (skip_ws r4) = Inr (qs, r) \<and> ps = (k, v) # qs))"
      have "length r \<le> length r4"
        using * Suc.IH(3) [of "skip_ws r4"] skip_ws_length [of r4] by fastforce
      with scan_string_length [OF k] skip_ws_Cons_length [OF r2] Suc.IH(1) [OF v]
        skip_ws_Cons_length [OF r3] skip_ws_length [of r2] s
      show ?thesis by simp
    qed }
qed

section \<open>Fuel\<close>

lemma scan_atom_no_fuel [simp]: "scan_atom s \<noteq> Inl JFuel"
  by (auto simp: scan_atom_def of_option_def split: option.splits)

text \<open>Twice the length of the text, and a little more, is enough.\<close>

lemma scan_fuel_enough:
  "2 * length s + 1 \<le> n \<Longrightarrow> scan_value n s \<noteq> Inl JFuel"
  "2 * length s + 2 \<le> n \<Longrightarrow> scan_elems n s \<noteq> Inl JFuel"
  "2 * length s + 2 \<le> n \<Longrightarrow> scan_members n s \<noteq> Inl JFuel"
proof (induction n arbitrary: s)
  case 0
  { case 1 then show ?case by simp
  next case 2 then show ?case by simp
  next case 3 then show ?case by simp }
next
  case (Suc n)
  { case 1
    show ?case
    proof (cases s)
      case (Cons c r)
      with 1 skip_ws_length [of r] have "2 * length (skip_ws r) + 2 \<le> n" by simp
      with Cons Suc.IH(2,3) [of "skip_ws r"] show ?thesis
        by (auto simp: scan_value.simps ebind_Inl_iff of_option_def split: list.splits option.splits)
    qed (simp add: scan_value.simps)
  next
    case 2
    have v: "scan_value n s \<noteq> Inl JFuel" using 2 by (intro Suc.IH(1)) simp
    have "scan_elems n (skip_ws q') \<noteq> Inl JFuel"
      if "scan_value n s = Inr (v, q)" "skip_ws q = c # q'" for v q c q'
    proof (rule Suc.IH(2))
      show "2 * length (skip_ws q') + 2 \<le> n"
        using 2 scan_length(1) [OF that(1)] skip_ws_Cons_length [OF that(2)] skip_ws_length [of q']
        by simp
    qed
    with v show ?case by (auto simp: scan_elems.simps ebind_Inl_iff split: list.splits if_splits)
  next
    case 3
    have v: "scan_value n (skip_ws r2) \<noteq> Inl JFuel"
      if "s = x # q" "scan_string q = Some (k, r1)" "skip_ws r1 = y # r2" for x q k r1 y r2
      using 3 that scan_string_length [OF that(2)] skip_ws_Cons_length [OF that(3)]
        skip_ws_length [of r2] by (intro Suc.IH(1)) simp
    have m: "scan_members n (skip_ws r4) \<noteq> Inl JFuel"
      if "s = x # q" "scan_string q = Some (k, r1)" "skip_ws r1 = y # r2"
        "scan_value n (skip_ws r2) = Inr (v, r3)" "skip_ws r3 = c # r4" for x q k r1 y r2 v r3 c r4
    proof (rule Suc.IH(3))
      show "2 * length (skip_ws r4) + 2 \<le> n"
        using 3 that(1) scan_string_length [OF that(2)] skip_ws_Cons_length [OF that(3)]
          scan_length(1) [OF that(4)] skip_ws_Cons_length [OF that(5)]
          skip_ws_length [of r2] skip_ws_length [of r4] by simp
    qed
    show ?case
    proof
      assume f: "scan_members (Suc n) s = Inl JFuel"
      then obtain q where s: "s = 34 # q"
        by (auto simp: scan_members.simps split: list.splits if_splits)
      with f obtain k r1 where k: "scan_string q = Some (k, r1)"
        by (auto simp: scan_members.simps ebind_Inl_iff of_option_def split: option.splits)
      with s f obtain r2 where r2: "skip_ws r1 = 58 # r2"
        by (auto simp: scan_members.simps split: list.splits if_splits)
      with s k f v [OF s k r2] obtain w r3 where w: "scan_value n (skip_ws r2) = Inr (w, r3)"
        by (auto simp: scan_members.simps ebind_Inl_iff)
      with s k r2 f obtain c r4 where r3: "skip_ws r3 = c # r4"
        by (auto simp: scan_members.simps split: list.splits)
      from m [OF s k r2 w r3] s k r2 w r3 f show False
        by (auto simp: scan_members.simps ebind_Inl_iff split: if_splits)
    qed }
qed

text \<open>More fuel never changes an outcome that is not exhaustion.\<close>

lemma scan_fuel_Suc:
  "scan_value n s \<noteq> Inl JFuel \<Longrightarrow> scan_value (Suc n) s = scan_value n s"
  "scan_elems n s \<noteq> Inl JFuel \<Longrightarrow> scan_elems (Suc n) s = scan_elems n s"
  "scan_members n s \<noteq> Inl JFuel \<Longrightarrow> scan_members (Suc n) s = scan_members n s"
proof (induction n arbitrary: s)
  case 0
  { case 1 then show ?case by (simp add: scan_value.simps)
  next case 2 then show ?case by (simp add: scan_elems.simps)
  next case 3 then show ?case by (simp add: scan_members.simps) }
next
  case (Suc n)
  { case 1
    then show ?case
      by (subst (1 2) scan_value.simps)
        (auto simp: scan_value.simps(2) [of n] ebind_Inl_iff Suc.IH(2,3) split: list.splits if_splits)
  next
    case 2
    then have "scan_value n s \<noteq> Inl JFuel" by (auto simp: scan_elems.simps)
    then have v: "scan_value (Suc n) s = scan_value n s" by (rule Suc.IH(1))
    from 2 show ?case
      by (cases "scan_value n s")
        (auto simp: scan_elems.simps(2) [of "Suc n" s] scan_elems.simps(2) [of n s] v ebind_Inl_iff Suc.IH(2)
          split: list.splits if_splits)
  next
    case 3
    from 3 show ?case
      by (auto simp: scan_members.simps(2) [of "Suc n" s] scan_members.simps(2) [of n s]
          Suc.IH(1,3) ebind_Inl_iff of_option_def
          intro!: ebind_cong split: list.splits if_splits option.splits) }
qed

lemma scan_fuel_mono:
  "scan_value n s \<noteq> Inl JFuel \<Longrightarrow> n \<le> m \<Longrightarrow> scan_value m s = scan_value n s"
  "scan_elems n s \<noteq> Inl JFuel \<Longrightarrow> n \<le> m \<Longrightarrow> scan_elems m s = scan_elems n s"
  "scan_members n s \<noteq> Inl JFuel \<Longrightarrow> n \<le> m \<Longrightarrow> scan_members m s = scan_members n s"
proof -
  show "scan_value n s \<noteq> Inl JFuel \<Longrightarrow> n \<le> m \<Longrightarrow> scan_value m s = scan_value n s"
    by (rotate_tac 1, induction m rule: dec_induct) (simp_all add: scan_fuel_Suc)
  show "scan_elems n s \<noteq> Inl JFuel \<Longrightarrow> n \<le> m \<Longrightarrow> scan_elems m s = scan_elems n s"
    by (rotate_tac 1, induction m rule: dec_induct) (simp_all add: scan_fuel_Suc)
  show "scan_members n s \<noteq> Inl JFuel \<Longrightarrow> n \<le> m \<Longrightarrow> scan_members m s = scan_members n s"
    by (rotate_tac 1, induction m rule: dec_induct) (simp_all add: scan_fuel_Suc)
qed

text \<open>So the fuel \<open>loads\<close> chooses gives the outcome every larger amount gives.\<close>

lemma scan_value_canonical:
  assumes "scan_value n s = Inr (v, r)"
  shows "scan_value (scan_fuel s) s = Inr (v, r)"
proof (cases "n \<le> scan_fuel s")
  case True
  with assms show ?thesis using scan_fuel_mono(1) [of n s "scan_fuel s"] by simp
next
  case False
  have "scan_value (scan_fuel s) s \<noteq> Inl JFuel"
    by (rule scan_fuel_enough) (simp add: scan_fuel_def)
  with False assms show ?thesis using scan_fuel_mono(1) [of "scan_fuel s" s n] by simp
qed

end
