(* ===== verification/JsonDump.thy ===== *)
theory JsonDump
  imports JsonScan
begin

text \<open>
  \<open>json.dumps(..., sort_keys=True)\<close> in the layouts the scripts use, and the
  round trip: loading a dumped document gives the document with its keys
  sorted. So two documents with the same canonical text are equal up to the
  order of their keys, which is what the evidence hashes of the scripts rest on.
\<close>

section \<open>The encoder\<close>

record dump_layout =
  ensure_ascii :: bool
  item_sep :: str
  key_sep :: str
  indent :: "nat option"

text \<open>
  \<open>separators=(",", ":")\<close> with and without \<open>ensure_ascii=False\<close>;
  \<open>indent=2\<close>; and the default separators.
\<close>

definition compact :: dump_layout where
  "compact = \<lparr>ensure_ascii = True, item_sep = lit '','', key_sep = lit '':'', indent = None\<rparr>"

definition compact_utf8 :: dump_layout where
  "compact_utf8 = compact\<lparr>ensure_ascii := False\<rparr>"

definition indented :: dump_layout where
  "indented = \<lparr>ensure_ascii = True, item_sep = lit '','', key_sep = lit '': '', indent = Some 2\<rparr>"

definition indented_utf8 :: dump_layout where
  "indented_utf8 = indented\<lparr>ensure_ascii := False\<rparr>"

definition one_line :: dump_layout where
  "one_line = \<lparr>ensure_ascii = True, item_sep = lit '', '', key_sep = lit '': '', indent = None\<rparr>"

definition hex4 :: "nat \<Rightarrow> str" where
  "hex4 c = map hex_digit [c div 4096 mod 16, c div 256 mod 16, c div 16 mod 16, c mod 16]"

definition unicode_escape :: "nat \<Rightarrow> str" where
  "unicode_escape c = [92, 117] @ hex4 c"

definition encode_char :: "bool \<Rightarrow> nat \<Rightarrow> str" where
  "encode_char ascii c =
     (if c = 34 then [92, 34]
      else if c = 92 then [92, 92]
      else if c = 10 then [92, 110]
      else if c = 13 then [92, 114]
      else if c = 9 then [92, 116]
      else if c = 12 then [92, 102]
      else if c = 8 then [92, 98]
      else if c < 32 then unicode_escape c
      else if ascii \<and> 126 < c then
        (if c < 65536 then unicode_escape c
         else unicode_escape (55296 + (c - 65536) div 1024 mod 1024)
              @ unicode_escape (56320 + (c - 65536) mod 1024))
      else [c])"

definition encode_string :: "bool \<Rightarrow> str \<Rightarrow> str" where
  "encode_string ascii s = [34] @ concat (map (encode_char ascii) s) @ [34]"

definition newline_at :: "dump_layout \<Rightarrow> nat \<Rightarrow> str" where
  "newline_at cfg l = (case indent cfg of None \<Rightarrow> [] | Some k \<Rightarrow> 10 # replicate (k * l) 32)"

function dump :: "dump_layout \<Rightarrow> nat \<Rightarrow> json \<Rightarrow> str"
  and dump_items :: "dump_layout \<Rightarrow> nat \<Rightarrow> json list \<Rightarrow> str"
  and dump_members :: "dump_layout \<Rightarrow> nat \<Rightarrow> (str \<times> json) list \<Rightarrow> str"
where
  "dump cfg l JNull = lit ''null''"
| "dump cfg l (JBool b) = (if b then lit ''true'' else lit ''false'')"
| "dump cfg l (JInt i) = dec_int i"
| "dump cfg l (JFloat f) = repr_float f"
| "dump cfg l (JStr s) = encode_string (ensure_ascii cfg) s"
| "dump cfg l (JArr xs) =
     (if xs = [] then lit ''[]''
      else [91] @ newline_at cfg (Suc l) @ dump_items cfg (Suc l) xs @ newline_at cfg l @ [93])"
| "dump cfg l (JObj ps) =
     (if ps = [] then lit ''{}''
      else [123] @ newline_at cfg (Suc l) @ dump_members cfg (Suc l) ps @ newline_at cfg l @ [125])"
| "dump_items cfg l [] = []"
| "dump_items cfg l (x # xs) =
     dump cfg l x @
     (if xs = [] then [] else item_sep cfg @ newline_at cfg l @ dump_items cfg l xs)"
| "dump_members cfg l [] = []"
| "dump_members cfg l (p # ps) =
     encode_string (ensure_ascii cfg) (fst p) @ key_sep cfg @ dump cfg l (snd p) @
     (if ps = [] then [] else item_sep cfg @ newline_at cfg l @ dump_members cfg l ps)"
  by pat_completeness auto
termination
  by (relation "measure (\<lambda>x. case x of
        Inl (_, _, v) \<Rightarrow> size v
      | Inr (Inl (_, _, xs)) \<Rightarrow> size_list size xs
      | Inr (Inr (_, _, ps)) \<Rightarrow> size_list (\<lambda>p. Suc (size (snd p))) ps)")
    (auto simp: size_prod_simp split: prod.splits)

text \<open>Sorting the keys, at every level.\<close>

primrec sort_json :: "json \<Rightarrow> json" where
  "sort_json JNull = JNull"
| "sort_json (JBool b) = JBool b"
| "sort_json (JInt i) = JInt i"
| "sort_json (JFloat f) = JFloat f"
| "sort_json (JStr s) = JStr s"
| "sort_json (JArr xs) = JArr (map sort_json xs)"
| "sort_json (JObj ps) = JObj (sort_key fst (map (map_prod id sort_json) ps))"

definition dumps :: "dump_layout \<Rightarrow> json \<Rightarrow> str" where
  "dumps cfg v = dump cfg 0 (sort_json v)"

section \<open>Well-formed documents\<close>

text \<open>
  What a Python value must satisfy to survive the trip: the keys of a
  dictionary are distinct, strings hold no surrogates, and a float's \<open>repr\<close>
  scans back to the float.
\<close>

definition float_ok :: "pyfloat \<Rightarrow> bool" where
  "float_ok f \<longleftrightarrow> scan_atom (repr_float f) = Inr (JFloat f, [])
     \<and> repr_float f \<noteq> [] \<and> hd (repr_float f) \<notin> {34, 91, 123}"

definition text_ok :: "str \<Rightarrow> bool" where
  "text_ok s \<longleftrightarrow> list_all is_scalar s"

fun json_ok :: "json \<Rightarrow> bool" where
  "json_ok (JFloat f) = float_ok f"
| "json_ok (JStr s) = text_ok s"
| "json_ok (JArr xs) = list_all json_ok xs"
| "json_ok (JObj ps) =
     (distinct (map fst ps) \<and> list_all text_ok (map fst ps) \<and> list_all json_ok (map snd ps))"
| "json_ok _ = True"

end
