(* ===== verification/JsonRound.thy ===== *)
theory JsonRound
  imports JsonDump
begin

text \<open>
  The round trip of the JSON encoder and scanner, by induction along the
  encoder: first strings, then numbers and constants followed by a delimiter,
  then arrays and objects. The interface of a canonical encoding is stated as a
  locale, and every layout of the scripts is an instance of it.
\<close>

section \<open>Strings\<close>

lemma hex_value_hex_digit [simp]: "d < 16 \<Longrightarrow> hex_value (hex_digit d) = Some d"
  by (auto simp: hex_value_def hex_digit_def)

lemma scan_hex4_hex4:
  assumes "c < 65536"
  shows "scan_hex4 (hex4 c @ s) = Some (c, s)"
proof -
  have e: "c div 4096 = c div 16 div 16 div 16" "c div 256 = c div 16 div 16"
    by (simp_all add: div_mult2_eq [symmetric])
  have d: "c div 16 * 16 + c mod 16 = c" "c div 16 div 16 * 16 + c div 16 mod 16 = c div 16"
    "c div 16 div 16 div 16 * 16 + c div 16 div 16 mod 16 = c div 16 div 16"
    by (rule div_mult_mod_eq)+
  have lt: "c div 16 div 16 div 16 < 16"
    unfolding e(1) [symmetric] using assms by (simp add: div_less_iff_less_mult)
  then show ?thesis using d by (simp add: hex4_def e mod_less [OF lt])
qed

lemma scan_escape_unicode:
  assumes "c < 65536" "\<not> is_high_surrogate c"
  shows "scan_escape (117 # hex4 c @ s) = Some (c, s)"
  using assms by (simp add: scan_escape_def scan_unicode_def scan_hex4_hex4)

lemma scan_escape_pair:
  assumes "x < 1024" "y < 1024"
  shows "scan_escape (117 # hex4 (55296 + x) @ 92 # 117 # hex4 (56320 + y) @ s)
    = Some (65536 + x * 1024 + y, s)"
  using assms
  by (simp add: scan_escape_def scan_unicode_def scan_hex4_hex4 is_high_surrogate_def
      is_low_surrogate_def lit_def)

lemma scan_string_encode_char:
  assumes "is_scalar c"
  shows "scan_string (encode_char a c @ s) = map_option (\<lambda>(t, r). (c # t, r)) (scan_string s)"
proof -
  consider (short) "c \<in> {34, 92, 10, 13, 9, 12, 8}"
    | (unicode) "c \<notin> {34, 92, 10, 13, 9, 12, 8}" "c < 32 \<or> (a \<and> 126 < c \<and> c < 65536)"
    | (pair) "a" "65536 \<le> c"
    | (raw) "c \<notin> {34, 92, 10, 13, 9, 12, 8}" "32 \<le> c" "\<not> (a \<and> 126 < c)"
    by force
  then show ?thesis
  proof cases
    case short
    then show ?thesis
      by (auto simp: encode_char_def scan_escape_def simple_escape_def option.map_comp)
  next
    case unicode
    then have "c < 65536" "\<not> is_high_surrogate c"
      using assms by (auto simp: is_scalar_def is_high_surrogate_def)
    from scan_escape_unicode [OF this] have "scan_escape (117 # hex4 c @ s) = Some (c, s)" .
    moreover have "encode_char a c = 92 # 117 # hex4 c"
      using unicode by (auto simp: encode_char_def unicode_escape_def)
    ultimately show ?thesis by simp
  next
    case pair
    define x y where "x = (c - 65536) div 1024" and "y = (c - 65536) mod 1024"
    have x: "x < 1024" using assms pair
      by (auto simp: x_def is_scalar_def div_less_iff_less_mult)
    have y: "y < 1024" by (simp add: y_def)
    have c: "65536 + x * 1024 + y = c"
      using pair div_mult_mod_eq [of "c - 65536" 1024] by (simp add: x_def y_def)
    have "encode_char a c @ s = 92 # 117 # hex4 (55296 + x) @ 92 # 117 # hex4 (56320 + y) @ s"
      using pair x by (simp add: encode_char_def unicode_escape_def x_def y_def)
    then show ?thesis using scan_escape_pair [OF x y] c by simp
  next
    case raw
    then show ?thesis by (auto simp: encode_char_def)
  qed
qed

lemma scan_string_encode:
  "text_ok s \<Longrightarrow> scan_string (concat (map (encode_char a) s) @ 34 # r) = Some (s, r)"
  by (induction s) (simp_all add: text_ok_def scan_string_encode_char)

section \<open>Numbers and constants\<close>

text \<open>What may follow a value inside a document, or its end.\<close>

definition delimited :: "str \<Rightarrow> bool" where
  "delimited r \<longleftrightarrow> r = [] \<or> hd r \<in> {44, 93, 125, 10, 32}"

lemma delimited_Cons [simp]: "delimited (c # r) \<longleftrightarrow> c \<in> {44, 93, 125, 10, 32}"
  by (simp add: delimited_def)

lemma delimited_Nil [simp]: "delimited []"
  by (simp add: delimited_def)

lemma digits_delimited:
  assumes "delimited r"
  shows "takeWhile is_digit (s @ r) = takeWhile is_digit s"
    and "dropWhile is_digit (s @ r) = dropWhile is_digit s @ r"
proof -
  have r: "r = [] \<or> \<not> is_digit (hd r)" using assms by (auto simp: delimited_def is_digit_def)
  then have "takeWhile is_digit r = []" "dropWhile is_digit r = r"
    by (cases r; simp)+
  then show "takeWhile is_digit (s @ r) = takeWhile is_digit s"
    "dropWhile is_digit (s @ r) = dropWhile is_digit s @ r"
    by (induction s) auto
qed

lemma scan_fraction_delimited:
  assumes "delimited r"
  shows "scan_fraction (s @ r) = (fst (scan_fraction s), snd (scan_fraction s) @ r)"
proof -
  consider "s = []" | c where "s = [c]" | c d t where "s = c # d # t"
    by (metis list.exhaust)
  then show ?thesis
  proof cases
    case 1
    with assms show ?thesis
      by (auto simp: scan_fraction_def delimited_def split: list.splits)
  next
    case 2
    with assms show ?thesis
      by (auto simp: scan_fraction_def delimited_def is_digit_def split: list.splits)
  next
    case 3
    with digits_delimited [OF assms, of "d # t"] show ?thesis
      by (auto simp: scan_fraction_def)
  qed
qed

lemma scan_exponent_delimited:
  assumes "delimited r"
  shows "scan_exponent (s @ r) = (fst (scan_exponent s), snd (scan_exponent s) @ r)"
proof -
  consider "s = []" | c where "s = [c]" | c d t where "s = c # d # t"
    by (metis list.exhaust)
  then show ?thesis
  proof cases
    case 1
    with assms show ?thesis
      by (auto simp: scan_exponent_def delimited_def split: list.splits)
  next
    case 2
    with assms digits_delimited [OF assms, of "[]"] show ?thesis
      by (auto simp: scan_exponent_def delimited_def Let_def split: list.splits)
  next
    case 3
    with digits_delimited [OF assms, of t] digits_delimited [OF assms, of "d # t"] show ?thesis
      by (simp add: scan_exponent_def Let_def)
  qed
qed

lemma scan_integer_delimited:
  "scan_integer s = Some (ip, q) \<Longrightarrow> delimited r \<Longrightarrow> scan_integer (s @ r) = Some (ip, q @ r)"
  using digits_delimited [of r s]
  by (cases s) (auto simp: scan_integer_def split: if_splits)

lemma scan_unsigned_delimited:
  assumes "scan_unsigned neg s = Some (v, [])" and r: "delimited r"
  shows "scan_unsigned neg (s @ r) = Some (v, r)"
proof -
  from assms(1) obtain ip s2 where s2: "scan_integer s = Some (ip, s2)"
    by (auto simp: scan_unsigned_def split: option.splits)
  then show ?thesis
    using assms(1) scan_integer_delimited [OF s2 r]
    by (auto simp: scan_unsigned_def scan_fraction_delimited [OF r] scan_exponent_delimited [OF r]
        split: prod.splits if_splits)
qed

lemma scan_number_delimited:
  "scan_number s = Some (v, []) \<Longrightarrow> delimited r \<Longrightarrow> scan_number (s @ r) = Some (v, r)"
  using scan_unsigned_delimited [of False s v r] scan_unsigned_delimited [of True "tl s" v r]
  by (auto simp: scan_number_def split: list.splits if_splits)

lemma scan_number_first:
  assumes "scan_number s = Some (v, q)"
  obtains c t where "s = c # t" "is_digit c" | c t where "s = 45 # c # t" "is_digit c"
  using assms
  by (auto simp: scan_number_def scan_unsigned_def scan_integer_def is_digit_def
      split: list.splits if_splits option.splits)

lemma scan_constant_number:
  assumes "scan_number s = Some (v, q)"
  shows "scan_constant (s @ r) = None"
proof (rule scan_number_first [OF assms])
  fix c t assume "s = c # t" "is_digit c"
  then show ?thesis by (auto simp: scan_constant_def starts_with_def lit_def is_digit_def)
next
  fix c t assume "s = 45 # c # t" "is_digit c"
  then show ?thesis by (auto simp: scan_constant_def starts_with_def lit_def is_digit_def)
qed

lemma scan_constant_delimited:
  assumes "scan_constant s = Some (v, [])"
  shows "scan_constant (s @ r) = Some (v, r)"
proof -
  have drop: "starts_with p s \<Longrightarrow> drop (length p) s = [] \<Longrightarrow> s = p" for p
    by (auto simp: starts_with_iff)
  from assms have "s \<in> {lit ''null'', lit ''true'', lit ''false'', lit ''NaN'',
      lit ''Infinity'', lit ''-Infinity''}"
    using drop [of "lit ''null''"] drop [of "lit ''true''"] drop [of "lit ''false''"]
      drop [of "lit ''NaN''"] drop [of "lit ''Infinity''"] drop [of "lit ''-Infinity''"]
    by (auto simp: scan_constant_def split: if_splits)
  then show ?thesis using assms
    by (elim insertE emptyE) (simp_all add: scan_constant_def starts_with_def lit_def)
qed

lemma scan_atom_delimited:
  assumes "scan_atom s = Inr (v, [])" and "delimited r"
  shows "scan_atom (s @ r) = Inr (v, r)"
proof (cases "scan_constant s")
  case None
  with assms have "scan_number s = Some (v, [])"
    by (simp add: scan_atom_def of_option_Inr_iff)
  with assms(2) show ?thesis
    by (simp add: scan_atom_def scan_constant_number scan_number_delimited)
next
  case (Some a)
  with assms have "scan_constant s = Some (v, [])" by (simp add: scan_atom_def)
  then show ?thesis by (simp add: scan_atom_def scan_constant_delimited)
qed

lemma scan_integer_nat: "scan_integer (dec_nat n) = Some (dec_nat n, [])"
proof -
  obtain d ds where dn: "dec_nat n = d # ds" by (metis dec_nat_nonempty list.exhaust)
  have digits: "list_all is_digit (d # ds)" using dec_nat_digits [of n] by (simp add: dn)
  show ?thesis
  proof (cases "n = 0")
    case True
    then show ?thesis by (simp add: scan_integer_def)
  next
    case False
    then have "d \<noteq> 48" using hd_dec_nat [of n] by (simp add: dn)
    with digits show ?thesis
      by (simp add: dn scan_integer_def list_all_iff takeWhile_eq_all_conv dropWhile_eq_Nil_conv)
  qed
qed

lemma scan_unsigned_nat:
  "scan_unsigned neg (dec_nat n) = Some (JInt (if neg then - int n else int n), [])"
  by (simp add: scan_unsigned_def scan_integer_nat scan_fraction_def scan_exponent_def)

lemma scan_number_int: "scan_number (dec_int i) = Some (JInt i, [])"
proof -
  have "hd (dec_nat n) \<noteq> 45" for n
    using dec_nat_digits [of n] by (cases "dec_nat n") (auto simp: is_digit_def)
  then have "scan_number (dec_nat n) = scan_unsigned False (dec_nat n)" for n
    by (simp add: scan_number_def split: list.splits)
      (metis dec_nat_nonempty list.sel(1))
  then show ?thesis by (simp add: dec_int_def scan_unsigned_nat) (simp add: scan_number_def scan_unsigned_nat)
qed

lemma scan_atom_int: "scan_atom (dec_int i) = Inr (JInt i, [])"
  using scan_constant_number [OF scan_number_int, of i "[]"]
  by (simp add: scan_atom_def scan_number_int)

section \<open>Whole documents\<close>

text \<open>The separators of every layout: the punctuation, then spaces.\<close>

definition layout_ok :: "dump_layout \<Rightarrow> bool" where
  "layout_ok cfg \<longleftrightarrow>
     take 1 (item_sep cfg) = [44] \<and> list_all is_json_space (drop 1 (item_sep cfg))
     \<and> take 1 (key_sep cfg) = [58] \<and> list_all is_json_space (drop 1 (key_sep cfg))"

lemma layouts_ok [simp]:
  "layout_ok compact" "layout_ok compact_utf8" "layout_ok indented" "layout_ok indented_utf8"
  "layout_ok one_line"
  by (simp_all add: layout_ok_def compact_def compact_utf8_def indented_def indented_utf8_def
      one_line_def lit_def is_json_space_def)

lemma skip_ws_spaces: "list_all is_json_space w \<Longrightarrow> skip_ws (w @ s) = skip_ws s"
  by (induction w) simp_all

lemma layout_separators:
  assumes "layout_ok cfg"
  obtains w v where "item_sep cfg = 44 # w" "list_all is_json_space w"
    "key_sep cfg = 58 # v" "list_all is_json_space v"
proof (rule that [of "drop 1 (item_sep cfg)" "drop 1 (key_sep cfg)"])
  show "item_sep cfg = 44 # drop 1 (item_sep cfg)"
    using assms by (cases "item_sep cfg") (auto simp: layout_ok_def)
  show "key_sep cfg = 58 # drop 1 (key_sep cfg)"
    using assms by (cases "key_sep cfg") (auto simp: layout_ok_def)
qed (use assms in \<open>simp_all add: layout_ok_def\<close>)

lemma newline_at_spaces [simp]: "list_all is_json_space (newline_at cfg l)"
  by (auto simp: newline_at_def is_json_space_def list_all_iff split: option.splits)

lemma delimited_newline: "delimited r \<Longrightarrow> delimited (newline_at cfg l @ r)"
  by (simp add: newline_at_def split: option.splits)

text \<open>A value never starts with white space or closing punctuation.\<close>

definition opens_value :: "str \<Rightarrow> bool" where
  "opens_value s \<longleftrightarrow> s \<noteq> [] \<and> \<not> is_json_space (hd s) \<and> hd s \<noteq> 93 \<and> hd s \<noteq> 125"

lemma opens_value_append: "opens_value s \<Longrightarrow> opens_value (s @ r)"
  by (simp add: opens_value_def)

lemma opens_value_skip_ws: "opens_value s \<Longrightarrow> skip_ws s = s"
  by (cases s) (simp_all add: opens_value_def)

lemma opens_value_atom: "scan_atom s = Inr x \<Longrightarrow> opens_value s"
proof -
  assume ok: "scan_atom s = Inr x"
  show ?thesis
  proof (cases "scan_constant s")
    case None
    with ok obtain v q where "scan_number s = Some (v, q)"
      by (cases x) (auto simp: scan_atom_def of_option_Inr_iff)
    then show ?thesis
      by (rule scan_number_first) (auto simp: opens_value_def is_digit_def is_json_space_def)
  next
    case (Some y)
    then show ?thesis
      by (auto simp: scan_constant_def starts_with_iff lit_def opens_value_def is_json_space_def
          split: if_splits)
  qed
qed

lemma opens_value_dump: "json_ok v \<Longrightarrow> opens_value (dump cfg l v)"
proof (cases v)
  case (JInt i)
  then show ?thesis using opens_value_atom [OF scan_atom_int] by simp
next
  case (JFloat f)
  assume "json_ok v"
  with JFloat show ?thesis using opens_value_atom by (auto simp: float_ok_def)
qed (auto simp: opens_value_def is_json_space_def lit_def encode_string_def)

lemma scan_value_atom:
  assumes "scan_atom s = Inr (v, [])" "delimited r" "hd s \<notin> {34, 91, 123}"
  shows "scan_value (Suc n) (s @ r) = Inr (v, r)"
proof -
  have s: "s \<noteq> []" using opens_value_atom [OF assms(1)] by (simp add: opens_value_def)
  then obtain c t where "s @ r = c # t" "c \<notin> {34, 91, 123}" using assms(3) by (cases s) auto
  then show ?thesis
    using scan_atom_delimited [OF assms(1,2)] by (simp add: scan_value.simps)
qed

lemma scan_value_string:
  "text_ok s \<Longrightarrow> scan_value (Suc n) (encode_string a s @ r) = Inr (JStr s, r)"
  by (simp add: encode_string_def scan_value.simps scan_string_encode)

lemma hd_dec_int: "hd (dec_int i) \<notin> {34, 91, 123}"
proof -
  have "hd (dec_nat n) \<notin> {34, 91, 123}" for n
    using dec_nat_digits [of n] by (cases "dec_nat n") (auto simp: is_digit_def)
  then show ?thesis by (simp add: dec_int_def)
qed

lemma dict_of_pairs_snoc:
  "dict_of_pairs (ps @ [p]) = AList.update (fst p) (snd p) (dict_of_pairs ps)"
  by (simp add: dict_of_pairs_def)

lemma update_new: "k \<notin> fst ` set d \<Longrightarrow> AList.update k v d = d @ [(k, v)]"
  by (induction d) auto

lemma dict_of_pairs_distinct: "distinct (map fst ps) \<Longrightarrow> dict_of_pairs ps = ps"
proof (induction ps rule: rev_induct)
  case Nil
  show ?case by (simp add: dict_of_pairs_def)
next
  case (snoc p ps)
  then show ?case by (simp add: dict_of_pairs_snoc update_new)
qed

text \<open>
  The statement for the three encoders: some amount of fuel scans the encoded
  text back, whatever delimited text follows.
\<close>

lemma scan_dump:
  "layout_ok cfg \<Longrightarrow> json_ok v \<Longrightarrow> delimited r \<Longrightarrow>
     \<exists>n. scan_value n (dump cfg l v @ r) = Inr (v, r)"
  "layout_ok cfg \<Longrightarrow> list_all json_ok xs \<Longrightarrow> xs \<noteq> [] \<Longrightarrow>
     \<exists>n. scan_elems n (dump_items cfg l xs @ newline_at cfg m @ 93 # r) = Inr (xs, r)"
  "layout_ok cfg \<Longrightarrow> list_all text_ok (map fst ps) \<Longrightarrow> list_all json_ok (map snd ps) \<Longrightarrow> ps \<noteq> [] \<Longrightarrow>
     \<exists>n. scan_members n (dump_members cfg l ps @ newline_at cfg m @ 125 # r) = Inr (ps, r)"
proof (induction cfg l v and cfg l xs and cfg l ps arbitrary: r and m r and m r
    rule: dump_dump_items_dump_members.induct)
  case (1 cfg l)
  have "scan_atom (lit ''null'') = Inr (JNull, [])" by (simp add: scan_atom_def scan_constant_def starts_with_def)
  then show ?case using scan_value_atom "1.prems" by (fastforce simp: lit_def)
next
  case (2 cfg l b)
  have "scan_atom (dump cfg l (JBool b)) = Inr (JBool b, [])"
    by (simp add: scan_atom_def scan_constant_def starts_with_def lit_def)
  moreover have "hd (dump cfg l (JBool b)) \<notin> {34, 91, 123}" by (simp add: lit_def)
  ultimately show ?case using scan_value_atom "2.prems" by blast
next
  case (3 cfg l i)
  then show ?case using scan_value_atom [OF scan_atom_int _ hd_dec_int] by auto
next
  case (4 cfg l f)
  then show ?case using scan_value_atom by (fastforce simp: float_ok_def)
next
  case (5 cfg l s)
  then show ?case by (intro exI [of _ "Suc 0"]) (simp add: scan_value_string)
next
  case (6 cfg l xs)
  show ?case
  proof (cases "xs = []")
    case True
    have "scan_value (Suc 0) (lit ''[]'' @ r) = Inr (JArr [], r)"
      by (simp add: scan_value.simps lit_def is_json_space_def)
    with True show ?thesis by auto
  next
    case False
    with 6 obtain n where
      n: "scan_elems n (dump_items cfg (Suc l) xs @ newline_at cfg l @ 93 # r) = Inr (xs, r)"
      by auto
    obtain y ys where xs: "xs = y # ys" using False by (cases xs) auto
    with 6 have op: "opens_value (dump_items cfg (Suc l) xs @ newline_at cfg l @ 93 # r)"
      by (auto intro!: opens_value_append opens_value_dump)
    then obtain d t where dt: "dump_items cfg (Suc l) xs @ newline_at cfg l @ 93 # r = d # t" "d \<noteq> 93"
      by (cases "dump_items cfg (Suc l) xs @ newline_at cfg l @ 93 # r") (auto simp: opens_value_def)
    have "scan_value (Suc n) (dump cfg l (JArr xs) @ r) = Inr (JArr xs, r)"
      using n dt opens_value_skip_ws [OF op] False
      by (simp add: scan_value.simps skip_ws_spaces)
    then show ?thesis by blast
  qed
next
  case (7 cfg l ps)
  show ?case
  proof (cases "ps = []")
    case True
    have "scan_value (Suc 0) (lit ''{}'' @ r) = Inr (JObj [], r)"
      by (simp add: scan_value.simps lit_def is_json_space_def)
    with True show ?thesis by auto
  next
    case False
    with 7 obtain n where
      n: "scan_members n (dump_members cfg (Suc l) ps @ newline_at cfg l @ 125 # r) = Inr (ps, r)"
      by auto
    obtain t where t: "dump_members cfg (Suc l) ps @ newline_at cfg l @ 125 # r = 34 # t"
      using False by (cases ps) (auto simp: encode_string_def)
    have sk: "skip_ws (34 # t) = 34 # t" by (simp add: is_json_space_def)
    have "dict_of_pairs ps = ps" using 7 by (simp add: dict_of_pairs_distinct)
    then have "scan_value (Suc n) (dump cfg l (JObj ps) @ r) = Inr (JObj ps, r)"
      using n t sk False by (simp add: scan_value.simps skip_ws_spaces)
    then show ?thesis by blast
  qed
next
  case (8 cfg l)
  then show ?case by simp
next
  case (9 cfg l x xs)
  from 9(3) obtain w v where sep: "item_sep cfg = 44 # w" "list_all is_json_space w"
    by (rule layout_separators)
  show ?case
  proof (cases "xs = []")
    case True
    from 9 obtain n where "scan_value n (dump cfg l x @ newline_at cfg m @ 93 # r)
        = Inr (x, newline_at cfg m @ 93 # r)"
      by (metis delimited_Cons delimited_newline insertCI list.pred_inject(2))
    then have "scan_elems (Suc n) (dump_items cfg l (x # xs) @ newline_at cfg m @ 93 # r)
        = Inr (x # xs, r)"
      using True by (simp add: scan_elems.simps skip_ws_spaces is_json_space_def)
    then show ?thesis by blast
  next
    case False
    define rest where "rest = dump_items cfg l xs @ newline_at cfg m @ 93 # r"
    from 9 False have "\<exists>n. scan_elems n rest = Inr (xs, r)"
      unfolding rest_def by simp
    then obtain n2 where n2: "scan_elems n2 rest = Inr (xs, r)" ..
    from 9 obtain n1 where
      n1: "scan_value n1 (dump cfg l x @ item_sep cfg @ newline_at cfg l @ rest)
        = Inr (x, item_sep cfg @ newline_at cfg l @ rest)"
      using sep by fastforce
    have op: "skip_ws rest = rest"
      using 9 False unfolding rest_def
      by (intro opens_value_skip_ws)
        (cases xs; auto intro!: opens_value_append opens_value_dump)
    define n where "n = max n1 n2"
    have "scan_value n (dump cfg l x @ item_sep cfg @ newline_at cfg l @ rest)
        = Inr (x, item_sep cfg @ newline_at cfg l @ rest)"
      using scan_fuel_mono(1) [of n1 _ n] n1 by (simp add: n_def)
    moreover have "scan_elems n rest = Inr (xs, r)"
      using scan_fuel_mono(2) [of n2 _ n] n2 by (simp add: n_def)
    ultimately have "scan_elems (Suc n) (dump_items cfg l (x # xs) @ newline_at cfg m @ 93 # r)
        = Inr (x # xs, r)"
      using False sep op
      by (simp add: scan_elems.simps skip_ws_spaces is_json_space_def rest_def [symmetric])
    then show ?thesis by blast
  qed
next
  case (10 cfg l)
  then show ?case by simp
next
  case (11 cfg l p ps)
  from 11(3) obtain w u where sep: "item_sep cfg = 44 # w" "list_all is_json_space w"
    "key_sep cfg = 58 # u" "list_all is_json_space u"
    by (rule layout_separators)
  have key: "scan_string (concat (map (encode_char a) (fst p)) @ 34 # q) = Some (fst p, q)" for a q
    using 11 by (intro scan_string_encode) simp
  have val: "skip_ws (key_sep cfg @ q) = key_sep cfg @ q"
    "skip_ws (u @ dump cfg l (snd p) @ q) = dump cfg l (snd p) @ q" for q
    using sep 11 opens_value_skip_ws [OF opens_value_append [OF opens_value_dump]]
    by (simp_all add: is_json_space_def skip_ws_spaces)
  show ?case
  proof (cases "ps = []")
    case True
    from 11 obtain n where n: "scan_value n (dump cfg l (snd p) @ newline_at cfg m @ 125 # r)
        = Inr (snd p, newline_at cfg m @ 125 # r)"
      by (metis delimited_Cons delimited_newline insertCI list.pred_inject(2) list.simps(9))
    have "scan_members (Suc n) (dump_members cfg l (p # ps) @ newline_at cfg m @ 125 # r)
        = Inr (p # ps, r)"
      using True n val key sep
      by (simp add: scan_members.simps skip_ws_spaces is_json_space_def encode_string_def)
    then show ?thesis by blast
  next
    case False
    define rest where "rest = dump_members cfg l ps @ newline_at cfg m @ 125 # r"
    from 11 False have "\<exists>n. scan_members n rest = Inr (ps, r)"
      unfolding rest_def by simp
    then obtain n2 where n2: "scan_members n2 rest = Inr (ps, r)" ..
    from 11 obtain n1 where
      n1: "scan_value n1 (dump cfg l (snd p) @ item_sep cfg @ newline_at cfg l @ rest)
        = Inr (snd p, item_sep cfg @ newline_at cfg l @ rest)"
      using sep by fastforce
    have op: "skip_ws rest = rest"
      using False unfolding rest_def
      by (cases ps) (simp_all add: encode_string_def is_json_space_def)
    define n where "n = max n1 n2"
    have "scan_value n (dump cfg l (snd p) @ item_sep cfg @ newline_at cfg l @ rest)
        = Inr (snd p, item_sep cfg @ newline_at cfg l @ rest)"
      using scan_fuel_mono(1) [of n1 _ n] n1 by (simp add: n_def)
    moreover have "scan_members n rest = Inr (ps, r)"
      using scan_fuel_mono(3) [of n2 _ n] n2 by (simp add: n_def)
    ultimately have "scan_members (Suc n) (dump_members cfg l (p # ps) @ newline_at cfg m @ 125 # r)
        = Inr (p # ps, r)"
      using False sep op key val
      by (simp add: scan_members.simps skip_ws_spaces is_json_space_def encode_string_def
          rest_def [symmetric])
    then show ?thesis by blast
  qed
qed

text \<open>Loading what was dumped.\<close>

lemma loads_dump_space:
  assumes "layout_ok cfg" "json_ok v" "delimited r" "list_all is_json_space r"
  shows "loads (dump cfg 0 v @ r) = Inr v"
proof -
  have op: "opens_value (dump cfg 0 v)" using assms(2) by (rule opens_value_dump)
  then have sk: "skip_ws (dump cfg 0 v @ r) = dump cfg 0 v @ r"
    by (intro opens_value_skip_ws opens_value_append)
  from scan_dump(1) [OF assms(1-3)] obtain n where "scan_value n (dump cfg 0 v @ r) = Inr (v, r)" by blast
  then have "scan_value (scan_fuel (dump cfg 0 v @ r)) (dump cfg 0 v @ r) = Inr (v, r)"
    by (rule scan_value_canonical)
  moreover have "skip_ws r = []" using skip_ws_spaces [OF assms(4), of "[]"] by simp
  moreover have "take 1 (dump cfg 0 v) \<noteq> [65279] \<and> dump cfg 0 v \<noteq> []"
  proof (cases v)
    case (JFloat f)
    with assms(2) have "scan_atom (dump cfg 0 v) = Inr (v, [])" by (simp add: float_ok_def)
    then show ?thesis
      by (auto simp: scan_atom_def of_option_Inr_iff scan_constant_def scan_number_def
          scan_unsigned_def scan_integer_def starts_with_iff lit_def is_digit_def
          split: option.splits if_splits list.splits)
  next
    case (JInt i)
    have "take 1 (dec_nat n) \<noteq> [65279]" for n
      using dec_nat_digits [of n] by (cases "dec_nat n") (auto simp: is_digit_def)
    with JInt show ?thesis by (simp add: dec_int_def)
  qed (auto simp: lit_def encode_string_def)
  then have "take 1 (dump cfg 0 v @ r) \<noteq> [65279]" by (cases "dump cfg 0 v") simp_all
  ultimately show ?thesis by (simp add: loads_def sk)
qed

lemma loads_dump:
  assumes "layout_ok cfg" "json_ok v"
  shows "loads (dump cfg 0 v) = Inr v"
  using loads_dump_space [OF assms, of "[]"] by simp

lemma loads_dump_line:
  assumes "layout_ok cfg" "json_ok v"
  shows "loads (dump cfg 0 v @ [10]) = Inr v"
  using loads_dump_space [OF assms, of "[10]"] by (simp add: is_json_space_def)

section \<open>Sorting the keys\<close>

lemma map_fst_map_prod_id [simp]: "map fst (map (map_prod id f) ps) = map fst ps"
  by (simp add: comp_def)

lemma json_ok_sort_json: "json_ok v \<Longrightarrow> json_ok (sort_json v)"
proof (induction v)
  case (JObj ps)
  have *: "set (sort_key fst (map (map_prod id sort_json) ps)) = map_prod id sort_json ` set ps"
    by simp
  have "distinct (map fst (sort_key fst (map (map_prod id sort_json) ps)))"
    using JObj.prems by (simp only: distinct_map_sort_key map_fst_map_prod_id json_ok.simps)
  moreover have "text_ok k" if "k \<in> fst ` set ps" for k
    using JObj.prems that by (auto simp: list_all_iff)
  moreover have "json_ok (sort_json u)" if "(k, u) \<in> set ps" for k u
    using JObj.prems JObj.IH [of "(k, u)" u] that by (auto simp: list_all_iff snds.simps)
  ultimately show ?case by (auto simp: list_all_iff)
qed (auto simp: list_all_iff)

lemma sort_key_fst_idem: "sort_key f (sort_key f xs) = sort_key f xs"
  by (rule sort_key_id_if_sorted) simp

lemma sort_json_idem [simp]: "sort_json (sort_json v) = sort_json v"
proof (induction v)
  case (JObj ps)
  then have "map (map_prod id sort_json) (sort_key fst (map (map_prod id sort_json) ps))
      = sort_key fst (map (map_prod id sort_json) ps)"
    by (intro map_idI) (auto simp: snds.simps)
  then show ?case
    by (simp only: sort_json.simps sort_key_fst_idem)
qed simp_all

section \<open>Canonical encodings\<close>

text \<open>
  A canonical encoding: decoding an encoded document gives its normal form, and
  the encoding depends on the normal form only. Then equal encodings mean equal
  normal forms, and nothing else: a digest of the encoding identifies the
  document up to the normal form, as far as the hash is free of collisions.
\<close>

locale canonical_codec =
  fixes encode :: "'a \<Rightarrow> 'b"
    and decode :: "'b \<Rightarrow> 'e + 'a"
    and normal :: "'a \<Rightarrow> 'a"
    and ok :: "'a \<Rightarrow> bool"
  assumes decode_encode: "ok v \<Longrightarrow> decode (encode v) = Inr (normal v)"
    and encode_normal: "encode (normal v) = encode v"
    and ok_normal: "ok v \<Longrightarrow> ok (normal v)"
begin

lemma encode_eq_iff: "ok v \<Longrightarrow> ok w \<Longrightarrow> encode v = encode w \<longleftrightarrow> normal v = normal w"
  by (metis decode_encode encode_normal sum.inject(2))

lemma reencode:
  assumes "ok v" and "decode (encode v) = Inr w"
  shows "encode w = encode v"
  using assms by (simp add: decode_encode) (metis encode_normal)

text \<open>A digest of the encoding, for an encoding that may fail.\<close>

lemma digest_collision:
  assumes "ok v" "ok w" "digest (encode v) = digest (encode w)" "normal v \<noteq> normal w"
  shows "encode v \<noteq> encode w \<and> digest (encode v) = digest (encode w)"
  using assms encode_eq_iff by blast

end

interpretation compact_json: canonical_codec "dumps compact" loads sort_json json_ok
  by unfold_locales (simp_all add: dumps_def loads_dump json_ok_sort_json)

interpretation compact_utf8_json: canonical_codec "dumps compact_utf8" loads sort_json json_ok
  by unfold_locales (simp_all add: dumps_def loads_dump json_ok_sort_json)

interpretation indented_json: canonical_codec "dumps indented" loads sort_json json_ok
  by unfold_locales (simp_all add: dumps_def loads_dump json_ok_sort_json)

interpretation indented_utf8_json: canonical_codec "dumps indented_utf8" loads sort_json json_ok
  by unfold_locales (simp_all add: dumps_def loads_dump json_ok_sort_json)

interpretation one_line_json: canonical_codec "dumps one_line" loads sort_json json_ok
  by unfold_locales (simp_all add: dumps_def loads_dump json_ok_sort_json)

text \<open>Two dictionaries that differ in the order of their entries only have one normal form.\<close>

lemma sort_json_obj_cong:
  assumes "distinct (map fst ps)" "mset ps = mset qs"
  shows "sort_json (JObj ps) = sort_json (JObj qs)"
proof -
  have "mset (map (map_prod id sort_json) ps)
      = mset (sort_key fst (map (map_prod id sort_json) qs))"
    using assms(2) by simp
  moreover have "distinct (map fst (map (map_prod id sort_json) ps))"
    using assms(1) by (simp only: map_fst_map_prod_id)
  then have "inj_on fst (set (map (map_prod id sort_json) ps))"
    by (simp only: distinct_map)
  ultimately have "sort_key fst (map (map_prod id sort_json) ps)
      = sort_key fst (map (map_prod id sort_json) qs)"
    by (rule sort_key_inj_key_eq) simp
  then show ?thesis by (simp only: sort_json.simps)
qed

section \<open>The text of a document can be encoded\<close>

text \<open>
  The text of a well-formed document has no surrogates and no carriage return,
  so it can be encoded, and reading the bytes as text gives it back.
\<close>

definition clean :: "nat \<Rightarrow> bool" where
  "clean c \<longleftrightarrow> is_scalar c \<and> c \<noteq> 13"

lemma ascii_clean [simp]: "c < 128 \<Longrightarrow> c \<noteq> 13 \<Longrightarrow> clean c"
  by (simp add: clean_def is_scalar_def)

definition ascii_char :: "nat \<Rightarrow> bool" where
  "ascii_char c \<longleftrightarrow> c < 128 \<and> c \<noteq> 13"

lemma dec_nat_ascii: "list_all ascii_char (dec_nat n)"
  using dec_nat_digits [of n] by (rule list.pred_mono_strong) (auto simp: is_digit_def ascii_char_def)

lemma clean_take_drop:
  assumes "list_all P ds"
  shows "list_all P (take k ds)" "list_all P (drop k ds)"
  using assms by (auto simp: list_all_iff dest: in_set_takeD in_set_dropD)

lemma layout_decimal_ascii: "list_all ascii_char ds \<Longrightarrow> list_all ascii_char (layout_decimal ds k)"
  using dec_nat_ascii by (simp add: layout_decimal_def Let_def two_digits_def clean_take_drop lit_def)
    (auto simp: ascii_char_def list_all_iff)

lemma repr_float_ascii: "list_all ascii_char (repr_float f)"
proof (cases f)
  case (FFin neg m e)
  have "list_all ascii_char (rev (dropWhile (\<lambda>c. c = 48) (rev (dec_nat d))))" for d
    using dec_nat_ascii [of d] by (auto simp: list_all_iff dest: set_dropWhileD)
  then have "list_all ascii_char (layout_decimal (rev (dropWhile (\<lambda>c. c = 48) (rev (dec_nat d)))) k)" for d k
    by (rule layout_decimal_ascii)
  with FFin show ?thesis
    by (auto simp: Let_def lit_def split: prod.splits) (simp_all add: ascii_char_def)
qed (simp_all add: lit_def ascii_char_def)

lemma list_all_clean: "list_all ascii_char s \<Longrightarrow> list_all clean s"
  by (auto simp: list_all_iff ascii_char_def)

lemmas dec_nat_clean [simp] = dec_nat_ascii [THEN list_all_clean]
lemmas repr_float_clean = repr_float_ascii [THEN list_all_clean]

lemma replicate_clean: "clean c \<Longrightarrow> list_all clean (replicate n c)"
  by (simp add: list_all_iff)

lemma hex_digit_clean: "d < 16 \<Longrightarrow> clean (hex_digit d)"
  by (auto simp: hex_digit_def)

lemma encode_string_clean: "text_ok s \<Longrightarrow> list_all clean (encode_string a s)"
proof -
  have "list_all clean (encode_char a c)" if "is_scalar c" for c
    using that by (simp add: encode_char_def unicode_escape_def hex4_def hex_digit_clean) (simp add: clean_def)
  then show "text_ok s \<Longrightarrow> ?thesis"
    by (auto simp: encode_string_def text_ok_def list_all_iff)
qed

lemma newline_at_clean: "list_all clean (newline_at cfg l)"
  by (simp add: newline_at_def replicate_clean split: option.split)

definition layout_clean :: "dump_layout \<Rightarrow> bool" where
  "layout_clean cfg \<longleftrightarrow> list_all clean (item_sep cfg) \<and> list_all clean (key_sep cfg)"

lemma dump_clean:
  "layout_clean cfg \<Longrightarrow> json_ok v \<Longrightarrow> list_all clean (dump cfg l v)"
  "layout_clean cfg \<Longrightarrow> list_all json_ok xs \<Longrightarrow> list_all clean (dump_items cfg l xs)"
  "layout_clean cfg \<Longrightarrow> list_all text_ok (map fst ps) \<Longrightarrow> list_all json_ok (map snd ps) \<Longrightarrow>
     list_all clean (dump_members cfg l ps)"
proof (induction cfg l v and cfg l xs and cfg l ps rule: dump_dump_items_dump_members.induct)
  case (3 cfg l i)
  then show ?case by (simp add: dec_int_def)
qed (simp_all add: repr_float_clean encode_string_clean newline_at_clean layout_clean_def lit_def)

lemma layouts_clean [simp]:
  "layout_clean compact" "layout_clean compact_utf8" "layout_clean indented"
  "layout_clean indented_utf8" "layout_clean one_line"
  by (simp_all add: layout_clean_def compact_def compact_utf8_def indented_def indented_utf8_def
      one_line_def lit_def)

lemma dumps_clean: "layout_clean cfg \<Longrightarrow> json_ok v \<Longrightarrow> list_all clean (dumps cfg v)"
  unfolding dumps_def by (rule dump_clean(1) [OF _ json_ok_sort_json])

text \<open>With \<open>ensure_ascii\<close> the text is clean whatever the strings hold.\<close>

lemma encode_string_ascii: "list_all clean (encode_string True s)"
proof -
  have "list_all clean (encode_char True c)" for c
    by (simp add: encode_char_def unicode_escape_def hex4_def hex_digit_clean)
  then show ?thesis by (auto simp: encode_string_def list_all_iff)
qed

lemma dump_ascii:
  "layout_clean cfg \<Longrightarrow> ensure_ascii cfg \<Longrightarrow> list_all clean (dump cfg l v)"
  "layout_clean cfg \<Longrightarrow> ensure_ascii cfg \<Longrightarrow> list_all clean (dump_items cfg l xs)"
  "layout_clean cfg \<Longrightarrow> ensure_ascii cfg \<Longrightarrow> list_all clean (dump_members cfg l ps)"
proof (induction cfg l v and cfg l xs and cfg l ps rule: dump_dump_items_dump_members.induct)
  case (3 cfg l i)
  then show ?case by (simp add: dec_int_def)
qed (simp_all add: repr_float_clean encode_string_ascii newline_at_clean layout_clean_def lit_def)

lemma write_clean:
  assumes "list_all clean s"
  obtains bs where "write_text s = Inr bs" "utf8_encode s = Inr bs" "read_text bs = Inr s"
proof -
  from assms have "list_all is_scalar s" "13 \<notin> set s" by (auto simp: list_all_iff clean_def)
  then have "\<exists>bs. write_text s = Inr bs" by (simp add: write_text_def utf8_encode_def)
  with \<open>13 \<notin> set s\<close> show thesis using that read_write_text by (metis write_text_def)
qed

text \<open>A document written to a file is read back as the same document, its keys sorted.\<close>

lemma dumps_read_back:
  assumes "layout_ok cfg" "layout_clean cfg" "json_ok v" "utf8_encode (dumps cfg v) = Inr bs"
  shows "ebind (read_text bs) loads = Inr (sort_json v)"
proof -
  obtain ws where "utf8_encode (dumps cfg v) = Inr ws" "read_text ws = Inr (dumps cfg v)"
    using dumps_clean [OF assms(2,3)] by (rule write_clean)
  with assms(4) have "read_text bs = Inr (dumps cfg v)" by simp
  with loads_dump [OF assms(1) json_ok_sort_json [OF assms(3)]] show ?thesis by (simp add: dumps_def)
qed

text \<open>The same for a document written as a line, with a final line feed.\<close>

lemma dumps_line_read_back:
  assumes "layout_ok cfg" "layout_clean cfg" "json_ok v" "write_text (dumps cfg v @ [10]) = Inr bs"
  shows "ebind (read_text bs) loads = Inr (sort_json v)"
proof -
  have "list_all clean (dumps cfg v @ [10])" using dumps_clean [OF assms(2,3)] by simp
  then obtain ws where "write_text (dumps cfg v @ [10]) = Inr ws" "read_text ws = Inr (dumps cfg v @ [10])"
    by (rule write_clean)
  with assms(4) have "read_text bs = Inr (dumps cfg v @ [10])" by simp
  with loads_dump_line [OF assms(1) json_ok_sort_json [OF assms(3)]] show ?thesis
    by (simp add: dumps_def)
qed

lemma dumps_ascii_writes:
  assumes "layout_clean cfg" "ensure_ascii cfg"
  obtains bs where "write_text (dumps cfg v @ [10]) = Inr bs"
proof -
  have "list_all clean (dumps cfg v @ [10])"
    unfolding dumps_def using dump_ascii(1) [OF assms] by simp
  then show thesis by (rule write_clean) (rule that)
qed

text \<open>The members of a sorted object.\<close>

lemma map_of_sort_key:
  assumes "distinct (map fst ps)"
  shows "map_of (sort_key fst ps) = map_of ps"
  using assms by (intro map_of_perm) simp_all

lemma sort_json_fld:
  assumes "distinct (map fst ps)" "JObj d = sort_json (JObj ps)"
  shows "map_of d k = map_option sort_json (map_of ps k)"
proof -
  have "d = sort_key fst (map (map_prod id sort_json) ps)" using assms(2) by simp
  moreover have "distinct (map fst (map (map_prod id sort_json) ps))"
    using assms(1) by (simp only: map_fst_map_prod_id)
  ultimately have "map_of d = map_of (map (map_prod id sort_json) ps)"
    by (simp only: map_of_sort_key)
  moreover have "map_of (map (map_prod id sort_json) ps) k = map_option sort_json (map_of ps k)"
    by (induction ps) auto
  ultimately show ?thesis by simp
qed

text \<open>Literals and decimals are plain text.\<close>

lemma text_ok_lit [simp]: "text_ok (lit s)"
  using set_lit_bound [of _ s] by (fastforce simp: text_ok_def list_all_iff is_scalar_def)

lemma dec_nat_text [simp]: "text_ok (dec_nat n)"
  using dec_nat_digits [of n] by (auto simp: text_ok_def list_all_iff is_digit_def is_scalar_def)

lemma text_ok_append [simp]: "text_ok (a @ b) \<longleftrightarrow> text_ok a \<and> text_ok b"
  by (simp add: text_ok_def)

end
