(* ===== verification/EvidenceFiles.thy ===== *)
theory EvidenceFiles
  imports PyFs JsonRound
begin

text \<open>
  The evidence primitives of \<open>scripts/verify-final-crown.py\<close>: the digest of a
  file read in chunks, the canonical hash of a JSON document, containment of an
  evidence path in the evidence root, and the check of a file against the digest
  its manifest entry states. An accepted file has exactly the bytes that were
  promised, up to collisions of the hash; where it lies is shown in \<open>CrownProps\<close>.
\<close>

section \<open>Refusals\<close>

text \<open>
  One constructor for each \<open>fail(...)\<close> of the script, with the values its
  message shows, grouped by the function that raises it; \<open>Interp\<close> is an
  exception raised by the interpreter or the library, which \<open>main\<close> catches as
  well.
\<close>

datatype evidence_error =
    PathEscapesRoot str
  | MissingEvidenceFile str
  | InvalidManifest str
  | DigestMismatch str str str
  | NotAnObject str

datatype identity_error =
    InvalidSourceSha
  | InvalidTreeSha
  | SourceMismatch str str
  | TreeMismatch str str
  | SourceNotAdmitted str
  | TreeNotAdmitted str

datatype powl_error =
    MissingPowl
  | PowlNotProven str
  | PowlCorpusTooSmall
  | PowlSampleTooSmall

datatype rail_error =
    RailSetMismatch
  | RailNotAlive str
  | RailLacksManifests str
  | RailHashMismatch str
  | RailBytesNotAlive str
  | MissingGroups
  | InvalidGroup
  | GroupWithoutRails
  | GroupUnknownRail
  | DifferentialMismatch "json option"

datatype command_error =
    MissingCommands
  | CommandExit nat
  | CommandWithoutLog nat
  | CommandWithoutIdentity nat

datatype replay_error =
    MissingReplays
  | InvalidReplay nat
  | ReplayNotChainMatch nat
  | ReplayGrantsRetry nat

datatype topology_error =
    MissingGlobal
  | GlobalNotProven str
  | TooFewAttestations
  | InvalidTopology nat
  | AttestationLacks nat str
  | AttestationWrongSource nat
  | TooFewHosts
  | TooFewRegions
  | TooFewDomains
  | TooFewFingerprints

datatype sabotage_error =
    MissingSabotage
  | SabotageMissing "str list"
  | SabotageSurvived "str list"

datatype crown_error =
    Interp exn
  | Evidence evidence_error
  | Identity identity_error
  | Powl powl_error
  | Rails rail_error
  | Commands command_error
  | Replays replay_error
  | Topology topology_error
  | Sabotage sabotage_error
  | CrownNotObject
  | EvidenceHashMismatch

type_synonym 'a verdict = "crown_error + 'a"

text \<open>An interpreter exception inside the verifier.\<close>

definition lift :: "'a res \<Rightarrow> 'a verdict" where
  "lift r = (case r of Inl e \<Rightarrow> Inl (Interp e) | Inr x \<Rightarrow> Inr x)"

lemma lift_Inr_iff [res_dest]: "lift r = Inr x \<longleftrightarrow> r = Inr x"
  by (auto simp: lift_def split: sum.splits)

lemma lift_simps [simp]: "lift (Inr x) = Inr x" "lift (Inl e) = Inl (Interp e)"
  by (simp_all add: lift_def)

section \<open>Digests\<close>

definition sha256_bytes :: "bytes \<Rightarrow> str" where
  "sha256_bytes data = sha256_hex data"

text \<open>The chunks \<open>iter(lambda: f.read(n), b"")\<close> yields.\<close>

function read_chunks :: "nat \<Rightarrow> bytes \<Rightarrow> bytes list" where
  "read_chunks n bs =
     (if bs = [] \<or> n = 0 then [] else take n bs # read_chunks n (drop n bs))"
  by pat_completeness auto
termination
  by (relation "measure (\<lambda>(n, bs). length bs)") auto

declare read_chunks.simps [simp del]

lemma concat_read_chunks: "0 < n \<Longrightarrow> concat (read_chunks n bs) = bs"
proof (induction n bs rule: read_chunks.induct)
  case (1 n bs)
  then show ?case by (subst read_chunks.simps) auto
qed

lemma read_chunks_length: "c \<in> set (read_chunks n bs) \<Longrightarrow> c \<noteq> [] \<and> length c \<le> n"
proof (induction n bs rule: read_chunks.induct)
  case (1 n bs)
  then show ?case by (subst (asm) read_chunks.simps) (auto split: if_splits)
qed

definition chunk_size :: nat where
  "chunk_size = 1024 * 1024"

definition sha256_stream :: "bytes \<Rightarrow> str" where
  "sha256_stream content =
     sha_hexdigest (foldl sha_update sha_new (read_chunks chunk_size content))"

definition sha256_file :: "fs \<Rightarrow> path \<Rightarrow> str res" where
  "sha256_file fs p =
     ebind (read_bytes fs p) (\<lambda>bs. Inr (sha256_stream bs))"

lemma sha256_stream_eq: "sha256_stream content = sha256_bytes content"
proof -
  have "0 < chunk_size" by (simp add: chunk_size_def)
  then show ?thesis
    by (simp only: sha256_stream_def sha256_bytes_def sha.digest_chunks concat_read_chunks)
qed

text \<open>
  The loop itself, on an open file of which \<open>rest\<close> has not been read: it ends when
  a read returns nothing. It may run forever as far as its text goes, so not
  returning is \<open>None\<close>; the number of reads is counted.
\<close>

partial_function (option) hash_loop :: "nat \<Rightarrow> sha_ctx \<Rightarrow> bytes \<Rightarrow> (nat \<times> sha_ctx) option" where
  "hash_loop reads h rest =
     (let chunk = take chunk_size rest; rest = drop chunk_size rest in
      if chunk = [] then Some (Suc reads, h)
      else hash_loop (Suc reads) (sha_update h chunk) rest)"

lemma hash_loop_chunks:
  "n = chunk_size \<Longrightarrow> hash_loop reads h rest
    = Some (reads + Suc (length (read_chunks n rest)), foldl sha_update h (read_chunks n rest))"
proof (induction n rest arbitrary: reads h rule: read_chunks.induct)
  case (1 n bs)
  have pos: "0 < chunk_size" by (simp add: chunk_size_def)
  show ?case
  proof (cases "bs = []")
    case True
    then show ?thesis by (subst hash_loop.simps) (simp add: read_chunks.simps)
  next
    case False
    then have "take chunk_size bs \<noteq> []" using pos by auto
    then have "hash_loop reads h bs = hash_loop (Suc reads) (sha_update h (take chunk_size bs)) (drop chunk_size bs)"
      by (subst hash_loop.simps) (simp add: Let_def)
    with 1 False pos show ?thesis by (simp add: read_chunks.simps [of chunk_size bs])
  qed
qed

lemma length_read_chunks: "0 < n \<Longrightarrow> length (read_chunks n bs) = (length bs + n - 1) div n"
proof (induction n bs rule: read_chunks.induct)
  case (1 n bs)
  show ?case
  proof (cases "bs = []")
    case True
    with 1(2) show ?thesis by (simp add: read_chunks.simps)
  next
    case False
    have "length (read_chunks n bs) = Suc ((length bs - n + n - 1) div n)"
      using 1 False by (simp add: read_chunks.simps [of n bs])
    also have "\<dots> = (length bs + n - 1) div n"
    proof (cases "length bs \<le> n")
      case True
      with False 1(2) have e: "length bs + n - 1 = n + (length bs - 1)" "length bs - 1 < n" by (cases bs; simp)+
      have "(n + (length bs - 1)) div n = Suc ((length bs - 1) div n)"
        using 1(2) div_add_self1 [of n "length bs - 1"] by simp
      with True 1(2) e show ?thesis by simp
    next
      case l: False
      then have e: "length bs + n - 1 = n + (length bs - n + n - 1)" using 1(2) by simp
      have "(n + (length bs - n + n - 1)) div n = Suc ((length bs - n + n - 1) div n)"
        using 1(2) div_add_self1 [of n "length bs - n + n - 1"] by simp
      with e show ?thesis by simp
    qed
    finally show ?thesis .
  qed
qed

lemma sha256_file_read [simp]:
  "read_bytes fs p = Inr bs \<Longrightarrow> sha256_file fs p = Inr (sha256_bytes bs)"
  by (simp add: sha256_file_def sha256_stream_eq)

definition canonical_hash :: "json \<Rightarrow> str res" where
  "canonical_hash v =
     ebind (utf8_encode (dumps compact_utf8 v)) (\<lambda>payload. Inr (sha256_bytes payload))"

text \<open>The canonical hash does not see the order of keys.\<close>

lemma canonical_hash_sorted: "sort_json v = sort_json w \<Longrightarrow> canonical_hash v = canonical_hash w"
  by (simp add: canonical_hash_def dumps_def)

text \<open>A digest is plain text.\<close>

lemma text_ok_hex [simp]: "text_ok (sha256_bytes bs)"
  using sha256_hex_lower [of _ bs]
  by (fastforce simp: text_ok_def list_all_iff is_scalar_def sha256_bytes_def is_hex_lower_def)

text \<open>
  The bytes the canonical hash digests, and a collision of two byte strings.
\<close>

definition canonical_payload :: "json \<Rightarrow> bytes" where
  "canonical_payload v = (case utf8_encode (dumps compact_utf8 v) of Inl _ \<Rightarrow> [] | Inr payload \<Rightarrow> payload)"

definition sha256_collision :: "bytes \<Rightarrow> bytes \<Rightarrow> bool" where
  "sha256_collision a b \<longleftrightarrow> a \<noteq> b \<and> sha256_bytes a = sha256_bytes b"

text \<open>
  Equal canonical hashes: the documents are equal up to the order of keys, or
  their payloads, these two byte strings, collide.
\<close>

lemma canonical_hash_eq:
  assumes "canonical_hash v = Inr h" "canonical_hash w = Inr h" "json_ok v" "json_ok w"
  shows "sort_json v = sort_json w \<or> sha256_collision (canonical_payload v) (canonical_payload w)"
proof -
  from assms obtain a b where a: "utf8_encode (dumps compact_utf8 v) = Inr a" "sha256_bytes a = h"
    and b: "utf8_encode (dumps compact_utf8 w) = Inr b" "sha256_bytes b = h"
    by (auto simp: canonical_hash_def ebind_Inr_iff)
  have pay: "canonical_payload v = a" "canonical_payload w = b"
    using a b by (simp_all add: canonical_payload_def)
  show ?thesis
  proof (cases "a = b")
    case True
    then have "dumps compact_utf8 v = dumps compact_utf8 w"
      using utf8_decode_encode [OF a(1)] utf8_decode_encode [OF b(1)] by simp
    then show ?thesis using assms(3,4) compact_utf8_json.encode_eq_iff by blast
  next
    case False
    with a(2) b(2) pay show ?thesis by (simp add: sha256_collision_def)
  qed
qed

section \<open>Evidence files\<close>

definition within :: "fs \<Rightarrow> path \<Rightarrow> str \<Rightarrow> path verdict" where
  "within fs root raw =
     ebind (lift (resolve fs (join_path root raw))) (\<lambda>path.
     ebind (lift (resolve fs root)) (\<lambda>base.
     if \<not> relative_to path base then Inl (Evidence (PathEscapesRoot raw))
     else if \<not> is_file fs path then Inl (Evidence (MissingEvidenceFile raw))
     else Inr path))"

definition verify_file :: "fs \<Rightarrow> path \<Rightarrow> json dict \<Rightarrow> str \<Rightarrow> path verdict" where
  "verify_file fs root entry label =
     (case (map_of entry (lit ''path''), map_of entry (lit ''sha256'')) of
        (Some (JStr raw), Some (JStr expected)) \<Rightarrow>
          if length expected \<noteq> 64 then Inl (Evidence (InvalidManifest label))
          else
            ebind (within fs root raw) (\<lambda>path.
            ebind (lift (sha256_file fs path)) (\<lambda>observed.
            if observed \<noteq> expected then Inl (Evidence (DigestMismatch label expected observed))
            else Inr path))
      | _ \<Rightarrow> Inl (Evidence (InvalidManifest label)))"

definition load_json_file :: "fs \<Rightarrow> path \<Rightarrow> json res" where
  "load_json_file fs path =
     ebind (read_path_text fs path) loads"

definition load_verified_json :: "fs \<Rightarrow> path \<Rightarrow> json dict \<Rightarrow> str \<Rightarrow> json dict verdict" where
  "load_verified_json fs root entry label =
     ebind (verify_file fs root entry label) (\<lambda>path.
     ebind (lift (load_json_file fs path)) (\<lambda>v.
     of_option (Evidence (NotAnObject label)) (the_obj v)))"

text \<open>What an accepted path is.\<close>

lemma within_Inr:
  assumes "within fs root raw = Inr path"
  obtains base bs where "resolve fs (join_path root raw) = Inr path" "resolve fs root = Inr base"
    "relative_to path base" "read_bytes fs path = Inr bs"
  using assms by (auto simp: within_def is_file_iff ebind_Inr_iff lift_Inr_iff split: if_splits)

lemma within_plain:
  assumes "canonical fs (root @ path_parts raw)" "\<not> is_absolute raw"
    "read_bytes fs (root @ path_parts raw) = Inr bs"
  shows "within fs root raw = Inr (root @ path_parts raw)"
proof -
  have "canonical fs root"
    using canonical_take [OF assms(1), of "length root"] by simp
  with assms show ?thesis
    by (simp add: within_def is_file_iff join_path_def resolve_plain relative_to_def)
qed

text \<open>An entry's file is accepted exactly when its digest is the one promised.\<close>

lemma verify_file_Inr:
  assumes "verify_file fs root entry label = Inr path"
  obtains raw bs where "map_of entry (lit ''path'') = Some (JStr raw)"
    "within fs root raw = Inr path" "read_bytes fs path = Inr bs"
    "map_of entry (lit ''sha256'') = Some (JStr (sha256_bytes bs))"
proof -
  from assms obtain raw expected where
    e: "map_of entry (lit ''path'') = Some (JStr raw)" "map_of entry (lit ''sha256'') = Some (JStr expected)"
    by (auto simp: verify_file_def split: option.splits json.splits)
  with assms have w: "within fs root raw = Inr path" "sha256_file fs path = Inr expected"
    by (auto simp: verify_file_def ebind_Inr_iff lift_Inr_iff split: if_splits)
  from w(1) obtain bs where bs: "read_bytes fs path = Inr bs" by (rule within_Inr)
  with w(2) e(2) show thesis by (intro that [OF e(1) w(1) bs]) simp
qed

lemma verify_file_intro:
  assumes "map_of entry (lit ''path'') = Some (JStr raw)"
    "map_of entry (lit ''sha256'') = Some (JStr (sha256_bytes bs))"
    "within fs root raw = Inr path" "read_bytes fs path = Inr bs"
  shows "verify_file fs root entry label = Inr path"
  using assms by (simp add: verify_file_def sha256_bytes_def)

end
