(* ===== verification/Crown.thy ===== *)
theory Crown
  imports EvidenceFiles
begin

text \<open>
  \<open>scripts/verify-final-crown.py\<close>, the independent verifier of a release crown:
  its courts (identity, POWL, rails, commands, replays, topology, sabotage), the
  evidence hash, and \<open>main\<close>. \<open>git\<close> is a parameter: the standard output of the
  command with the given arguments, or the exception of a failed call. The file
  system does not change while the verifier reads it.
\<close>

definition REQUIRED_RAILS :: "str list" where
  "REQUIRED_RAILS = [lit ''beam'', lit ''ex4pm_plan'', lit ''wasm'', lit ''nif'', lit ''remote'']"

definition REQUIRED_SABOTAGE :: "str list" where
  "REQUIRED_SABOTAGE = map lit
     [''source_mutation'', ''tree_mutation'', ''subject_hash_mutation'', ''result_mutation'',
      ''receipt_mutation'', ''replay_mutation'', ''unreceipted_do'', ''unauthorized_retry'',
      ''wasm_artifact_mutation'', ''nif_artifact_mutation'', ''oci_image_mutation'',
      ''certificate_mutation'', ''erts_mutation'', ''powl_extra_trace'', ''powl_missing_trace'',
      ''powl_wrong_order'', ''powl_duplicate_identity'', ''distributed_identity_mutation'',
      ''ci_subject_mutation'']"

type_synonym git = "str list \<Rightarrow> str res"

definition git_output :: "git \<Rightarrow> str list \<Rightarrow> str verdict" where
  "git_output git args = lift (ebind (git args) (\<lambda>out. Inr (strip out)))"

section \<open>Identity\<close>

definition text_of_length :: "nat \<Rightarrow> json option \<Rightarrow> str option" where
  "text_of_length n v =
     (case v of Some (JStr s) \<Rightarrow> if length s = n then Some s else None | _ \<Rightarrow> None)"

lemma text_of_length_Some [simp]: "text_of_length n v = Some s \<longleftrightarrow> v = Some (JStr s) \<and> length s = n"
  by (auto simp: text_of_length_def split: option.splits json.splits)

text \<open>\<open>if expected and actual != expected\<close>.\<close>

definition differs :: "str option \<Rightarrow> str \<Rightarrow> bool" where
  "differs expected actual =
     (case expected of None \<Rightarrow> False | Some e \<Rightarrow> e \<noteq> [] \<and> actual \<noteq> e)"

definition verify_identity ::
  "git \<Rightarrow> json dict \<Rightarrow> str option \<Rightarrow> str option \<Rightarrow> (str \<times> str) verdict" where
  "verify_identity git crown expected_source expected_tree =
     ebind (of_option (Identity InvalidSourceSha) (text_of_length 40 (fld crown ''source_sha''))) (\<lambda>source.
     ebind (of_option (Identity InvalidTreeSha) (text_of_length 40 (fld crown ''tree_sha''))) (\<lambda>tree.
     ebind (git_output git [lit ''rev-parse'', lit ''HEAD'']) (\<lambda>observed_source.
     ebind (git_output git [lit ''rev-parse'', lit ''HEAD^{tree}'']) (\<lambda>observed_tree.
     if source \<noteq> observed_source then Inl (Identity (SourceMismatch source observed_source))
     else if tree \<noteq> observed_tree then Inl (Identity (TreeMismatch tree observed_tree))
     else if differs expected_source source
       then Inl (Identity (SourceNotAdmitted (the expected_source)))
     else if differs expected_tree tree
       then Inl (Identity (TreeNotAdmitted (the expected_tree)))
     else Inr (source, tree)))))"

section \<open>POWL\<close>

definition powl_fields :: "str list" where
  "powl_fields = map lit
     [''soundness'', ''completeness'', ''correspondence'', ''compiler_refinement'', ''formal_proof'']"

text \<open>\<open>for field in fields: if d.get(field) is not True: fail(...)\<close>\<close>

definition require_true :: "(str \<Rightarrow> crown_error) \<Rightarrow> str list \<Rightarrow> json dict \<Rightarrow> unit verdict" where
  "require_true err required d =
     efold (\<lambda>_ field. if map_of d field \<noteq> Some (JBool True) then Inl (err field) else Inr ()) () required"

definition verify_powl :: "json dict \<Rightarrow> json dict verdict" where
  "verify_powl crown =
     ebind (of_option (Powl MissingPowl) (obj_field crown ''powl'')) (\<lambda>powl.
     ebind (require_true (\<lambda>field. Powl (PowlNotProven field)) powl_fields powl) (\<lambda>_.
     ebind (lift (int_of_json (get_or powl (lit ''generated_cases'') (JInt 0)))) (\<lambda>cases.
     if cases < 2048 then Inl (Powl PowlCorpusTooSmall)
     else
       ebind (lift (int_of_json (get_or powl (lit ''reactor_samples'') (JInt 0)))) (\<lambda>samples.
       if samples < 64 then Inl (Powl PowlSampleTooSmall)
       else Inr powl))))"

section \<open>Rails\<close>

text \<open>The body of the loop over the rails: the hash of the rail's verified result.\<close>

definition verify_rail ::
  "fs \<Rightarrow> path \<Rightarrow> json dict \<Rightarrow> str dict \<Rightarrow> str \<Rightarrow> str dict verdict" where
  "verify_rail fs root rails result_hashes rail =
     ebind (of_option (Rails (RailNotAlive rail)) (Option.bind (map_of rails rail) the_obj)) (\<lambda>entry.
     if fld entry ''standing'' \<noteq> Some (JStr (lit ''ALIVE'')) then Inl (Rails (RailNotAlive rail))
     else
     ebind (of_option (Rails (RailLacksManifests rail)) (obj_field entry ''artifact'')) (\<lambda>artifact.
     ebind (of_option (Rails (RailLacksManifests rail)) (obj_field entry ''result'')) (\<lambda>result.
     ebind (verify_file fs root artifact (lit ''rail '' @ rail @ lit '' artifact'')) (\<lambda>_.
     ebind (load_verified_json fs root result (lit ''rail '' @ rail @ lit '' result'')) (\<lambda>result_json.
     ebind (lift (canonical_hash (JObj result_json))) (\<lambda>observed_hash.
     if fld entry ''result_hash'' \<noteq> Some (JStr observed_hash)
       then Inl (Rails (RailHashMismatch rail))
     else if fld result_json ''standing'' \<noteq> Some (JStr (lit ''ALIVE''))
       then Inl (Rails (RailBytesNotAlive rail))
     else Inr (AList.update rail observed_hash result_hashes)))))))"

text \<open>\<open>m in result_hashes\<close> and \<open>result_hashes[m]\<close>; a list or a dictionary cannot be hashed.\<close>

definition member_hash :: "str dict \<Rightarrow> json \<Rightarrow> str option verdict" where
  "member_hash result_hashes m =
     (case m of
        JStr s \<Rightarrow> Inr (map_of result_hashes s)
      | JArr _ \<Rightarrow> Inl (Interp TypeError)
      | JObj _ \<Rightarrow> Inl (Interp TypeError)
      | _ \<Rightarrow> Inr None)"

definition verify_group :: "str dict \<Rightarrow> json \<Rightarrow> unit verdict" where
  "verify_group result_hashes grp =
     ebind (of_option (Rails InvalidGroup) (the_obj grp)) (\<lambda>g.
     ebind (of_option (Rails GroupWithoutRails) (arr_field g ''rails'')) (\<lambda>members.
     if members = [] then Inl (Rails GroupWithoutRails)
     else
     ebind (emap (member_hash result_hashes) members) (\<lambda>found.
     let hashes = map the (filter (\<lambda>h. h \<noteq> None) found) in
     if length hashes \<noteq> length members then Inl (Rails GroupUnknownRail)
     else if length (remdups hashes) \<noteq> 1
       then Inl (Rails (DifferentialMismatch (fld g ''operation'')))
     else Inr ())))"

definition verify_rails :: "fs \<Rightarrow> path \<Rightarrow> json dict \<Rightarrow> str dict verdict" where
  "verify_rails fs root crown =
     ebind (of_option (Rails RailSetMismatch) (obj_field crown ''rails'')) (\<lambda>rails.
     if set (keys rails) \<noteq> set REQUIRED_RAILS then Inl (Rails RailSetMismatch)
     else
     ebind (efold (verify_rail fs root rails) [] (sort REQUIRED_RAILS)) (\<lambda>result_hashes.
     ebind (of_option (Rails MissingGroups) (arr_field crown ''rail_differential_groups'')) (\<lambda>groups.
     if groups = [] then Inl (Rails MissingGroups)
     else
     ebind (efold (\<lambda>_ g. verify_group result_hashes g) () groups) (\<lambda>_.
     Inr result_hashes))))"

section \<open>Commands and replays\<close>

text \<open>\<open>entry.get("exit") != 0\<close>, negated: Python's equality with zero.\<close>

definition exit_zero :: "json dict \<Rightarrow> bool" where
  "exit_zero e = (case fld e ''exit'' of None \<Rightarrow> False | Some x \<Rightarrow> equals_zero x)"

lemma exit_zero_iff: "exit_zero e \<longleftrightarrow> (\<exists>x. fld e ''exit'' = Some x \<and> equals_zero x)"
  by (simp add: exit_zero_def split: option.splits)

text \<open>\<open>isinstance(s, str) and s\<close>, with the text when it holds.\<close>

definition nonempty_text :: "json option \<Rightarrow> str option" where
  "nonempty_text v = (case v of Some (JStr s) \<Rightarrow> if s = [] then None else Some s | _ \<Rightarrow> None)"

lemma nonempty_text_Some [simp]: "nonempty_text v = Some s \<longleftrightarrow> v = Some (JStr s) \<and> s \<noteq> []"
  by (auto simp: nonempty_text_def split: option.splits json.splits)

definition verify_command ::
  "fs \<Rightarrow> path \<Rightarrow> str list \<Rightarrow> nat \<times> json \<Rightarrow> str list verdict" where
  "verify_command fs root verified item =
     (case item of (index, entry) \<Rightarrow>
       ebind (of_option (Commands (CommandExit index)) (the_obj entry)) (\<lambda>e.
       if \<not> exit_zero e then Inl (Commands (CommandExit index))
       else
       ebind (of_option (Commands (CommandWithoutLog index)) (obj_field e ''log'')) (\<lambda>log.
       ebind (verify_file fs root log (lit ''command '' @ dec_nat index @ lit '' log'')) (\<lambda>_.
       ebind (of_option (Commands (CommandWithoutIdentity index)) (nonempty_text (fld e ''command''))) (\<lambda>command.
       Inr (verified @ [command]))))))"

definition verify_commands :: "fs \<Rightarrow> path \<Rightarrow> json dict \<Rightarrow> str list verdict" where
  "verify_commands fs root crown =
     ebind (of_option (Commands MissingCommands) (arr_field crown ''commands'')) (\<lambda>commands.
     if commands = [] then Inl (Commands MissingCommands)
     else efold (verify_command fs root) [] (enumerate 0 commands))"

definition verify_replay :: "fs \<Rightarrow> path \<Rightarrow> nat \<times> json \<Rightarrow> unit verdict" where
  "verify_replay fs root item =
     (case item of (index, entry) \<Rightarrow>
       ebind (of_option (Replays (InvalidReplay index)) (the_obj entry)) (\<lambda>e.
       ebind (load_verified_json fs root e (lit ''receipt replay '' @ dec_nat index)) (\<lambda>evidence.
       if fld evidence ''replay'' \<noteq> Some (JStr (lit ''chain_match''))
         then Inl (Replays (ReplayNotChainMatch index))
       else if fld evidence ''retry_authority'' \<notin> {None, Some JNull, Some (JStr (lit ''none''))}
         then Inl (Replays (ReplayGrantsRetry index))
       else Inr ())))"

definition verify_receipts :: "fs \<Rightarrow> path \<Rightarrow> json dict \<Rightarrow> nat verdict" where
  "verify_receipts fs root crown =
     ebind (of_option (Replays MissingReplays) (arr_field crown ''receipt_replays'')) (\<lambda>receipts.
     if receipts = [] then Inl (Replays MissingReplays)
     else
     ebind (efold (\<lambda>_ item. verify_replay fs root item) () (enumerate 0 receipts)) (\<lambda>_.
     Inr (length receipts)))"

section \<open>Topology\<close>

record topology =
  hosts :: "str list"
  regions :: "str list"
  domains :: "str list"
  fingerprints :: "str list"
  providers :: "str list"

definition empty_topology :: topology where
  "empty_topology = \<lparr>hosts = [], regions = [], domains = [], fingerprints = [], providers = []\<rparr>"

definition global_fields :: "str list" where
  "global_fields = map lit
     [''tls_verified'', ''pre_do_refusal'', ''during_do_ambiguous'', ''no_duplicate_do'',
      ''mixed_version_refused'', ''clock_skew_safe'']"

definition attestation_keys :: "str list" where
  "attestation_keys = map lit
     [''provider'', ''host_id'', ''region'', ''fault_domain'', ''release_digest'', ''cert_fingerprint'']"

text \<open>\<open>att[key]\<close> as text, once it has been required to be a non-empty string.\<close>

definition text_at :: "json dict \<Rightarrow> str \<Rightarrow> str" where
  "text_at att key = (case map_of att key of Some (JStr s) \<Rightarrow> s | _ \<Rightarrow> [])"

definition require_texts :: "(str \<Rightarrow> crown_error) \<Rightarrow> str list \<Rightarrow> json dict \<Rightarrow> unit verdict" where
  "require_texts err required att =
     efold (\<lambda>_ key. if text_at att key = [] then Inl (err key) else Inr ()) () required"

definition add_attestation :: "json dict \<Rightarrow> topology \<Rightarrow> topology" where
  "add_attestation att t =
     \<lparr>hosts = List.insert (text_at att (lit ''host_id'')) (hosts t),
      regions = List.insert (text_at att (lit ''region'')) (regions t),
      domains = List.insert (text_at att (lit ''fault_domain'')) (domains t),
      fingerprints = List.insert (text_at att (lit ''cert_fingerprint'')) (fingerprints t),
      providers = List.insert (text_at att (lit ''provider'')) (providers t)\<rparr>"

definition verify_attestation ::
  "fs \<Rightarrow> path \<Rightarrow> str \<Rightarrow> topology \<Rightarrow> nat \<times> json \<Rightarrow> topology verdict" where
  "verify_attestation fs root source_sha t item =
     (case item of (index, manifest) \<Rightarrow>
       ebind (of_option (Topology (InvalidTopology index)) (the_obj manifest)) (\<lambda>m.
       ebind (load_verified_json fs root m (lit ''topology attestation '' @ dec_nat index)) (\<lambda>att.
       ebind (require_texts (\<lambda>key. Topology (AttestationLacks index key)) attestation_keys att) (\<lambda>_.
       if fld att ''source_sha'' \<noteq> Some (JStr source_sha)
         then Inl (Topology (AttestationWrongSource index))
       else Inr (add_attestation att t)))))"

definition verify_global :: "fs \<Rightarrow> path \<Rightarrow> json dict \<Rightarrow> str \<Rightarrow> topology verdict" where
  "verify_global fs root crown source_sha =
     ebind (of_option (Topology MissingGlobal) (obj_field crown ''global'')) (\<lambda>global_evidence.
     ebind (require_true (\<lambda>field. Topology (GlobalNotProven field)) global_fields global_evidence) (\<lambda>_.
     ebind (of_option (Topology TooFewAttestations) (arr_field global_evidence ''attestations'')) (\<lambda>manifests.
     if length manifests < 5 then Inl (Topology TooFewAttestations)
     else
     ebind (efold (verify_attestation fs root source_sha) empty_topology (enumerate 0 manifests)) (\<lambda>t.
     if length (hosts t) < 5 then Inl (Topology TooFewHosts)
     else if length (regions t) < 2 then Inl (Topology TooFewRegions)
     else if length (domains t) < 3 then Inl (Topology TooFewDomains)
     else if length (fingerprints t) < 5 then Inl (Topology TooFewFingerprints)
     else Inr t))))"

section \<open>Sabotage\<close>

definition verify_sabotage :: "json dict \<Rightarrow> nat verdict" where
  "verify_sabotage crown =
     ebind (of_option (Sabotage MissingSabotage) (obj_field crown ''sabotage'')) (\<lambda>sabotage.
     let missing = filter (\<lambda>name. name \<notin> set (keys sabotage)) REQUIRED_SABOTAGE in
     if missing \<noteq> [] then Inl (Sabotage (SabotageMissing (sort missing)))
     else
       let survived = sort (map fst (filter (\<lambda>p. snd p \<noteq> JStr (lit ''DETECTED'')) sabotage)) in
       if survived \<noteq> [] then Inl (Sabotage (SabotageSurvived survived))
       else Inr (length sabotage))"

section \<open>The crown\<close>

text \<open>The evidence the hash covers: the crown without its standing and its own hash.\<close>

definition unsigned_crown :: "json dict \<Rightarrow> json dict" where
  "unsigned_crown crown = AList.delete (lit ''evidence_hash'') (AList.delete (lit ''standing'') crown)"

definition rails_result :: "str dict \<Rightarrow> json" where
  "rails_result result_hashes =
     JObj [(lit ''rails'', JArr (map JStr (sort (keys result_hashes)))),
           (lit ''result_hashes'', JObj (map (map_prod id JStr) result_hashes))]"

definition global_result :: "topology \<Rightarrow> json" where
  "global_result t =
     JObj [(lit ''hosts'', JInt (int (length (hosts t)))),
           (lit ''regions'', JArr (map JStr (sort (regions t)))),
           (lit ''fault_domains'', JArr (map JStr (sort (domains t)))),
           (lit ''providers'', JArr (map JStr (sort (providers t))))]"

definition verify_crown ::
  "git \<Rightarrow> fs \<Rightarrow> path \<Rightarrow> json dict \<Rightarrow> str option \<Rightarrow> str option \<Rightarrow> json verdict" where
  "verify_crown git fs root crown expected_source expected_tree =
     ebind (verify_identity git crown expected_source expected_tree) (\<lambda>(source, tree).
     ebind (verify_powl crown) (\<lambda>powl.
     ebind (verify_rails fs root crown) (\<lambda>rails.
     ebind (verify_commands fs root crown) (\<lambda>commands.
     ebind (verify_receipts fs root crown) (\<lambda>replays.
     ebind (verify_global fs root crown source) (\<lambda>t.
     ebind (verify_sabotage crown) (\<lambda>sabotage_cases.
     ebind (lift (canonical_hash (JObj (unsigned_crown crown)))) (\<lambda>observed_hash.
     if fld crown ''evidence_hash'' \<notin> {None, Some JNull, Some (JStr observed_hash)}
       then Inl EvidenceHashMismatch
     else
     ebind (of_option (Interp (KeyError (lit ''generated_cases''))) (fld powl ''generated_cases'')) (\<lambda>generated.
     ebind (lift (int_of_json generated)) (\<lambda>cases.
     Inr (JObj
       [(lit ''standing'', JStr (lit ''ALIVE'')),
        (lit ''source_sha'', JStr source),
        (lit ''tree_sha'', JStr tree),
        (lit ''evidence_hash'', JStr observed_hash),
        (lit ''powl_cases'', JInt cases),
        (lit ''rail_evidence'', rails_result rails),
        (lit ''commands'', JArr (map JStr commands)),
        (lit ''receipt_replays'', JInt (int replays)),
        (lit ''global'', global_result t),
        (lit ''sabotage_cases'', JInt (int sabotage_cases)),
        (lit ''verifier'', JStr (lit ''scripts/verify-final-crown.py''))])))))))))))"

definition verify ::
  "git \<Rightarrow> fs \<Rightarrow> path \<Rightarrow> path \<Rightarrow> str option \<Rightarrow> str option \<Rightarrow> json verdict" where
  "verify git fs crown_path root expected_source expected_tree =
     ebind (lift (load_json_file fs crown_path)) (\<lambda>v.
     ebind (of_option CrownNotObject (the_obj v)) (\<lambda>crown.
     verify_crown git fs root crown expected_source expected_tree))"

section \<open>The command\<close>

text \<open>
  What a run leaves: the exit code, the standard output, the refusal or the
  uncaught exception, and the file system.
\<close>

record crown_args =
  crown_arg :: str
  evidence_root_arg :: str
  expected_source_arg :: "str option"
  expected_tree_arg :: "str option"
  output_arg :: "str option"

record crown_run =
  exit_code :: nat
  stdout :: str
  refused :: "crown_error option"
  fs_after :: fs

definition crown_refused :: "fs \<Rightarrow> crown_error \<Rightarrow> crown_run" where
  "crown_refused fs e = \<lparr>exit_code = 1, stdout = [], refused = Some e, fs_after = fs\<rparr>"

definition crown_alive :: "fs \<Rightarrow> str \<Rightarrow> crown_run" where
  "crown_alive fs rendered = \<lparr>exit_code = 0, stdout = rendered, refused = None, fs_after = fs\<rparr>"

definition crown_main :: "git \<Rightarrow> fs \<Rightarrow> path \<Rightarrow> crown_args \<Rightarrow> crown_run" where
  "crown_main git fs cwd args =
     (case ebind (lift (resolve fs (join_path cwd (crown_arg args)))) (\<lambda>crown_path.
           ebind (lift (resolve fs (join_path cwd (evidence_root_arg args)))) (\<lambda>root.
           verify git fs crown_path root (expected_source_arg args) (expected_tree_arg args))) of
        Inl e \<Rightarrow> crown_refused fs e
      | Inr result \<Rightarrow>
          (let rendered = dumps indented result @ [10] in
           case output_arg args of
             None \<Rightarrow> crown_alive fs rendered
           | Some out \<Rightarrow>
               if out = [] then crown_alive fs rendered
               else
                 (case ebind (write_text rendered) (write_file fs (join_path cwd out)) of
                    Inl e \<Rightarrow> crown_refused fs (Interp e)
                  | Inr fs' \<Rightarrow> crown_alive fs' rendered)))"

end
