(* ===== verification/CrownCourts.thy ===== *)
theory CrownCourts
  imports Crown
begin

text \<open>
  What each court of the crown verifier accepts, as an equivalence with a
  condition on the crown and the evidence files that does not mention the order
  of the checks or the labels of their messages.
\<close>

section \<open>Evidence, declaratively\<close>

text \<open>
  A manifest entry attests bytes: its path is one \<open>within\<close> accepts under the root,
  and its digest is that of the bytes read there.
\<close>

definition attests :: "fs \<Rightarrow> path \<Rightarrow> json dict \<Rightarrow> bytes \<Rightarrow> bool" where
  "attests fs root entry bs \<longleftrightarrow>
     (\<exists>raw path. fld entry ''path'' = Some (JStr raw) \<and> within fs root raw = Inr path
        \<and> read_bytes fs path = Inr bs
        \<and> fld entry ''sha256'' = Some (JStr (sha256_bytes bs)))"

definition attests_json :: "fs \<Rightarrow> path \<Rightarrow> json dict \<Rightarrow> json dict \<Rightarrow> bool" where
  "attests_json fs root entry d \<longleftrightarrow>
     (\<exists>bs. attests fs root entry bs \<and> ebind (read_text bs) loads = Inr (JObj d))"

lemma verify_file_ok_iff:
  "(\<exists>p. verify_file fs root entry label = Inr p) \<longleftrightarrow> (\<exists>bs. attests fs root entry bs)"
  unfolding attests_def by (meson verify_file_Inr verify_file_intro)

lemma load_verified_json_iff:
  "load_verified_json fs root entry label = Inr d \<longleftrightarrow> attests_json fs root entry d"
proof
  assume "load_verified_json fs root entry label = Inr d"
  then obtain path where p: "verify_file fs root entry label = Inr path"
    and l: "load_json_file fs path = Inr (JObj d)"
    by (auto simp: load_verified_json_def res_dest)
  from p obtain raw bs where *: "fld entry ''path'' = Some (JStr raw)" "within fs root raw = Inr path"
    "read_bytes fs path = Inr bs" "fld entry ''sha256'' = Some (JStr (sha256_bytes bs))"
    by (rule verify_file_Inr)
  with l have "ebind (read_text bs) loads = Inr (JObj d)" by (simp add: load_json_file_def read_path_text_def)
  with * show "attests_json fs root entry d" by (auto simp: attests_json_def attests_def)
next
  assume "attests_json fs root entry d"
  then obtain raw path bs where *: "fld entry ''path'' = Some (JStr raw)" "within fs root raw = Inr path"
    "read_bytes fs path = Inr bs" "fld entry ''sha256'' = Some (JStr (sha256_bytes bs))"
    "ebind (read_text bs) loads = Inr (JObj d)"
    by (auto simp: attests_json_def attests_def)
  from verify_file_intro [OF *(1,4,2,3)] *(3,5)
  show "load_verified_json fs root entry label = Inr d"
    by (simp add: load_verified_json_def load_json_file_def read_path_text_def)
qed

lemma attests_unique: "attests fs root entry a \<Longrightarrow> attests fs root entry b \<Longrightarrow> a = b"
  by (auto simp: attests_def)

lemma attests_json_unique: "attests_json fs root entry d \<Longrightarrow> attests_json fs root entry e \<Longrightarrow> d = e"
  using attests_unique by (fastforce simp: attests_json_def)

section \<open>Fields\<close>

lemma require_true_iff:
  "require_true err required d = Inr u \<longleftrightarrow> (\<forall>f\<in>set required. map_of d f = Some (JBool True))"
  by (auto simp: require_true_def efold_check_iff split: if_splits)

lemma require_texts_iff:
  "require_texts err required att = Inr u \<longleftrightarrow> (\<forall>k\<in>set required. text_at att k \<noteq> [])"
  by (auto simp: require_texts_def efold_check_iff split: if_splits)

section \<open>The courts\<close>

lemma verify_identity_iff:
  "verify_identity git crown es et = Inr (source, tree) \<longleftrightarrow>
     fld crown ''source_sha'' = Some (JStr source) \<and> length source = 40
     \<and> fld crown ''tree_sha'' = Some (JStr tree) \<and> length tree = 40
     \<and> git_output git [lit ''rev-parse'', lit ''HEAD''] = Inr source
     \<and> git_output git [lit ''rev-parse'', lit ''HEAD^{tree}''] = Inr tree
     \<and> \<not> differs es source \<and> \<not> differs et tree"
  by (auto simp: verify_identity_def res_dest)

lemma verify_powl_iff:
  "verify_powl crown = Inr powl \<longleftrightarrow>
     fld crown ''powl'' = Some (JObj powl) \<and> (\<forall>f\<in>set powl_fields. map_of powl f = Some (JBool True))
     \<and> (\<exists>n. int_of_json (get_or powl (lit ''generated_cases'') (JInt 0)) = Inr n \<and> 2048 \<le> n)
     \<and> (\<exists>n. int_of_json (get_or powl (lit ''reactor_samples'') (JInt 0)) = Inr n \<and> 64 \<le> n)"
  by (auto simp: verify_powl_def res_dest require_true_iff not_less)

text \<open>A rail is proved with a hash.\<close>

definition rail_proved :: "fs \<Rightarrow> path \<Rightarrow> json dict \<Rightarrow> str \<Rightarrow> str \<Rightarrow> bool" where
  "rail_proved fs root rails rail h \<longleftrightarrow>
     (\<exists>entry artifact result bs doc.
        map_of rails rail = Some (JObj entry)
        \<and> fld entry ''standing'' = Some (JStr (lit ''ALIVE''))
        \<and> fld entry ''artifact'' = Some (JObj artifact) \<and> fld entry ''result'' = Some (JObj result)
        \<and> attests fs root artifact bs \<and> attests_json fs root result doc
        \<and> canonical_hash (JObj doc) = Inr h \<and> fld entry ''result_hash'' = Some (JStr h)
        \<and> fld doc ''standing'' = Some (JStr (lit ''ALIVE'')))"

lemma verify_rail_iff:
  "verify_rail fs root rails acc rail = Inr acc' \<longleftrightarrow>
     (\<exists>h. rail_proved fs root rails rail h \<and> acc' = AList.update rail h acc)"
proof -
  have "verify_rail fs root rails acc rail = Inr acc' \<longleftrightarrow>
     (\<exists>entry artifact result p doc h.
        map_of rails rail = Some (JObj entry)
        \<and> fld entry ''standing'' = Some (JStr (lit ''ALIVE''))
        \<and> fld entry ''artifact'' = Some (JObj artifact) \<and> fld entry ''result'' = Some (JObj result)
        \<and> verify_file fs root artifact (lit ''rail '' @ rail @ lit '' artifact'') = Inr p
        \<and> attests_json fs root result doc
        \<and> canonical_hash (JObj doc) = Inr h \<and> fld entry ''result_hash'' = Some (JStr h)
        \<and> fld doc ''standing'' = Some (JStr (lit ''ALIVE''))
        \<and> acc' = AList.update rail h acc)"
    by (auto simp: verify_rail_def res_dest load_verified_json_iff bind_eq_Some_conv)
  also have "\<dots> \<longleftrightarrow> (\<exists>h. rail_proved fs root rails rail h \<and> acc' = AList.update rail h acc)"
    unfolding rail_proved_def using verify_file_ok_iff by blast
  finally show ?thesis .
qed

lemma rail_proved_unique: "rail_proved fs root rails rail h \<Longrightarrow> rail_proved fs root rails rail g \<Longrightarrow> h = g"
  using attests_json_unique by (fastforce simp: rail_proved_def)

text \<open>The table the loop over the rails builds.\<close>

lemma verify_rail_loop:
  assumes "efold (verify_rail fs root rails) acc rs = Inr table"
  shows "map_of table r = (if r \<in> set rs then map_of table r else map_of acc r)
    \<and> (r \<in> set rs \<longrightarrow> (\<exists>h. map_of table r = Some h \<and> rail_proved fs root rails r h))
    \<and> set (keys table) = set (keys acc) \<union> set rs"
  using assms
proof (induction rs arbitrary: acc)
  case Nil
  then show ?case by simp
next
  case (Cons x rs)
  then obtain h where h: "rail_proved fs root rails x h"
    and t: "efold (verify_rail fs root rails) (AList.update x h acc) rs = Inr table"
    by (auto simp: ebind_Inr_iff verify_rail_iff)
  from Cons.IH [OF t] h show ?case
    by (auto simp: update_conv' dom_update split: if_splits)
qed

lemma sorted_rails [simp]: "set (sort REQUIRED_RAILS) = set REQUIRED_RAILS"
  by simp

text \<open>A differential group passes when its rails are proved and share one hash.\<close>

lemma member_hash_Some: "member_hash table m = Inr (Some h) \<longleftrightarrow> (\<exists>s. m = JStr s \<and> map_of table s = Some h)"
  by (auto simp: member_hash_def split: json.splits)

lemma all_found:
  "length (map the (filter (\<lambda>h. h \<noteq> None) found)) = length members \<Longrightarrow> length found = length members
     \<Longrightarrow> \<forall>h\<in>set found. h \<noteq> None"
  by (metis (mono_tags, lifting) filter_False length_filter_less length_map less_irrefl)

lemma verify_group_iff:
  "verify_group table grp = Inr u \<longleftrightarrow>
     (\<exists>g members h. grp = JObj g \<and> fld g ''rails'' = Some (JArr members) \<and> members \<noteq> []
        \<and> (\<forall>m\<in>set members. \<exists>s. m = JStr s \<and> map_of table s = Some h))"
proof
  assume "verify_group table grp = Inr u"
  then obtain g members found where g: "grp = JObj g" "fld g ''rails'' = Some (JArr members)" "members \<noteq> []"
    and f: "emap (member_hash table) members = Inr found"
    and n: "length (map the (filter (\<lambda>h. h \<noteq> None) found)) = length members"
    and one: "length (remdups (map the (filter (\<lambda>h. h \<noteq> None) found))) = 1"
    by (auto simp: verify_group_def res_dest Let_def)
  have len: "length found = length members" using f by (rule emap_Inr_length)
  from all_found [OF n len] have all: "filter (\<lambda>h. h \<noteq> None) found = found" by (simp add: filter_id_conv)
  have "card (set (map the found)) = 1" using one by (simp only: all length_remdups_card_conv)
  then obtain h where h: "set (map the found) = {h}" by (rule card_1_singletonE)
  have "\<exists>s. m = JStr s \<and> map_of table s = Some h" if "m \<in> set members" for m
  proof -
    from that obtain i where i: "i < length members" "m = members ! i" by (auto simp: in_set_conv_nth)
    with len have x: "found ! i \<in> set found" by simp
    then obtain y where y: "found ! i = Some y" using all_found [OF n len] by blast
    with x have "y \<in> set (map the found)" by (metis imageI list.set_map option.sel)
    then have "y = h" by (simp only: h singleton_iff)
    with y have "found ! i = Some h" by simp
    with emap_Inr_nth [OF f i(1)] i(2) show ?thesis by (simp add: member_hash_Some)
  qed
  with g show "\<exists>g members h. grp = JObj g \<and> fld g ''rails'' = Some (JArr members) \<and> members \<noteq> []
      \<and> (\<forall>m\<in>set members. \<exists>s. m = JStr s \<and> map_of table s = Some h)" by blast
next
  assume "\<exists>g members h. grp = JObj g \<and> fld g ''rails'' = Some (JArr members) \<and> members \<noteq> []
      \<and> (\<forall>m\<in>set members. \<exists>s. m = JStr s \<and> map_of table s = Some h)"
  then obtain g members h where g: "grp = JObj g" "fld g ''rails'' = Some (JArr members)" "members \<noteq> []"
    and m: "\<forall>m\<in>set members. member_hash table m = Inr (Some h)"
    by (auto simp: member_hash_Some)
  have "emap (member_hash table) members = Inr (replicate (length members) (Some h))"
    using m by (induction members) auto
  moreover have "remdups (replicate (length members) h) = [h]"
    using g(3) by (induction members rule: list_nonempty_induct) simp_all
  ultimately show "verify_group table grp = Inr u"
    using g by (simp add: verify_group_def arr_field_def)
qed

lemma verify_rails_iff:
  "verify_rails fs root crown = Inr table \<longleftrightarrow>
     (\<exists>rails groups. fld crown ''rails'' = Some (JObj rails)
        \<and> set (keys rails) = set REQUIRED_RAILS
        \<and> efold (verify_rail fs root rails) [] (sort REQUIRED_RAILS) = Inr table
        \<and> fld crown ''rail_differential_groups'' = Some (JArr groups) \<and> groups \<noteq> []
        \<and> (\<forall>grp\<in>set groups. verify_group table grp = Inr ()))"
  by (auto simp: verify_rails_def res_dest efold_check_iff)

definition command_proved :: "fs \<Rightarrow> path \<Rightarrow> json \<Rightarrow> str \<Rightarrow> bool" where
  "command_proved fs root entry command \<longleftrightarrow>
     (\<exists>e log bs. entry = JObj e \<and> exit_zero e
        \<and> fld e ''log'' = Some (JObj log) \<and> attests fs root log bs
        \<and> fld e ''command'' = Some (JStr command) \<and> command \<noteq> [])"

lemma verify_command_iff:
  "verify_command fs root acc (i, entry) = Inr acc' \<longleftrightarrow>
     (\<exists>command. command_proved fs root entry command \<and> acc' = acc @ [command])"
proof -
  have "verify_command fs root acc (i, entry) = Inr acc' \<longleftrightarrow>
     (\<exists>e log p command. entry = JObj e \<and> exit_zero e
        \<and> fld e ''log'' = Some (JObj log)
        \<and> verify_file fs root log (lit ''command '' @ dec_nat i @ lit '' log'') = Inr p
        \<and> fld e ''command'' = Some (JStr command) \<and> command \<noteq> [] \<and> acc' = acc @ [command])"
    by (simp only: verify_command_def prod.case res_dest the_obj_Some obj_field_Some
        nonempty_text_Some sum.inject not_not) metis
  also have "\<dots> \<longleftrightarrow> (\<exists>command. (\<exists>e log. entry = JObj e \<and> exit_zero e \<and> fld e ''log'' = Some (JObj log)
        \<and> (\<exists>p. verify_file fs root log (lit ''command '' @ dec_nat i @ lit '' log'') = Inr p)
        \<and> fld e ''command'' = Some (JStr command) \<and> command \<noteq> []) \<and> acc' = acc @ [command])"
    by metis
  also have "\<dots> \<longleftrightarrow> (\<exists>command. command_proved fs root entry command \<and> acc' = acc @ [command])"
    by (simp only: verify_file_ok_iff command_proved_def ex_simps)
  finally show ?thesis .
qed

lemma verify_command_loop:
  "efold (verify_command fs root) acc (enumerate n entries) = Inr commands \<longleftrightarrow>
     (\<exists>cs. list_all2 (command_proved fs root) entries cs \<and> commands = acc @ cs)"
proof -
  have "efold (verify_command fs root) acc (enumerate n entries) = Inr commands \<longleftrightarrow>
     (\<exists>cs. list_all2 (command_proved fs root) entries cs
        \<and> commands = fold (\<lambda>y s. s @ [y]) cs acc)"
    by (rule efold_collect_enumerate) (rule verify_command_iff)
  then show ?thesis by (simp only: fold_snoc)
qed

lemma verify_commands_iff:
  "verify_commands fs root crown = Inr commands \<longleftrightarrow>
     (\<exists>entries. fld crown ''commands'' = Some (JArr entries) \<and> entries \<noteq> []
        \<and> list_all2 (command_proved fs root) entries commands)"
  by (auto simp: verify_commands_def res_dest verify_command_loop)

definition replay_proved :: "fs \<Rightarrow> path \<Rightarrow> json \<Rightarrow> bool" where
  "replay_proved fs root entry \<longleftrightarrow>
     (\<exists>e evidence. entry = JObj e \<and> attests_json fs root e evidence
        \<and> fld evidence ''replay'' = Some (JStr (lit ''chain_match''))
        \<and> fld evidence ''retry_authority'' \<in> {None, Some JNull, Some (JStr (lit ''none''))})"

lemma verify_replay_iff: "verify_replay fs root (i, entry) = Inr () \<longleftrightarrow> replay_proved fs root entry"
  by (auto simp: verify_replay_def res_dest load_verified_json_iff replay_proved_def)

lemma verify_receipts_iff:
  "verify_receipts fs root crown = Inr n \<longleftrightarrow>
     (\<exists>receipts. fld crown ''receipt_replays'' = Some (JArr receipts) \<and> receipts \<noteq> []
        \<and> (\<forall>r\<in>set receipts. replay_proved fs root r) \<and> n = length receipts)"
proof -
  have "(\<forall>x\<in>set (enumerate 0 rs). verify_replay fs root x = Inr ())
      \<longleftrightarrow> (\<forall>r\<in>set rs. replay_proved fs root r)" for rs
    unfolding enumerate_snd [of rs 0] by (auto simp: verify_replay_iff)
  then show ?thesis by (auto simp: verify_receipts_def res_dest efold_check_iff)
qed

text \<open>An attestation that counts, for a source revision.\<close>

definition attestation_proved :: "fs \<Rightarrow> path \<Rightarrow> str \<Rightarrow> json \<Rightarrow> json dict \<Rightarrow> bool" where
  "attestation_proved fs root source_sha manifest att \<longleftrightarrow>
     (\<exists>m. manifest = JObj m \<and> attests_json fs root m att
        \<and> (\<forall>k\<in>set attestation_keys. text_at att k \<noteq> [])
        \<and> fld att ''source_sha'' = Some (JStr source_sha))"

lemma verify_attestation_iff:
  "verify_attestation fs root source_sha t (i, manifest) = Inr t' \<longleftrightarrow>
     (\<exists>att. attestation_proved fs root source_sha manifest att \<and> t' = add_attestation att t)"
  by (auto simp: verify_attestation_def res_dest load_verified_json_iff require_texts_iff
      attestation_proved_def)

lemma verify_attestation_loop:
  "efold (verify_attestation fs root source_sha) t (enumerate n manifests) = Inr t' \<longleftrightarrow>
     (\<exists>atts. list_all2 (attestation_proved fs root source_sha) manifests atts
        \<and> t' = fold add_attestation atts t)"
  by (rule efold_collect_enumerate) (rule verify_attestation_iff)

text \<open>The sets a topology collects: the values of the attestations, each once.\<close>

lemma fold_add_attestation:
  "set (hosts (fold add_attestation atts t)) = set (hosts t) \<union> (\<lambda>a. text_at a (lit ''host_id'')) ` set atts"
  "set (regions (fold add_attestation atts t)) = set (regions t) \<union> (\<lambda>a. text_at a (lit ''region'')) ` set atts"
  "set (domains (fold add_attestation atts t)) = set (domains t) \<union> (\<lambda>a. text_at a (lit ''fault_domain'')) ` set atts"
  "set (fingerprints (fold add_attestation atts t)) = set (fingerprints t) \<union> (\<lambda>a. text_at a (lit ''cert_fingerprint'')) ` set atts"
  by (induction atts arbitrary: t) (auto simp: add_attestation_def)

definition topology_distinct :: "topology \<Rightarrow> bool" where
  "topology_distinct t \<longleftrightarrow> distinct (hosts t) \<and> distinct (regions t) \<and> distinct (domains t)
     \<and> distinct (fingerprints t) \<and> distinct (providers t)"

lemma topology_distinct_fold: "topology_distinct t \<Longrightarrow> topology_distinct (fold add_attestation atts t)"
  by (induction atts arbitrary: t) (auto simp: add_attestation_def topology_distinct_def)

lemma fold_add_attestation_card:
  fixes atts
  defines "t \<equiv> fold add_attestation atts empty_topology"
  shows "length (hosts t) = card ((\<lambda>a. text_at a (lit ''host_id'')) ` set atts)"
    and "length (regions t) = card ((\<lambda>a. text_at a (lit ''region'')) ` set atts)"
    and "length (domains t) = card ((\<lambda>a. text_at a (lit ''fault_domain'')) ` set atts)"
    and "length (fingerprints t) = card ((\<lambda>a. text_at a (lit ''cert_fingerprint'')) ` set atts)"
proof -
  have "topology_distinct empty_topology" by (simp add: topology_distinct_def empty_topology_def)
  then have d: "topology_distinct t" unfolding t_def by (rule topology_distinct_fold)
  show "length (hosts t) = card ((\<lambda>a. text_at a (lit ''host_id'')) ` set atts)"
    using d fold_add_attestation(1) [of atts empty_topology] distinct_card [of "hosts t"]
    by (simp add: topology_distinct_def t_def empty_topology_def)
  show "length (regions t) = card ((\<lambda>a. text_at a (lit ''region'')) ` set atts)"
    using d fold_add_attestation(2) [of atts empty_topology] distinct_card [of "regions t"]
    by (simp add: topology_distinct_def t_def empty_topology_def)
  show "length (domains t) = card ((\<lambda>a. text_at a (lit ''fault_domain'')) ` set atts)"
    using d fold_add_attestation(3) [of atts empty_topology] distinct_card [of "domains t"]
    by (simp add: topology_distinct_def t_def empty_topology_def)
  show "length (fingerprints t) = card ((\<lambda>a. text_at a (lit ''cert_fingerprint'')) ` set atts)"
    using d fold_add_attestation(4) [of atts empty_topology] distinct_card [of "fingerprints t"]
    by (simp add: topology_distinct_def t_def empty_topology_def)
qed

end
