(* ===== verification/CrownSpec.thy ===== *)
theory CrownSpec
  imports CrownCourts
begin

text \<open>
  The abstract specification of an ALIVE crown: eight independent conditions on
  the crown, the evidence files and git, with no order of checks, no loop and no
  message, and the lemmas that relate the verifier's loops to them.
\<close>

section \<open>The conditions\<close>

definition identity_evidenced :: "git \<Rightarrow> json dict \<Rightarrow> str option \<Rightarrow> str option \<Rightarrow> str \<Rightarrow> bool" where
  "identity_evidenced git crown expected_source expected_tree source \<longleftrightarrow>
     (\<exists>tree. fld crown ''source_sha'' = Some (JStr source) \<and> length source = 40
        \<and> fld crown ''tree_sha'' = Some (JStr tree) \<and> length tree = 40
        \<and> git_output git [lit ''rev-parse'', lit ''HEAD''] = Inr source
        \<and> git_output git [lit ''rev-parse'', lit ''HEAD^{tree}''] = Inr tree
        \<and> \<not> differs expected_source source \<and> \<not> differs expected_tree tree)"

definition at_least :: "int \<Rightarrow> json option \<Rightarrow> bool" where
  "at_least k v \<longleftrightarrow> (\<exists>x n. v = Some x \<and> int_of_json x = Inr n \<and> k \<le> n)"

definition powl_evidenced :: "json dict \<Rightarrow> bool" where
  "powl_evidenced crown \<longleftrightarrow>
     (\<exists>powl. fld crown ''powl'' = Some (JObj powl)
        \<and> (\<forall>f\<in>set powl_fields. map_of powl f = Some (JBool True))
        \<and> at_least 2048 (fld powl ''generated_cases'') \<and> at_least 64 (fld powl ''reactor_samples''))"

definition group_evidenced :: "fs \<Rightarrow> path \<Rightarrow> json dict \<Rightarrow> json \<Rightarrow> bool" where
  "group_evidenced fs root rails grp \<longleftrightarrow>
     (\<exists>g members h. grp = JObj g \<and> fld g ''rails'' = Some (JArr members) \<and> members \<noteq> []
        \<and> (\<forall>m\<in>set members. \<exists>rail\<in>set REQUIRED_RAILS. m = JStr rail \<and> rail_proved fs root rails rail h))"

definition rails_evidenced :: "fs \<Rightarrow> path \<Rightarrow> json dict \<Rightarrow> bool" where
  "rails_evidenced fs root crown \<longleftrightarrow>
     (\<exists>rails groups. fld crown ''rails'' = Some (JObj rails)
        \<and> set (keys rails) = set REQUIRED_RAILS
        \<and> (\<forall>rail\<in>set REQUIRED_RAILS. \<exists>h. rail_proved fs root rails rail h)
        \<and> fld crown ''rail_differential_groups'' = Some (JArr groups) \<and> groups \<noteq> []
        \<and> (\<forall>grp\<in>set groups. group_evidenced fs root rails grp))"

definition commands_evidenced :: "fs \<Rightarrow> path \<Rightarrow> json dict \<Rightarrow> bool" where
  "commands_evidenced fs root crown \<longleftrightarrow>
     (\<exists>entries. fld crown ''commands'' = Some (JArr entries) \<and> entries \<noteq> []
        \<and> (\<forall>e\<in>set entries. \<exists>command. command_proved fs root e command))"

definition replays_evidenced :: "fs \<Rightarrow> path \<Rightarrow> json dict \<Rightarrow> bool" where
  "replays_evidenced fs root crown \<longleftrightarrow>
     (\<exists>receipts. fld crown ''receipt_replays'' = Some (JArr receipts) \<and> receipts \<noteq> []
        \<and> (\<forall>r\<in>set receipts. replay_proved fs root r))"

definition topology_evidenced :: "fs \<Rightarrow> path \<Rightarrow> json dict \<Rightarrow> str \<Rightarrow> topology \<Rightarrow> bool" where
  "topology_evidenced fs root crown source t \<longleftrightarrow>
     (\<exists>g manifests atts. fld crown ''global'' = Some (JObj g)
        \<and> (\<forall>f\<in>set global_fields. map_of g f = Some (JBool True))
        \<and> fld g ''attestations'' = Some (JArr manifests) \<and> 5 \<le> length manifests
        \<and> list_all2 (attestation_proved fs root source) manifests atts
        \<and> t = fold add_attestation atts empty_topology
        \<and> 5 \<le> card ((\<lambda>a. text_at a (lit ''host_id'')) ` set atts)
        \<and> 2 \<le> card ((\<lambda>a. text_at a (lit ''region'')) ` set atts)
        \<and> 3 \<le> card ((\<lambda>a. text_at a (lit ''fault_domain'')) ` set atts)
        \<and> 5 \<le> card ((\<lambda>a. text_at a (lit ''cert_fingerprint'')) ` set atts))"

definition sabotage_evidenced :: "json dict \<Rightarrow> bool" where
  "sabotage_evidenced crown \<longleftrightarrow>
     (\<exists>ledger. fld crown ''sabotage'' = Some (JObj ledger)
        \<and> set REQUIRED_SABOTAGE \<subseteq> set (keys ledger)
        \<and> (\<forall>p\<in>set ledger. snd p = JStr (lit ''DETECTED'')))"

definition hash_evidenced :: "json dict \<Rightarrow> bool" where
  "hash_evidenced crown \<longleftrightarrow>
     (\<exists>h. canonical_hash (JObj (unsigned_crown crown)) = Inr h
        \<and> fld crown ''evidence_hash'' \<in> {None, Some JNull, Some (JStr h)})"

definition crown_evidenced ::
  "git \<Rightarrow> fs \<Rightarrow> path \<Rightarrow> json dict \<Rightarrow> str option \<Rightarrow> str option \<Rightarrow> bool" where
  "crown_evidenced git fs root crown expected_source expected_tree \<longleftrightarrow>
     (\<exists>source. identity_evidenced git crown expected_source expected_tree source
        \<and> (\<exists>t. topology_evidenced fs root crown source t))
     \<and> powl_evidenced crown \<and> rails_evidenced fs root crown \<and> commands_evidenced fs root crown
     \<and> replays_evidenced fs root crown \<and> sabotage_evidenced crown \<and> hash_evidenced crown"

section \<open>The courts implement the conditions\<close>

lemma identity_court: "(\<exists>tree. verify_identity git crown es et = Inr (source, tree))
    \<longleftrightarrow> identity_evidenced git crown es et source"
  by (simp add: verify_identity_iff identity_evidenced_def)

text \<open>A missing count reads as zero, which is below both bounds.\<close>

lemma at_least_default:
  assumes "0 < k"
  shows "(\<exists>n. int_of_json (get_or d key (JInt 0)) = Inr n \<and> k \<le> n) \<longleftrightarrow> at_least k (map_of d key)"
  using assms by (auto simp: get_or_def at_least_def split: option.splits)

lemma powl_court: "(\<exists>powl. verify_powl crown = Inr powl) \<longleftrightarrow> powl_evidenced crown"
  by (simp add: verify_powl_iff powl_evidenced_def at_least_default)

lemma verify_rail_loop_total:
  "(\<exists>table. efold (verify_rail fs root rails) acc rs = Inr table)
     \<longleftrightarrow> (\<forall>rail\<in>set rs. \<exists>h. rail_proved fs root rails rail h)"
proof (induction rs arbitrary: acc)
  case (Cons r rs)
  have "(\<exists>table. efold (verify_rail fs root rails) acc (r # rs) = Inr table) \<longleftrightarrow>
      (\<exists>h. rail_proved fs root rails r h
        \<and> (\<exists>table. efold (verify_rail fs root rails) (AList.update r h acc) rs = Inr table))"
    by (auto simp: ebind_Inr_iff verify_rail_iff)
  with Cons.IH show ?case by simp
qed simp

lemma group_court:
  assumes "efold (verify_rail fs root rails) [] (sort REQUIRED_RAILS) = Inr table"
  shows "verify_group table grp = Inr () \<longleftrightarrow> group_evidenced fs root rails grp"
proof -
  have "map_of table s = Some h \<longleftrightarrow> s \<in> set REQUIRED_RAILS \<and> rail_proved fs root rails s h" for s h
  proof -
    have "map_of table s = None" if "s \<notin> set REQUIRED_RAILS"
      using verify_rail_loop [OF assms, of s] that by (simp add: map_of_eq_None_iff)
    moreover have "\<exists>g. map_of table s = Some g \<and> rail_proved fs root rails s g"
      if "s \<in> set REQUIRED_RAILS"
      using verify_rail_loop [OF assms, of s] that by simp
    ultimately show ?thesis using rail_proved_unique [of fs root rails s] by fastforce
  qed
  then show ?thesis unfolding verify_group_iff group_evidenced_def by metis
qed

lemma rails_court: "(\<exists>table. verify_rails fs root crown = Inr table) \<longleftrightarrow> rails_evidenced fs root crown"
proof -
  have "(\<exists>table. verify_rails fs root crown = Inr table) \<longleftrightarrow>
     (\<exists>rails groups. fld crown ''rails'' = Some (JObj rails)
        \<and> set (keys rails) = set REQUIRED_RAILS
        \<and> (\<exists>table. efold (verify_rail fs root rails) [] (sort REQUIRED_RAILS) = Inr table)
        \<and> fld crown ''rail_differential_groups'' = Some (JArr groups) \<and> groups \<noteq> []
        \<and> (\<forall>grp\<in>set groups. group_evidenced fs root rails grp))"
    unfolding verify_rails_iff using group_court by blast
  then show ?thesis by (simp only: verify_rail_loop_total rails_evidenced_def sorted_rails)
qed

lemma list_all2_total: "(\<exists>ys. list_all2 P xs ys) \<longleftrightarrow> (\<forall>x\<in>set xs. \<exists>y. P x y)"
proof (induction xs)
  case (Cons x xs)
  have "(\<exists>ys. list_all2 P (x # xs) ys) \<longleftrightarrow> (\<exists>y. P x y) \<and> (\<exists>ys. list_all2 P xs ys)"
    by (auto simp: list_all2_Cons1)
  with Cons.IH show ?case by simp
qed simp

lemma commands_court: "(\<exists>cs. verify_commands fs root crown = Inr cs) \<longleftrightarrow> commands_evidenced fs root crown"
proof -
  have "(\<exists>cs. verify_commands fs root crown = Inr cs) \<longleftrightarrow>
      (\<exists>entries. fld crown ''commands'' = Some (JArr entries) \<and> entries \<noteq> []
        \<and> (\<exists>cs. list_all2 (command_proved fs root) entries cs))"
    unfolding verify_commands_iff by blast
  then show ?thesis by (simp only: list_all2_total commands_evidenced_def)
qed

lemma replays_court: "(\<exists>n. verify_receipts fs root crown = Inr n) \<longleftrightarrow> replays_evidenced fs root crown"
  by (auto simp: verify_receipts_iff replays_evidenced_def)

lemma topology_court: "verify_global fs root crown source = Inr t \<longleftrightarrow> topology_evidenced fs root crown source t"
proof -
  have "verify_global fs root crown source = Inr t \<longleftrightarrow>
     (\<exists>g manifests. fld crown ''global'' = Some (JObj g)
        \<and> (\<forall>f\<in>set global_fields. map_of g f = Some (JBool True))
        \<and> fld g ''attestations'' = Some (JArr manifests) \<and> 5 \<le> length manifests
        \<and> efold (verify_attestation fs root source) empty_topology (enumerate 0 manifests) = Inr t
        \<and> 5 \<le> length (hosts t) \<and> 2 \<le> length (regions t) \<and> 3 \<le> length (domains t)
        \<and> 5 \<le> length (fingerprints t))"
    by (auto simp: verify_global_def res_dest require_true_iff not_less)
  then show ?thesis
    unfolding topology_evidenced_def
    by (auto simp: verify_attestation_loop fold_add_attestation_card)
qed

lemma sabotage_court:
  "verify_sabotage crown = Inr n \<longleftrightarrow>
     sabotage_evidenced crown \<and> (\<exists>ledger. fld crown ''sabotage'' = Some (JObj ledger) \<and> n = length ledger)"
proof -
  have missing: "filter (\<lambda>name. name \<notin> set (keys ledger)) REQUIRED_SABOTAGE = []
      \<longleftrightarrow> set REQUIRED_SABOTAGE \<subseteq> set (keys ledger)" for ledger :: "json dict"
    by (auto simp: filter_empty_conv)
  have survived: "sort (map fst (filter (\<lambda>p. snd p \<noteq> JStr (lit ''DETECTED'')) ledger)) = []
      \<longleftrightarrow> (\<forall>p\<in>set ledger. snd p = JStr (lit ''DETECTED''))" for ledger :: "json dict"
    by (simp add: filter_empty_conv)
  show ?thesis
  proof (cases "obj_field crown ''sabotage''")
    case None
    then have "fld crown ''sabotage'' \<noteq> Some (JObj ledger)" for ledger
      by (auto simp: obj_field_def)
    with None show ?thesis by (simp add: verify_sabotage_def sabotage_evidenced_def)
  next
    case (Some ledger)
    then have "fld crown ''sabotage'' = Some (JObj ledger)" by simp
    moreover have "verify_sabotage crown = Inr n \<longleftrightarrow> set REQUIRED_SABOTAGE \<subseteq> set (keys ledger)
        \<and> (\<forall>p\<in>set ledger. snd p = JStr (lit ''DETECTED'')) \<and> length ledger = n"
      by (simp only: verify_sabotage_def Some of_option_simps ebind.simps Let_def if_raise_iff
          missing survived not_not sum.inject)
    ultimately show ?thesis by (auto simp: sabotage_evidenced_def)
  qed
qed

text \<open>The number of cases in the report is there: the POWL court has read it.\<close>

lemma powl_cases_present:
  assumes "verify_powl crown = Inr powl"
  obtains v n where "fld powl ''generated_cases'' = Some v" "int_of_json v = Inr n" "2048 \<le> n"
  using assms at_least_default [of 2048 powl "lit ''generated_cases''"]
  by (auto simp: verify_powl_iff at_least_def)

text \<open>What an accepted crown went through.\<close>

lemma verify_crown_courts:
  "(\<exists>result. verify_crown git fs root crown es et = Inr result) \<longleftrightarrow>
     (\<exists>source tree. verify_identity git crown es et = Inr (source, tree)
        \<and> (\<exists>t. verify_global fs root crown source = Inr t))
     \<and> (\<exists>powl. verify_powl crown = Inr powl) \<and> (\<exists>table. verify_rails fs root crown = Inr table)
     \<and> (\<exists>cs. verify_commands fs root crown = Inr cs) \<and> (\<exists>n. verify_receipts fs root crown = Inr n)
     \<and> (\<exists>n. verify_sabotage crown = Inr n) \<and> hash_evidenced crown" (is "?accepted \<longleftrightarrow> ?courts")
proof
  assume ?accepted
  then show ?courts
    by (auto simp: verify_crown_def res_dest hash_evidenced_def split: prod.splits)
next
  assume ?courts
  then obtain source tree t powl table cs n m h where c:
    "verify_identity git crown es et = Inr (source, tree)" "verify_global fs root crown source = Inr t"
    "verify_powl crown = Inr powl" "verify_rails fs root crown = Inr table"
    "verify_commands fs root crown = Inr cs" "verify_receipts fs root crown = Inr n"
    "verify_sabotage crown = Inr m" "canonical_hash (JObj (unsigned_crown crown)) = Inr h"
    "fld crown ''evidence_hash'' \<in> {None, Some JNull, Some (JStr h)}"
    unfolding hash_evidenced_def by blast
  from powl_cases_present [OF c(3)] obtain v k where
    "fld powl ''generated_cases'' = Some v" "int_of_json v = Inr k" .
  with c show ?accepted by (simp add: verify_crown_def)
qed

lemma verify_crown_iff:
  "(\<exists>result. verify_crown git fs root crown es et = Inr result) \<longleftrightarrow> crown_evidenced git fs root crown es et"
proof -
  have sab: "(\<exists>n. verify_sabotage crown = Inr n) \<longleftrightarrow> sabotage_evidenced crown"
    unfolding sabotage_court by (auto simp: sabotage_evidenced_def)
  have idg: "(\<exists>source tree. verify_identity git crown es et = Inr (source, tree)
        \<and> (\<exists>t. verify_global fs root crown source = Inr t))
      \<longleftrightarrow> (\<exists>source. identity_evidenced git crown es et source \<and> (\<exists>t. topology_evidenced fs root crown source t))"
    by (simp add: topology_court flip: identity_court)
  show ?thesis
    unfolding verify_crown_courts crown_evidenced_def sab idg powl_court rails_court commands_court
      replays_court by blast
qed

text \<open>The verdict depends on the crown through its evidence only, not through its standing.\<close>

lemma verify_crown_cong:
  assumes f: "\<And>k. k \<noteq> ''standing'' \<Longrightarrow> fld c k = fld crown k"
    and u: "unsigned_crown c = unsigned_crown crown"
  shows "verify_crown git fs root c es et = verify_crown git fs root crown es et"
proof -
  from f have o: "obj_field c k = obj_field crown k" "arr_field c k = arr_field crown k"
    if "k \<noteq> ''standing''" for k :: string
    using that by (simp_all add: obj_field_def arr_field_def)
  have "verify_identity git c es et = verify_identity git crown es et"
    by (simp add: verify_identity_def f cong: if_cong)
  moreover have "verify_powl c = verify_powl crown" by (simp add: verify_powl_def o cong: if_cong)
  moreover have "verify_rails fs root c = verify_rails fs root crown"
    by (simp add: verify_rails_def o cong: if_cong)
  moreover have "verify_commands fs root c = verify_commands fs root crown"
    by (simp add: verify_commands_def o cong: if_cong)
  moreover have "verify_receipts fs root c = verify_receipts fs root crown"
    by (simp add: verify_receipts_def o cong: if_cong)
  moreover have "verify_global fs root c s = verify_global fs root crown s" for s
    by (simp add: verify_global_def o cong: if_cong)
  moreover have "verify_sabotage c = verify_sabotage crown"
    by (simp add: verify_sabotage_def o cong: if_cong)
  ultimately show ?thesis by (simp add: verify_crown_def u f)
qed

end
