(* ===== verification/CrownExample.thy ===== *)
theory CrownExample
  imports CrownSpec
begin

text \<open>
  A crown that the verifier accepts: a small evidence directory whose digests are
  those of its files, a repository at the crown's revision, and the conditions of
  the specification checked on them. The digests stay symbolic, so the example
  also shows that acceptance does not depend on their values.
\<close>

section \<open>The evidence directory\<close>

definition ex_source :: str where "ex_source = replicate 40 97"

definition ex_tree :: str where "ex_tree = replicate 40 98"

definition ex_attestation :: "string \<Rightarrow> string \<Rightarrow> string \<Rightarrow> json dict" where
  "ex_attestation host region domain =
     [(lit ''cert_fingerprint'', JStr (lit host)), (lit ''fault_domain'', JStr (lit domain)),
      (lit ''host_id'', JStr (lit host)), (lit ''provider'', JStr (lit ''fly'')),
      (lit ''region'', JStr (lit region)), (lit ''release_digest'', JStr (lit ''d'')),
      (lit ''source_sha'', JStr ex_source)]"

definition ex_files :: "(str \<times> json dict) list" where
  "ex_files =
     [(lit ''r.json'', [(lit ''standing'', JStr (lit ''ALIVE''))]),
      (lit ''p.json'', [(lit ''replay'', JStr (lit ''chain_match''))]),
      (lit ''a.json'', ex_attestation ''h1'' ''iad'' ''x''),
      (lit ''b.json'', ex_attestation ''h2'' ''iad'' ''y''),
      (lit ''c.json'', ex_attestation ''h3'' ''fra'' ''z''),
      (lit ''d.json'', ex_attestation ''h4'' ''fra'' ''x''),
      (lit ''e.json'', ex_attestation ''h5'' ''iad'' ''x'')]"

definition ex_root :: path where "ex_root = [lit ''ev'']"

text \<open>A directory of documents beside other files, and the manifest entry of one of them.\<close>

definition evidence_dir :: "(path \<times> node) list \<Rightarrow> (str \<times> json dict) list \<Rightarrow> fs" where
  "evidence_dir extra files = (ex_root, Dir) # extra @
     map (\<lambda>(n, v). (ex_root @ [n], File (canonical_payload (JObj v)))) files"

definition file_entry :: "(str \<times> json dict) list \<Rightarrow> string \<Rightarrow> json dict" where
  "file_entry files n =
     [(lit ''path'', JStr (lit n)),
      (lit ''sha256'', JStr (sha256_bytes (canonical_payload (JObj (the (map_of files (lit n)))))))]"

definition ex_entry :: "string \<Rightarrow> json dict" where
  "ex_entry n = file_entry ex_files n"

definition ex_git :: git where
  "ex_git args = Inr ((if args = [lit ''rev-parse'', lit ''HEAD''] then ex_source else ex_tree) @ [10])"

section \<open>The crown\<close>

definition ex_rail_entry :: "json dict" where
  "ex_rail_entry =
     [(lit ''standing'', JStr (lit ''ALIVE'')), (lit ''artifact'', JObj (ex_entry ''p.json'')),
      (lit ''result'', JObj (ex_entry ''r.json'')),
      (lit ''result_hash'', JStr (sha256_bytes (canonical_payload
         (JObj [(lit ''standing'', JStr (lit ''ALIVE''))]))))]"

definition ex_rail :: json where
  "ex_rail = JObj ex_rail_entry"

definition ex_body :: "json dict" where
  "ex_body =
     [(lit ''source_sha'', JStr ex_source), (lit ''tree_sha'', JStr ex_tree),
      (lit ''powl'', JObj (map (\<lambda>f. (f, JBool True)) powl_fields
         @ [(lit ''generated_cases'', JInt 2048), (lit ''reactor_samples'', JInt 64)])),
      (lit ''rails'', JObj (map (\<lambda>r. (r, ex_rail)) REQUIRED_RAILS)),
      (lit ''rail_differential_groups'',
         JArr [JObj [(lit ''rails'', JArr [JStr (lit ''beam''), JStr (lit ''wasm'')])]]),
      (lit ''commands'', JArr [JObj [(lit ''exit'', JInt 0), (lit ''log'', JObj (ex_entry ''r.json'')),
         (lit ''command'', JStr (lit ''mix verify''))]]),
      (lit ''receipt_replays'', JArr [JObj (ex_entry ''p.json'')]),
      (lit ''global'', JObj (map (\<lambda>f. (f, JBool True)) global_fields
         @ [(lit ''attestations'', JArr (map (\<lambda>n. JObj (ex_entry n))
              [''a.json'', ''b.json'', ''c.json'', ''d.json'', ''e.json'']))])),
      (lit ''sabotage'', JObj (map (\<lambda>n. (n, JStr (lit ''DETECTED''))) REQUIRED_SABOTAGE))]"

definition ex_hash :: str where
  "ex_hash = sha256_bytes (canonical_payload (JObj ex_body))"

definition ex_crown :: "json dict" where
  "ex_crown = ex_body @ [(lit ''evidence_hash'', JStr ex_hash)]"

text \<open>The evidence directory and, beside it, the crown as a file.\<close>

definition ex_crown_bytes :: bytes where
  "ex_crown_bytes = (case utf8_encode (dump compact 0 (JObj ex_crown)) of Inl _ \<Rightarrow> [] | Inr bs \<Rightarrow> bs)"

definition ex_fs :: fs where
  "ex_fs = evidence_dir [([lit ''crown.json''], File ex_crown_bytes)] ex_files"

section \<open>Every condition holds\<close>

definition extra_ok :: "(path \<times> node) list \<Rightarrow> bool" where
  "extra_ok extra \<longleftrightarrow> (\<forall>(p, n)\<in>set extra. length p = 1 \<and> (\<exists>bs. n = File bs))"

lemma dir_no_links: "extra_ok extra \<Longrightarrow> link_target (evidence_dir extra files) p = None"
  by (auto simp: link_target_def evidence_dir_def extra_ok_def dest!: map_of_SomeD
      split: option.splits node.splits)

lemma dir_file_at:
  assumes "extra_ok extra" "map_of files n = Some v"
  shows "node_at (evidence_dir extra files) (ex_root @ [n]) = Some (File (canonical_payload (JObj v)))"
proof -
  have "map_of (map (\<lambda>(n, v). (ex_root @ [n], File (canonical_payload (JObj v)))) xs) (ex_root @ [n])
      = map_option (\<lambda>v. File (canonical_payload (JObj v))) (map_of xs n)" for xs :: "(str \<times> json dict) list"
    by (induction xs) auto
  moreover have "map_of extra (ex_root @ [n]) = None"
    using assms(1) by (force simp: extra_ok_def ex_root_def map_of_eq_None_iff)
  ultimately show ?thesis
    using assms(2) by (simp add: node_at_def evidence_dir_def ex_root_def map_add_def)
qed

lemma canonical_hash_payload:
  assumes "json_ok v"
  shows "canonical_hash v = Inr (sha256_bytes (canonical_payload v))"
    and "ebind (read_text (canonical_payload v)) loads = Inr (sort_json v)"
proof -
  obtain bs where bs: "utf8_encode (dumps compact_utf8 v) = Inr bs"
    by (rule write_clean [OF dumps_clean [of compact_utf8, OF _ assms]]) simp
  then show "canonical_hash v = Inr (sha256_bytes (canonical_payload v))"
    by (simp add: canonical_hash_def canonical_payload_def)
  show "ebind (read_text (canonical_payload v)) loads = Inr (sort_json v)"
    using dumps_read_back [OF _ _ assms bs] bs by (simp add: canonical_payload_def)
qed

lemma dir_attests:
  assumes "extra_ok extra" "map_of files (lit n) = Some v" "json_ok (JObj v)"
    "sort_json (JObj v) = JObj v" "path_parts (lit n) = [lit n]" "plain_name (lit n)"
  defines "fs \<equiv> evidence_dir extra files"
  shows "attests fs ex_root (file_entry files n) (canonical_payload (JObj v))"
    and "attests_json fs ex_root (file_entry files n) v"
proof -
  have abs: "\<not> is_absolute (lit n)"
  proof
    assume "is_absolute (lit n)"
    then have "47 \<in> set (lit n)"
      by (metis is_absolute_def list.set_intros(1) take_Suc_conv_app_nth in_set_takeD)
    moreover from assms(5) have "lit n \<in> set (path_parts (lit n))" by simp
    then have "lit n \<in> set (split_on 47 (lit n))" by (simp only: path_parts_def set_filter) blast
    ultimately show False by (simp add: split_on_pieces)
  qed
  have can: "canonical fs (ex_root @ [lit n])"
    using assms(6) dir_no_links [OF assms(1)] by (simp add: fs_def canonical_def ex_root_def plain_name_def)
  moreover have "above fs (ex_root @ [lit n])"
    by (simp add: ex_root_def fs_def evidence_dir_def node_at_def)
  ultimately have here: "read_bytes fs (ex_root @ [lit n]) = Inr (canonical_payload (JObj v))"
    using dir_file_at [OF assms(1,2), folded fs_def] by (rule read_bytes_plain)
  with can have "within fs ex_root (lit n) = Inr (ex_root @ [lit n])"
    using within_plain [of fs ex_root "lit n"] abs assms(5) by simp
  then show a: "attests fs ex_root (file_entry files n) (canonical_payload (JObj v))"
    using here assms(2) by (auto simp: attests_def file_entry_def)
  with canonical_hash_payload(2) [OF assms(3)] assms(4)
  show "attests_json fs ex_root (file_entry files n) v" by (auto simp: attests_json_def)
qed

lemma ex_extra: "extra_ok [([lit ''crown.json''], File ex_crown_bytes)]"
  by (simp add: extra_ok_def)

lemmas ex_no_links [simp] = dir_no_links [OF ex_extra, of ex_files, folded ex_fs_def]
lemmas ex_attests = dir_attests [OF ex_extra, of ex_files, folded ex_fs_def ex_entry_def]

text \<open>The conditions of the lemma, for each file of the example.\<close>

lemma text_ok_ids [simp]: "text_ok ex_source" "text_ok ex_tree"
  by (simp_all add: text_ok_def ex_source_def ex_tree_def is_scalar_def list_all_iff)

lemmas plain_simps = path_parts_def split_on_def plain_name_def lit_def

lemma plain_names:
  "path_parts (lit ''a.json'') = [lit ''a.json'']" "plain_name (lit ''a.json'')"
  "path_parts (lit ''b.json'') = [lit ''b.json'']" "plain_name (lit ''b.json'')"
  "path_parts (lit ''c.json'') = [lit ''c.json'']" "plain_name (lit ''c.json'')"
  "path_parts (lit ''d.json'') = [lit ''d.json'']" "plain_name (lit ''d.json'')"
  "path_parts (lit ''e.json'') = [lit ''e.json'']" "plain_name (lit ''e.json'')"
  "path_parts (lit ''p.json'') = [lit ''p.json'']" "plain_name (lit ''p.json'')"
  "path_parts (lit ''r.json'') = [lit ''r.json'']" "plain_name (lit ''r.json'')"
  by (simp_all add: plain_simps)

lemma ex_alive_file:
  "attests_json ex_fs ex_root (ex_entry ''r.json'') [(lit ''standing'', JStr (lit ''ALIVE''))]"
  by (rule ex_attests(2)) (simp_all add: ex_files_def plain_names)

lemma ex_replay_file:
  "attests_json ex_fs ex_root (ex_entry ''p.json'') [(lit ''replay'', JStr (lit ''chain_match''))]"
  by (rule ex_attests(2)) (simp_all add: ex_files_def plain_names)

lemma ex_attestation_doc:
  "json_ok (JObj (ex_attestation a b c))"
  "sort_json (JObj (ex_attestation a b c)) = JObj (ex_attestation a b c)"
proof -
  have sorted: "sorted (map lit [''cert_fingerprint'', ''fault_domain'', ''host_id'', ''provider'',
      ''region'', ''release_digest'', ''source_sha''])"
    by code_simp
  have ids: "map (map_prod id sort_json) (ex_attestation a b c) = ex_attestation a b c"
    by (simp add: ex_attestation_def)
  have "sorted (map fst (ex_attestation a b c))"
    using sorted by (simp only: ex_attestation_def list.map fst_conv)
  then show "sort_json (JObj (ex_attestation a b c)) = JObj (ex_attestation a b c)"
    by (simp only: sort_json.simps ids sort_key_id_if_sorted)
qed (simp add: ex_attestation_def)

lemma ex_attestation_files:
  "attests_json ex_fs ex_root (ex_entry ''a.json'') (ex_attestation ''h1'' ''iad'' ''x'')"
  "attests_json ex_fs ex_root (ex_entry ''b.json'') (ex_attestation ''h2'' ''iad'' ''y'')"
  "attests_json ex_fs ex_root (ex_entry ''c.json'') (ex_attestation ''h3'' ''fra'' ''z'')"
  "attests_json ex_fs ex_root (ex_entry ''d.json'') (ex_attestation ''h4'' ''fra'' ''x'')"
  "attests_json ex_fs ex_root (ex_entry ''e.json'') (ex_attestation ''h5'' ''iad'' ''x'')"
proof -
  note attested = ex_attests(2) [OF _ ex_attestation_doc]
  show "attests_json ex_fs ex_root (ex_entry ''a.json'') (ex_attestation ''h1'' ''iad'' ''x'')"
    "attests_json ex_fs ex_root (ex_entry ''b.json'') (ex_attestation ''h2'' ''iad'' ''y'')"
    "attests_json ex_fs ex_root (ex_entry ''c.json'') (ex_attestation ''h3'' ''fra'' ''z'')"
    by (rule attested; simp add: ex_files_def plain_names)+
  show "attests_json ex_fs ex_root (ex_entry ''d.json'') (ex_attestation ''h4'' ''fra'' ''x'')"
    "attests_json ex_fs ex_root (ex_entry ''e.json'') (ex_attestation ''h5'' ''iad'' ''x'')"
    by (rule attested; simp add: ex_files_def plain_names)+
qed

lemma ex_bytes: "\<exists>bs. attests ex_fs ex_root (ex_entry ''r.json'') bs"
  "\<exists>bs. attests ex_fs ex_root (ex_entry ''p.json'') bs"
  using ex_alive_file ex_replay_file by (auto simp: attests_json_def)

lemma ex_fields:
  "fld ex_crown ''evidence_hash'' = Some (JStr ex_hash)"
  "unsigned_crown ex_crown = ex_body"
  by (simp_all add: ex_crown_def ex_body_def unsigned_crown_def)

lemma ex_identity: "identity_evidenced ex_git ex_crown None None ex_source"
proof -
  have "strip (ex_source @ [10]) = ex_source" "strip (ex_tree @ [10]) = ex_tree"
    by (simp_all add: strip_def ex_source_def ex_tree_def is_py_space_def)
  then show ?thesis
    by (simp add: identity_evidenced_def ex_crown_def ex_body_def git_output_def ex_git_def differs_def)
      (simp add: ex_source_def ex_tree_def)
qed

lemma ex_powl: "powl_evidenced ex_crown"
  by (simp add: powl_evidenced_def ex_crown_def ex_body_def powl_fields_def at_least_def)

lemma ex_rail_proved:
  assumes "rail \<in> set REQUIRED_RAILS"
  shows "rail_proved ex_fs ex_root (map (\<lambda>r. (r, ex_rail)) REQUIRED_RAILS) rail
    (sha256_bytes (canonical_payload (JObj [(lit ''standing'', JStr (lit ''ALIVE''))])))"
proof -
  have "json_ok (JObj [(lit ''standing'', JStr (lit ''ALIVE''))])" by simp
  note hash = canonical_hash_payload(1) [OF this]
  from assms have "map_of (map (\<lambda>r. (r, ex_rail)) REQUIRED_RAILS) rail = Some ex_rail"
    by (simp add: map_of_map_restrict)
  with hash ex_alive_file ex_bytes(2) show ?thesis
    by (auto simp: rail_proved_def ex_rail_def ex_rail_entry_def)
qed

lemma ex_rails: "rails_evidenced ex_fs ex_root ex_crown"
proof -
  have "lit ''beam'' \<in> set REQUIRED_RAILS" "lit ''wasm'' \<in> set REQUIRED_RAILS"
    by (simp_all add: REQUIRED_RAILS_def)
  with ex_rail_proved have "group_evidenced ex_fs ex_root (map (\<lambda>r. (r, ex_rail)) REQUIRED_RAILS)
      (JObj [(lit ''rails'', JArr [JStr (lit ''beam''), JStr (lit ''wasm'')])])"
    unfolding group_evidenced_def by auto
  with ex_rail_proved show ?thesis
    by (auto simp: rails_evidenced_def ex_crown_def ex_body_def o_def image_image)
qed

lemma ex_crown_rails:
  "fld ex_crown ''rails'' = Some (JObj (map (\<lambda>r. (r, ex_rail)) REQUIRED_RAILS))"
  "fld ex_crown ''rail_differential_groups''
     = Some (JArr [JObj [(lit ''rails'', JArr [JStr (lit ''beam''), JStr (lit ''wasm'')])]])"
  by (simp_all add: ex_crown_def ex_body_def)

lemma ex_commands: "commands_evidenced ex_fs ex_root ex_crown"
  using ex_bytes(1)
  by (simp add: commands_evidenced_def command_proved_def ex_crown_def ex_body_def exit_zero_def)

lemma ex_replays: "replays_evidenced ex_fs ex_root ex_crown"
  using ex_replay_file by (auto simp: replays_evidenced_def replay_proved_def ex_crown_def ex_body_def)

lemma ex_attestation_proved:
  assumes "attests_json ex_fs ex_root (ex_entry n) (ex_attestation h r d)" "h \<noteq> []" "r \<noteq> []" "d \<noteq> []"
  shows "attestation_proved ex_fs ex_root ex_source (JObj (ex_entry n)) (ex_attestation h r d)"
  using assms
  by (simp add: attestation_proved_def attestation_keys_def text_at_def ex_attestation_def)

definition ex_attestations :: "json dict list" where
  "ex_attestations =
     [ex_attestation ''h1'' ''iad'' ''x'', ex_attestation ''h2'' ''iad'' ''y'',
      ex_attestation ''h3'' ''fra'' ''z'', ex_attestation ''h4'' ''fra'' ''x'',
      ex_attestation ''h5'' ''iad'' ''x'']"

lemma ex_topology:
  "topology_evidenced ex_fs ex_root ex_crown ex_source (fold add_attestation ex_attestations empty_topology)"
proof -
  have "list_all2 (attestation_proved ex_fs ex_root ex_source)
      (map (\<lambda>n. JObj (ex_entry n)) [''a.json'', ''b.json'', ''c.json'', ''d.json'', ''e.json''])
      ex_attestations"
    by (simp add: ex_attestations_def ex_attestation_proved ex_attestation_files)
  moreover have "(\<lambda>a. text_at a (lit ''host_id'')) ` set ex_attestations
      = lit ` {''h1'', ''h2'', ''h3'', ''h4'', ''h5''}"
    "(\<lambda>a. text_at a (lit ''region'')) ` set ex_attestations = lit ` {''iad'', ''fra''}"
    "(\<lambda>a. text_at a (lit ''fault_domain'')) ` set ex_attestations = lit ` {''x'', ''y'', ''z''}"
    "(\<lambda>a. text_at a (lit ''cert_fingerprint'')) ` set ex_attestations
      = lit ` {''h1'', ''h2'', ''h3'', ''h4'', ''h5''}"
    by (auto simp: ex_attestations_def ex_attestation_def text_at_def)
  ultimately show ?thesis
    unfolding topology_evidenced_def
    by (intro exI [of _ "map (\<lambda>f. (f, JBool True)) global_fields
         @ [(lit ''attestations'', JArr (map (\<lambda>n. JObj (ex_entry n))
              [''a.json'', ''b.json'', ''c.json'', ''d.json'', ''e.json'']))]"]
          exI [of _ "map (\<lambda>n. JObj (ex_entry n)) [''a.json'', ''b.json'', ''c.json'', ''d.json'', ''e.json'']"]
          exI [of _ ex_attestations])
      (simp add: ex_crown_def ex_body_def global_fields_def card_image)
qed

lemma ex_sabotage: "sabotage_evidenced ex_crown"
  by (auto simp: sabotage_evidenced_def ex_crown_def ex_body_def o_def image_image)

lemma ex_entry_ok [simp]: "json_ok (JObj (ex_entry n))"
  by (simp add: ex_entry_def file_entry_def)

lemmas ex_entry_parts [simp] = ex_entry_ok [unfolded json_ok.simps]

lemma ex_body_ok: "json_ok (JObj ex_body)"
  by (simp add: ex_body_def ex_rail_def ex_rail_entry_def REQUIRED_RAILS_def powl_fields_def global_fields_def
      REQUIRED_SABOTAGE_def)

lemma ex_hashed: "hash_evidenced ex_crown"
  using canonical_hash_payload(1) [OF ex_body_ok]
  by (simp add: hash_evidenced_def ex_fields ex_hash_def)

theorem ex_accepted: "\<exists>result. verify_crown ex_git ex_fs ex_root ex_crown None None = Inr result"
  unfolding verify_crown_iff crown_evidenced_def
  using ex_identity ex_topology ex_powl ex_rails ex_commands ex_replays ex_sabotage ex_hashed by blast

text \<open>The same crown, claiming a standing of its own.\<close>

definition ex_claiming :: "json dict" where
  "ex_claiming = (lit ''standing'', JStr (lit ''CERTIFIED'')) # ex_crown"

lemma ex_claiming_fields:
  "fld ex_claiming ''evidence_hash'' = Some (JStr ex_hash)"
  "unsigned_crown ex_claiming = unsigned_crown ex_crown"
  using ex_fields(1) by (simp_all add: ex_claiming_def unsigned_crown_def)

lemma ex_claiming_verified:
  "verify_crown git fs root ex_claiming es et = verify_crown git fs root ex_crown es et"
  by (rule verify_crown_cong) (simp_all add: ex_claiming_fields, simp add: ex_claiming_def)

section \<open>A run of the command\<close>

definition ex_args :: crown_args where
  "ex_args = \<lparr>crown_arg = lit ''crown.json'', evidence_root_arg = lit ''ev'',
     expected_source_arg = None, expected_tree_arg = Some [], output_arg = Some (lit ''out.json'')\<rparr>"

lemma ex_paths:
  "path_parts (lit ''crown.json'') = [lit ''crown.json'']" "plain_name (lit ''crown.json'')"
  "path_parts (lit ''ev'') = [lit ''ev'']" "plain_name (lit ''ev'')"
  "path_parts (lit ''out.json'') = [lit ''out.json'']" "plain_name (lit ''out.json'')"
  "\<not> is_absolute (lit ''crown.json'')" "\<not> is_absolute (lit ''ev'')" "\<not> is_absolute (lit ''out.json'')"
  by (simp_all add: plain_simps is_absolute_def)

lemma ex_resolve:
  "resolve ex_fs (join_path [] (lit ''crown.json'')) = Inr [lit ''crown.json'']"
  "resolve ex_fs (join_path [] (lit ''ev'')) = Inr ex_root"
  "resolve ex_fs (join_path [] (lit ''out.json'')) = Inr [lit ''out.json'']"
  by (simp_all add: join_path_def ex_paths resolve_plain canonical_def ex_root_def)

lemma ex_crown_ok: "json_ok (JObj ex_crown)"
  using ex_body_ok by (auto simp: ex_crown_def ex_hash_def) (auto simp: ex_body_def)

lemma ex_crown_read: "load_json_file ex_fs [lit ''crown.json''] = Inr (JObj ex_crown)"
proof -
  have "list_all clean (dump compact 0 (JObj ex_crown))" by (rule dump_ascii(1)) (simp, simp add: compact_def)
  then obtain bs where bs: "utf8_encode (dump compact 0 (JObj ex_crown)) = Inr bs"
      "read_text bs = Inr (dump compact 0 (JObj ex_crown))"
    by (rule write_clean)
  have "node_at ex_fs [lit ''crown.json''] = Some (File ex_crown_bytes)"
    by (simp add: node_at_def ex_fs_def evidence_dir_def ex_root_def)
  then have "read_bytes ex_fs [lit ''crown.json''] = Inr ex_crown_bytes"
    by (intro read_bytes_plain) (simp_all add: canonical_def plain_name_def)
  with bs loads_dump [OF _ ex_crown_ok, of compact] show ?thesis
    by (simp add: load_json_file_def read_path_text_def ex_crown_bytes_def)
qed

lemma ex_verified: "\<exists>result. verify ex_git ex_fs [lit ''crown.json''] ex_root None (Some []) = Inr result"
proof -
  have "identity_evidenced ex_git ex_crown None (Some []) ex_source"
    using ex_identity by (simp add: identity_evidenced_def differs_def)
  then have "crown_evidenced ex_git ex_fs ex_root ex_crown None (Some [])"
    unfolding crown_evidenced_def
    using ex_topology ex_powl ex_rails ex_commands ex_replays ex_sabotage ex_hashed by blast
  then show ?thesis by (simp add: verify_def ex_crown_read verify_crown_iff)
qed

lemma ex_run: "exit_code (crown_main ex_git ex_fs [] ex_args) = 0"
proof -
  from ex_verified obtain result where r: "verify ex_git ex_fs [lit ''crown.json''] ex_root None (Some []) = Inr result" ..
  have "list_all clean (dumps indented result @ [10])"
    unfolding dumps_def by (simp add: dump_ascii indented_def layout_clean_def lit_def)
  then obtain bs where "write_text (dumps indented result @ [10]) = Inr bs" by (rule write_clean)
  moreover have "node_at ex_fs [lit ''out.json''] = None" "node_at ex_fs (butlast [lit ''out.json'']) = Some Dir"
    by (simp_all add: node_at_def ex_fs_def evidence_dir_def ex_root_def map_of_eq_None_iff image_image split_beta image_iff)
  moreover have "locate ex_fs (join_path [] (lit ''out.json'')) = Inr [lit ''out.json'']"
    by (simp add: join_path_def ex_paths locate_plain canonical_def)
  ultimately show ?thesis
    using r by (simp add: crown_main_def ex_args_def ex_resolve Let_def write_file_def crown_alive_def)
qed

end
