(* ===== verification/Sha256Vectors.thy ===== *)
theory Sha256Vectors
  imports Sha256
begin

text \<open>
  Known answers of SHA-256, computed in the kernel from the definitions: the
  empty message and the one-block example of FIPS 180-4.
\<close>

lemma sha256_empty:
  "sha256_hex [] = map of_char ''e3b0c44298fc1c149afbf4c8996fb92427ae41e4649b934ca495991b7852b855''"
  by code_simp

lemma sha256_abc:
  "sha256_hex [97, 98, 99] = map of_char ''ba7816bf8f01cfea414140de5dae2223b00361a396177a9cb410ff61f20015ad''"
  by code_simp

lemma sha256_differs: "sha256_hex [] \<noteq> sha256_hex [97, 98, 99]"
  by (simp add: sha256_empty sha256_abc)

end
