(* ===== verification/CrownProps.thy ===== *)
theory CrownProps
  imports CrownExample Sha256Vectors
begin

text \<open>
  The properties of the crown verifier: what an accepted crown guarantees, that
  changed evidence is refused, and what the evidence hash binds.
\<close>

section \<open>The whole verifier\<close>

text \<open>C1: a crown is declared ALIVE exactly when every court is evidenced independently:
  identity, POWL, rails, commands, replays, topology, sabotage and the evidence
  hash, whatever the order in which the verifier visits them; no exception of the
  interpreter can be the reason of an acceptance or of a refusal of such a crown.\<close>

theorem crown_alive_iff:
  "(\<exists>result. verify_crown git fs root crown es et = Inr result) \<longleftrightarrow> crown_evidenced git fs root crown es et"
  by (rule verify_crown_iff)

text \<open>The report of an accepted crown states ALIVE, the revision git reports for the
  working tree, and the recomputed hash of the evidence, never the hash or the
  standing the crown claims.\<close>

theorem crown_report:
  assumes "verify_crown git fs root crown es et = Inr result"
  shows "\<exists>d source h. result = JObj d \<and> fld d ''standing'' = Some (JStr (lit ''ALIVE''))
    \<and> git_output git [lit ''rev-parse'', lit ''HEAD''] = Inr source
    \<and> fld d ''source_sha'' = Some (JStr source)
    \<and> canonical_hash (JObj (unsigned_crown crown)) = Inr h
    \<and> fld d ''evidence_hash'' = Some (JStr h)"
proof -
  from assms obtain source tree h where i: "verify_identity git crown es et = Inr (source, tree)"
    and h: "canonical_hash (JObj (unsigned_crown crown)) = Inr h"
    and r: "\<exists>d. result = JObj d \<and> fld d ''standing'' = Some (JStr (lit ''ALIVE''))
      \<and> fld d ''source_sha'' = Some (JStr source) \<and> fld d ''evidence_hash'' = Some (JStr h)"
    by (fastforce simp: verify_crown_def res_dest split: prod.splits)
  from i have "git_output git [lit ''rev-parse'', lit ''HEAD''] = Inr source"
    by (simp add: verify_identity_iff)
  with h r show ?thesis by blast
qed

theorem crown_report_witness:
  "\<exists>result d. verify_crown ex_git ex_fs ex_root ex_crown None None = Inr result
    \<and> result = JObj d \<and> fld d ''standing'' = Some (JStr (lit ''ALIVE''))"
  using ex_accepted crown_report [of ex_git ex_fs ex_root ex_crown None None] by metis

text \<open>The command fails closed. Either it exits with zero, and then the crown file was
  verified and the standard output is the rendered report, or it exits with one,
  prints nothing on the standard output and leaves the file system unchanged.\<close>

theorem crown_main_fail_closed:
  "(\<exists>crown_path root result. resolve fs (join_path cwd (crown_arg args)) = Inr crown_path
      \<and> resolve fs (join_path cwd (evidence_root_arg args)) = Inr root
      \<and> verify git fs crown_path root (expected_source_arg args) (expected_tree_arg args) = Inr result
      \<and> exit_code (crown_main git fs cwd args) = 0 \<and> refused (crown_main git fs cwd args) = None
      \<and> stdout (crown_main git fs cwd args) = dumps indented result @ [10])
   \<or> (\<exists>e. crown_main git fs cwd args
        = \<lparr>exit_code = 1, stdout = [], refused = Some e, fs_after = fs\<rparr>)"
  by (auto simp: crown_main_def crown_refused_def crown_alive_def Let_def res_dest
      split: sum.splits option.splits)

text \<open>A report that was written is the report that was printed: after an exit with zero,
  the file the output argument resolves to holds the encoded standard output, and
  no other file has changed.\<close>

theorem crown_output_written:
  assumes "output_arg args = Some out" "out \<noteq> []"
    and "exit_code (crown_main git fs cwd args) = 0" "resolve fs (join_path cwd out) = Inr q"
  shows "\<exists>bs. utf8_encode (stdout (crown_main git fs cwd args)) = Inr bs
    \<and> (\<forall>p. node_at (fs_after (crown_main git fs cwd args)) p = (if p = q then Some (File bs) else node_at fs p))"
proof -
  let ?run = "crown_main git fs cwd args"
  from assms(1-3) obtain bs where "utf8_encode (stdout ?run) = Inr bs"
    and w: "write_file fs (join_path cwd out) bs = Inr (fs_after ?run)"
    by (auto simp: crown_main_def crown_refused_def crown_alive_def Let_def res_dest write_text_def
        split: sum.splits)
  with write_file_node_at [OF w assms(4)] show ?thesis by blast
qed

theorem crown_output_written_witness:
  "\<exists>bs. utf8_encode (stdout (crown_main ex_git ex_fs [] ex_args)) = Inr bs
    \<and> node_at (fs_after (crown_main ex_git ex_fs [] ex_args)) [lit ''out.json''] = Some (File bs)"
  using crown_output_written [of ex_args "lit ''out.json''", OF _ _ ex_run ex_resolve(3)]
  by (auto simp: ex_args_def)

text \<open>C9: the standing a crown claims for itself is ignored: setting it to anything changes
  neither the verdict nor the report.\<close>

theorem crown_standing_ignored:
  "verify_crown git fs root (AList.update (lit ''standing'') claim crown) es et
     = verify_crown git fs root crown es et"
by (rule verify_crown_cong) (simp_all add: update_conv' unsigned_crown_def delete_update_same)

section \<open>Evidence files\<close>

text \<open>C3: the path of an evidence file that \<open>verify_file\<close> accepts begins with the resolved
  evidence root, and the digest its manifest entry states is the SHA-256 of all the
  bytes read there (although the verifier reads them in chunks). If resolving the entry
  meets no loop of symbolic links, the path runs through no link and has no dot
  component, so the bytes are those of a file under the root.\<close>

theorem evidence_file_contained:
  assumes "verify_file fs root entry label = Inr path"
  shows "\<exists>raw base rest bs. fld entry ''path'' = Some (JStr raw) \<and> resolve fs root = Inr base
    \<and> path = base @ rest \<and> read_bytes fs path = Inr bs
    \<and> fld entry ''sha256'' = Some (JStr (sha256_bytes bs))
    \<and> (loop_free fs (join_path root raw) \<longrightarrow> canonical fs path \<and> node_at fs path = Some (File bs))"
proof -
  from assms obtain raw bs where raw: "fld entry ''path'' = Some (JStr raw)" "within fs root raw = Inr path"
    and bs: "read_bytes fs path = Inr bs" "fld entry ''sha256'' = Some (JStr (sha256_bytes bs))"
    by (rule verify_file_Inr)
  from raw(2) obtain base where base: "resolve fs (join_path root raw) = Inr path"
    "resolve fs root = Inr base" "relative_to path base"
    by (rule within_Inr)
  have "canonical fs path \<and> node_at fs path = Some (File bs)" if "loop_free fs (join_path root raw)"
    using resolve_canonical [OF base(1) that] bs(1) read_bytes_canonical by blast
  with raw bs base(2,3) show ?thesis by (auto simp: relative_to_iff)
qed

theorem evidence_file_contained_witness:
  "\<exists>path bs. verify_file ex_fs ex_root (ex_entry ''r.json'') [] = Inr path \<and> read_bytes ex_fs path = Inr bs
    \<and> fld (ex_entry ''r.json'') ''sha256'' = Some (JStr (sha256_bytes bs))"
proof -
  obtain path where "verify_file ex_fs ex_root (ex_entry ''r.json'') [] = Inr path"
    using ex_bytes(1) verify_file_ok_iff by blast
  with evidence_file_contained [OF this] show ?thesis by blast
qed

text \<open>
  The condition on loops is needed. \<open>resolve\<close> leaves the rest of a path as it is after
  a link that leads to itself; a link of that rest is then not followed when
  \<open>within\<close> compares the path with the root, but is when the file is read.
\<close>

definition ex_loop_fs :: fs where
  "ex_loop_fs =
     [([lit ''ev''], Dir), ([lit ''ev'', lit ''loop''], Link (lit ''loop'')),
      ([lit ''ev'', lit ''up''], Link (lit ''..'')), ([lit ''secret''], File [1])]"

definition ex_loop_entry :: "json dict" where
  "ex_loop_entry =
     [(lit ''path'', JStr (lit ''loop/../up/secret'')), (lit ''sha256'', JStr (sha256_bytes [1]))]"

lemma ex_loop_resolved:
  "resolve ex_loop_fs (join_path [lit ''ev''] (lit ''loop/../up/secret'')) = Inr [lit ''ev'', lit ''up'', lit ''secret'']"
  "resolve ex_loop_fs [lit ''ev''] = Inr [lit ''ev'']"
  "relative_to [lit ''ev'', lit ''up'', lit ''secret''] [lit ''ev'']"
  "locate ex_loop_fs [lit ''ev'', lit ''up'', lit ''secret''] = Inr [lit ''secret'']"
  "node_at ex_loop_fs [lit ''secret''] = Some (File [1])"
  by code_simp+

theorem evidence_escapes_through_loop:
  "verify_file ex_loop_fs [lit ''ev''] ex_loop_entry label = Inr [lit ''ev'', lit ''up'', lit ''secret'']
   \<and> locate ex_loop_fs [lit ''ev'', lit ''up'', lit ''secret''] = Inr [lit ''secret'']
   \<and> \<not> relative_to [lit ''secret''] [lit ''ev'']"
proof -
  have read: "read_bytes ex_loop_fs [lit ''ev'', lit ''up'', lit ''secret''] = Inr [1]"
    using ex_loop_resolved(4,5) by (simp add: read_bytes_def)
  then have "within ex_loop_fs [lit ''ev''] (lit ''loop/../up/secret'') = Inr [lit ''ev'', lit ''up'', lit ''secret'']"
    using ex_loop_resolved(1-3) by (simp add: within_def is_file_iff)
  moreover have "\<not> relative_to [lit ''secret''] [lit ''ev'']" by (simp add: relative_to_def)
  ultimately show ?thesis
    using read ex_loop_resolved(4) by (simp add: verify_file_intro ex_loop_entry_def)
qed

text \<open>C5: hashing an evidence file ends: whatever the size of the file the loop over its
  chunks returns, after one read for each started mebibyte and the empty one, and
  then the context holds the SHA-256 of the content, which \<open>sha256_file\<close> returns.\<close>

theorem file_hashing_terminates:
  "\<exists>h. hash_loop 0 sha_new content = Some (Suc ((length content + chunk_size - 1) div chunk_size), h)
     \<and> sha_hexdigest h = sha256_bytes content
     \<and> sha_hexdigest h = sha256_stream content"
proof -
  have "0 < chunk_size" by (simp add: chunk_size_def)
  then have "hash_loop 0 sha_new content = Some (Suc ((length content + chunk_size - 1) div chunk_size),
      foldl sha_update sha_new (read_chunks chunk_size content))"
    by (simp add: hash_loop_chunks length_read_chunks)
  moreover have "sha_hexdigest (foldl sha_update sha_new (read_chunks chunk_size content)) = sha256_bytes content"
    using sha256_stream_eq [of content] by (simp add: sha256_stream_def)
  ultimately show ?thesis by (simp add: sha256_stream_eq)
qed

text \<open>C4: writing other bytes to an accepted evidence file makes \<open>verify_file\<close> refuse it
  with the mismatch of the two digests, unless the new bytes collide with the old
  under SHA-256.\<close>

theorem tampered_evidence_refused:
  assumes ok: "verify_file fs root entry label = Inr path"
    and old: "read_bytes fs path = Inr bs"
    and written: "write_file fs path bs' = Inr fs'"
    and differ: "sha256_bytes bs' \<noteq> sha256_bytes bs"
  shows "verify_file fs' root entry label =
    Inl (Evidence (DigestMismatch label (sha256_bytes bs) (sha256_bytes bs')))"
proof -
  from ok obtain raw b where raw: "fld entry ''path'' = Some (JStr raw)" "within fs root raw = Inr path"
    and b: "read_bytes fs path = Inr b" "fld entry ''sha256'' = Some (JStr (sha256_bytes b))"
    by (rule verify_file_Inr)
  from overwrite [OF old written] have shape: "same_shape fs fs'" and new: "read_bytes fs' path = Inr bs'"
    by blast+
  from raw(2) have "within fs' root raw = Inr path"
    by (auto simp: within_def resolve_cong [OF shape] res_dest is_file_iff new)
  with raw(1) b old differ new show ?thesis by (simp add: verify_file_def sha256_bytes_def)
qed

theorem tampered_evidence_refused_witness:
  "\<exists>path bs bs' fs'. verify_file ex_fs ex_root (ex_entry ''r.json'') [] = Inr path
     \<and> read_bytes ex_fs path = Inr bs \<and> write_file ex_fs path bs' = Inr fs'
     \<and> verify_file fs' ex_root (ex_entry ''r.json'') []
       = Inl (Evidence (DigestMismatch [] (sha256_bytes bs) (sha256_bytes bs')))"
proof -
  obtain path where path: "verify_file ex_fs ex_root (ex_entry ''r.json'') [] = Inr path"
    using ex_bytes(1) verify_file_ok_iff by blast
  then obtain bs where bs: "read_bytes ex_fs path = Inr bs" by (auto elim: verify_file_Inr)
  obtain bs' where differ: "sha256_bytes bs' \<noteq> sha256_bytes bs"
    using sha256_differs by (metis sha256_bytes_def)
  from bs obtain fs' where "write_file ex_fs path bs' = Inr fs'"
    by (auto simp: read_bytes_iff write_file_def)
  from tampered_evidence_refused [OF path bs this differ] path bs this show ?thesis by blast
qed

section \<open>Rails\<close>

text \<open>An accepted crown proves each of the five required rails from evidence: the
  entry states ALIVE, the artifact and the result file have their stated digests,
  the result document itself states ALIVE and its canonical hash is the one the
  entry and the table of results carry.\<close>

theorem rails_all_proved:
  assumes "verify_rails fs root crown = Inr table"
  shows "\<exists>rails. fld crown ''rails'' = Some (JObj rails)
    \<and> set (keys table) = set REQUIRED_RAILS
    \<and> (\<forall>rail\<in>set REQUIRED_RAILS. \<exists>h. map_of table rail = Some h \<and> rail_proved fs root rails rail h)"
proof -
  from assms obtain rails where r: "fld crown ''rails'' = Some (JObj rails)"
    "efold (verify_rail fs root rails) [] (sort REQUIRED_RAILS) = Inr table"
    by (auto simp: verify_rails_iff)
  from verify_rail_loop [OF r(2)] r(1) show ?thesis by auto
qed

theorem rails_all_proved_witness:
  "\<exists>table. verify_rails ex_fs ex_root ex_crown = Inr table \<and> set (keys table) = set REQUIRED_RAILS"
  using rails_all_proved [of ex_fs ex_root ex_crown] ex_rails rails_court by blast

text \<open>C7: the rails of one differential group of an accepted crown computed the same
  result: for any two of them the verified result documents are equal up to the
  order of keys, unless the canonical payloads of these two documents, the bytes
  that were hashed, are a SHA-256 collision.\<close>

theorem differential_group_agrees:
  assumes ok: "verify_rails fs root crown = Inr table"
    and rails: "fld crown ''rails'' = Some (JObj rails)"
    and grp: "fld crown ''rail_differential_groups'' = Some (JArr groups)" "JObj g \<in> set groups"
      "fld g ''rails'' = Some (JArr members)" "JStr r \<in> set members" "JStr s \<in> set members"
    and docs: "map_of rails r = Some (JObj er)" "fld er ''result'' = Some (JObj mr)" "attests_json fs root mr d"
      "map_of rails s = Some (JObj es)" "fld es ''result'' = Some (JObj ms)" "attests_json fs root ms e"
    and well: "json_ok (JObj d)" "json_ok (JObj e)"
  shows "sort_json (JObj d) = sort_json (JObj e)
    \<or> sha256_collision (canonical_payload (JObj d)) (canonical_payload (JObj e))"
proof -
  from ok rails grp(1,2) have loop: "efold (verify_rail fs root rails) [] (sort REQUIRED_RAILS) = Inr table"
    and gok: "verify_group table (JObj g) = Inr ()"
    by (auto simp: verify_rails_iff)
  from gok grp(3-5) obtain h where h: "map_of table r = Some h" "map_of table s = Some h"
    by (auto simp: verify_group_iff)
  then have "r \<in> set (keys table)" "s \<in> set (keys table)" by (force dest: map_of_SomeD)+
  with verify_rail_loop [OF loop] have "r \<in> set (sort REQUIRED_RAILS)" "s \<in> set (sort REQUIRED_RAILS)"
    by auto
  with verify_rail_loop [OF loop, of r] verify_rail_loop [OF loop, of s] h
  have "rail_proved fs root rails r h" "rail_proved fs root rails s h" by auto
  then have "canonical_hash (JObj d) = Inr h" "canonical_hash (JObj e) = Inr h"
    using docs attests_json_unique by (fastforce simp: rail_proved_def)+
  from canonical_hash_eq [OF this well] show ?thesis .
qed

theorem differential_group_agrees_witness:
  "\<exists>d e. attests_json ex_fs ex_root (ex_entry ''r.json'') d
    \<and> attests_json ex_fs ex_root (ex_entry ''r.json'') e
    \<and> (sort_json (JObj d) = sort_json (JObj e)
        \<or> sha256_collision (canonical_payload (JObj d)) (canonical_payload (JObj e)))"
proof -
  obtain table where table: "verify_rails ex_fs ex_root ex_crown = Inr table"
    using ex_rails rails_court by blast
  have rail: "map_of (map (\<lambda>r. (r, ex_rail)) REQUIRED_RAILS) r = Some (JObj ex_rail_entry)"
    if "r \<in> set REQUIRED_RAILS" for r
    using that by (simp add: map_of_map_restrict ex_rail_def)
  have members: "lit ''beam'' \<in> set REQUIRED_RAILS" "lit ''wasm'' \<in> set REQUIRED_RAILS"
    by (simp_all add: REQUIRED_RAILS_def)
  have result: "fld ex_rail_entry ''result'' = Some (JObj (ex_entry ''r.json''))"
    by (simp add: ex_rail_entry_def)
  have ok: "json_ok (JObj [(lit ''standing'', JStr (lit ''ALIVE''))])" by simp
  have "sort_json (JObj [(lit ''standing'', JStr (lit ''ALIVE''))])
        = sort_json (JObj [(lit ''standing'', JStr (lit ''ALIVE''))])
      \<or> sha256_collision (canonical_payload (JObj [(lit ''standing'', JStr (lit ''ALIVE''))]))
          (canonical_payload (JObj [(lit ''standing'', JStr (lit ''ALIVE''))]))"
    by (rule differential_group_agrees [where g = "[(lit ''rails'', JArr [JStr (lit ''beam''), JStr (lit ''wasm'')])]"
        and members = "[JStr (lit ''beam''), JStr (lit ''wasm'')]", OF table ex_crown_rails _ _ _ _ rail [OF members(1)] result
        ex_alive_file rail [OF members(2)] result ex_alive_file ok ok]) simp_all
  with ex_alive_file show ?thesis by blast
qed

section \<open>Commands and replays\<close>

text \<open>The commands an accepted crown reports are exactly the commands of its
  entries, in order, each with a zero exit, an attested log and a non-empty
  command line; one entry that fails any of these makes the court refuse.\<close>

theorem commands_accepted_iff:
  "verify_commands fs root crown = Inr commands \<longleftrightarrow>
     (\<exists>entries. fld crown ''commands'' = Some (JArr entries) \<and> entries \<noteq> []
        \<and> list_all2 (command_proved fs root) entries commands)"
  by (rule verify_commands_iff)

section \<open>Topology and sabotage\<close>

text \<open>C8: a topology the court accepts has at least five hosts, two regions, three failure
  domains and five certificate fingerprints, no one listed twice, and each
  comes from one of the crown's attestations, attested for the crown's source
  revision.\<close>

theorem topology_hosts_attested:
  assumes "verify_global fs root crown source = Inr t"
  shows "\<exists>g manifests. fld crown ''global'' = Some (JObj g) \<and> fld g ''attestations'' = Some (JArr manifests)
    \<and> distinct (hosts t) \<and> 5 \<le> length (hosts t) \<and> distinct (fingerprints t) \<and> 5 \<le> length (fingerprints t)
    \<and> distinct (regions t) \<and> 2 \<le> length (regions t) \<and> distinct (domains t) \<and> 3 \<le> length (domains t)
    \<and> (\<forall>h\<in>set (hosts t). \<exists>manifest\<in>set manifests. \<exists>att. attestation_proved fs root source manifest att
          \<and> fld att ''host_id'' = Some (JStr h) \<and> h \<noteq> [])"
proof -
  from assms obtain g manifests atts where g: "fld crown ''global'' = Some (JObj g)"
      "fld g ''attestations'' = Some (JArr manifests)"
    and m: "list_all2 (attestation_proved fs root source) manifests atts"
    and t: "t = fold add_attestation atts empty_topology"
    and n: "5 \<le> card ((\<lambda>a. text_at a (lit ''host_id'')) ` set atts)"
      "2 \<le> card ((\<lambda>a. text_at a (lit ''region'')) ` set atts)"
      "3 \<le> card ((\<lambda>a. text_at a (lit ''fault_domain'')) ` set atts)"
      "5 \<le> card ((\<lambda>a. text_at a (lit ''cert_fingerprint'')) ` set atts)"
    unfolding topology_court topology_evidenced_def by blast
  have d: "topology_distinct t"
    unfolding t by (rule topology_distinct_fold) (simp add: topology_distinct_def empty_topology_def)
  have "\<exists>manifest\<in>set manifests. \<exists>att. attestation_proved fs root source manifest att
      \<and> fld att ''host_id'' = Some (JStr h) \<and> h \<noteq> []" if "h \<in> set (hosts t)" for h
  proof -
    from that obtain att where att: "att \<in> set atts" "h = text_at att (lit ''host_id'')"
      by (auto simp: t fold_add_attestation empty_topology_def)
    then obtain manifest where p: "attestation_proved fs root source manifest att" "manifest \<in> set manifests"
      using m by (metis in_set_conv_nth list_all2_conv_all_nth)
    then have "text_at att (lit ''host_id'') \<noteq> []" by (auto simp: attestation_proved_def attestation_keys_def)
    with att(2) have "fld att ''host_id'' = Some (JStr h)" "h \<noteq> []"
      by (auto simp: text_at_def split: option.splits json.splits)
    with p show ?thesis by blast
  qed
  moreover have "distinct (hosts t) \<and> 5 \<le> length (hosts t) \<and> distinct (fingerprints t) \<and> 5 \<le> length (fingerprints t)
    \<and> distinct (regions t) \<and> 2 \<le> length (regions t) \<and> distinct (domains t) \<and> 3 \<le> length (domains t)"
    using d n by (simp add: topology_distinct_def t fold_add_attestation_card)
  ultimately show ?thesis using g by blast
qed

theorem topology_hosts_attested_witness:
  "\<exists>t. verify_global ex_fs ex_root ex_crown ex_source = Inr t \<and> 5 \<le> length (hosts t)"
  using topology_hosts_attested [of ex_fs ex_root ex_crown ex_source] ex_topology
  unfolding topology_court by blast

text \<open>The sabotage court refuses an incomplete ledger by naming, in order, exactly the
  required mutations it lacks, and a complete one by naming the mutations not
  detected; it accepts otherwise, with the number of the ledger's mutations.\<close>

theorem sabotage_verdict:
  assumes "fld crown ''sabotage'' = Some (JObj ledger)"
  shows "verify_sabotage crown =
    (if \<not> set REQUIRED_SABOTAGE \<subseteq> set (keys ledger)
     then Inl (Sabotage (SabotageMissing (sorted_list_of_set (set REQUIRED_SABOTAGE - set (keys ledger)))))
     else if \<exists>p\<in>set ledger. snd p \<noteq> JStr (lit ''DETECTED'')
     then Inl (Sabotage (SabotageSurvived (sort (map fst (filter (\<lambda>p. snd p \<noteq> JStr (lit ''DETECTED'')) ledger)))))
     else Inr (length ledger))"
proof -
  let ?missing = "filter (\<lambda>name. name \<notin> set (keys ledger)) REQUIRED_SABOTAGE"
  have "distinct REQUIRED_SABOTAGE" by (simp add: REQUIRED_SABOTAGE_def)
  then have "sort ?missing = sorted_list_of_set (set ?missing)"
    by (metis distinct_filter distinct_remdups_id sorted_list_of_set_sort_remdups)
  moreover have "set ?missing = set REQUIRED_SABOTAGE - set (keys ledger)" by auto
  moreover have "?missing = [] \<longleftrightarrow> set REQUIRED_SABOTAGE \<subseteq> set (keys ledger)"
    by (auto simp: filter_empty_conv)
  moreover have "sort (map fst (filter (\<lambda>p. snd p \<noteq> JStr (lit ''DETECTED'')) ledger)) = []
      \<longleftrightarrow> \<not> (\<exists>p\<in>set ledger. snd p \<noteq> JStr (lit ''DETECTED''))"
    by (simp add: filter_empty_conv)
  ultimately show ?thesis
    using assms unfolding verify_sabotage_def Let_def
    by (simp only: obj_field_Some [THEN iffD2] of_option_simps ebind.simps if_not_P if_P split: if_split) simp
qed

theorem sabotage_verdict_witness:
  "verify_sabotage [(lit ''sabotage'', JObj (map (\<lambda>n. (n, JStr (lit ''MISSED''))) REQUIRED_SABOTAGE))]
    = Inl (Sabotage (SabotageSurvived (sort REQUIRED_SABOTAGE)))"
  using sabotage_verdict [of "[(lit ''sabotage'', JObj (map (\<lambda>n. (n, JStr (lit ''MISSED''))) REQUIRED_SABOTAGE))]"
      "map (\<lambda>n. (n, JStr (lit ''MISSED''))) REQUIRED_SABOTAGE"]
  by (auto simp: o_def image_image filter_map REQUIRED_SABOTAGE_def)

section \<open>The evidence hash\<close>

text \<open>C6: two accepted crowns that carry the same evidence hash hold the same evidence:
  without standing and hash they are equal up to the order of keys, unless the
  canonical payloads of the two are themselves a SHA-256 collision.\<close>

theorem evidence_hash_binds:
  assumes "verify_crown git fs root crown es et = Inr result"
    and "verify_crown git' fs' root' crown' es' et' = Inr result'"
    and "fld crown ''evidence_hash'' = Some (JStr h)" "fld crown' ''evidence_hash'' = Some (JStr h)"
    and "json_ok (JObj (unsigned_crown crown))" "json_ok (JObj (unsigned_crown crown'))"
  shows "sort_json (JObj (unsigned_crown crown)) = sort_json (JObj (unsigned_crown crown'))
    \<or> sha256_collision (canonical_payload (JObj (unsigned_crown crown)))
        (canonical_payload (JObj (unsigned_crown crown')))"
proof -
  have hash: "canonical_hash (JObj (unsigned_crown c)) = Inr h"
    if "verify_crown g f r c a b = Inr w" "fld c ''evidence_hash'' = Some (JStr h)" for g f r c a b w
    using that by (auto simp: verify_crown_def res_dest split: prod.splits)
  from canonical_hash_eq [OF hash [OF assms(1,3)] hash [OF assms(2,4)] assms(5,6)]
  show ?thesis .
qed

theorem evidence_hash_binds_witness:
  "\<exists>result. verify_crown ex_git ex_fs ex_root ex_crown None None = Inr result
    \<and> (sort_json (JObj (unsigned_crown ex_crown)) = sort_json (JObj (unsigned_crown ex_claiming))
      \<or> sha256_collision (canonical_payload (JObj (unsigned_crown ex_crown)))
          (canonical_payload (JObj (unsigned_crown ex_claiming))))"
proof -
  obtain result where r: "verify_crown ex_git ex_fs ex_root ex_crown None None = Inr result"
    using ex_accepted ..
  then have r': "verify_crown ex_git ex_fs ex_root ex_claiming None None = Inr result"
    by (simp only: ex_claiming_verified)
  have ok: "json_ok (JObj (unsigned_crown ex_crown))" by (simp only: ex_fields(2) ex_body_ok)
  with ex_claiming_fields(2) have ok': "json_ok (JObj (unsigned_crown ex_claiming))" by simp
  from r evidence_hash_binds [OF r r' ex_fields(1) ex_claiming_fields(1) ok ok'] show ?thesis by blast
qed

end
