(* ===== verification/PyRegex.thy ===== *)
theory PyRegex
  imports PyText
begin

text \<open>
  The regular expressions of the scripts, with the backtracking order of
  Python's \<open>re\<close>: a matcher that lists every way to match in the order the
  engine tries them, and \<open>match\<close>, \<open>fullmatch\<close>, \<open>search\<close> and \<open>findall\<close> on top.
  Beside it stands a match relation without order; the matcher is sound and
  complete for it, so the language of a pattern can be argued about without the
  search. All repetitions in the scripts repeat a character class.
\<close>

section \<open>Patterns\<close>

datatype item =
    Range nat nat
  | Space

record cclass =
  negated :: bool
  items :: "item list"

fun in_item :: "nat \<Rightarrow> item \<Rightarrow> bool" where
  "in_item c (Range a b) = (a \<le> c \<and> c \<le> b)"
| "in_item c Space = is_py_space c"

definition in_class :: "cclass \<Rightarrow> nat \<Rightarrow> bool" where
  "in_class cls c \<longleftrightarrow> list_ex (in_item c) (items cls) \<noteq> negated cls"

definition one_of :: "item list \<Rightarrow> cclass" where
  "one_of is = \<lparr>negated = False, items = is\<rparr>"

definition none_of :: "item list \<Rightarrow> cclass" where
  "none_of is = \<lparr>negated = True, items = is\<rparr>"

lemma in_one_of [simp]: "in_class (one_of is) c \<longleftrightarrow> list_ex (in_item c) is"
  by (simp add: in_class_def one_of_def)

lemma in_none_of [simp]: "in_class (none_of is) c \<longleftrightarrow> \<not> list_ex (in_item c) is"
  by (simp add: in_class_def none_of_def)

lemma list_all_class [simp]:
  "list_all (in_class (one_of is)) w \<longleftrightarrow> list_all (\<lambda>c. list_ex (in_item c) is) w"
  "list_all (in_class (none_of is)) w \<longleftrightarrow> list_all (\<lambda>c. \<not> list_ex (in_item c) is) w"
  by (simp_all add: list_all_iff)

definition char_item :: "char \<Rightarrow> item" where
  "char_item c = Range (of_char c) (of_char c)"

definition span_item :: "char \<Rightarrow> char \<Rightarrow> item" where
  "span_item a b = Range (of_char a) (of_char b)"

lemma in_char_item [simp]: "in_item c (char_item d) \<longleftrightarrow> c = of_char d"
  by (auto simp: char_item_def)

text \<open>
  \<open>Many k cls\<close> is the greedy \<open>cls*\<close>, \<open>cls+\<close> with at least \<open>k\<close> repetitions;
  \<open>LineStart\<close> is \<open>^\<close> under \<open>MULTILINE\<close>; \<open>TextEnd\<close> is \<open>$\<close>; \<open>Boundary\<close> is \<open>\b\<close> for
  the given word characters.
\<close>

datatype rx =
    Eps
  | One cclass
  | Many nat cclass
  | Opt rx
  | Seq rx rx
  | Alt rx rx
  | Group nat rx
  | TextStart
  | LineStart
  | TextEnd
  | Boundary cclass

definition literal :: "string \<Rightarrow> rx" where
  "literal s = foldr (\<lambda>c r. Seq (One (one_of [char_item c])) r) s Eps"

definition sequence :: "rx list \<Rightarrow> rx" where
  "sequence rs = foldr Seq rs Eps"

definition exactly :: "nat \<Rightarrow> cclass \<Rightarrow> rx" where
  "exactly n cls = sequence (replicate n (One cls))"

section \<open>The matcher\<close>

text \<open>A position in the text: what is before it, reversed, what is after it, and the groups captured.\<close>

record cursor =
  before :: str
  after :: str
  groups :: "(nat \<times> str) list"

definition advance :: "nat \<Rightarrow> cursor \<Rightarrow> cursor" where
  "advance n s = s\<lparr>before := rev (take n (after s)) @ before s, after := drop n (after s)\<rparr>"

definition consumed :: "cursor \<Rightarrow> cursor \<Rightarrow> str" where
  "consumed s t = take (length (after s) - length (after t)) (after s)"

definition capture :: "nat \<Rightarrow> cursor \<Rightarrow> cursor \<Rightarrow> cursor" where
  "capture n s t = t\<lparr>groups := AList.update n (consumed s t) (groups t)\<rparr>"

definition at_end :: "str \<Rightarrow> bool" where
  "at_end r \<longleftrightarrow> r = [] \<or> r = [10]"

definition at_line_start :: "str \<Rightarrow> bool" where
  "at_line_start b \<longleftrightarrow> b = [] \<or> take 1 b = [10]"

definition word_at :: "cclass \<Rightarrow> str \<Rightarrow> bool" where
  "word_at w s \<longleftrightarrow> s \<noteq> [] \<and> in_class w (hd s)"

definition class_run :: "cclass \<Rightarrow> str \<Rightarrow> nat" where
  "class_run cls s = length (takeWhile (in_class cls) s)"

primrec runs :: "rx \<Rightarrow> cursor \<Rightarrow> cursor list" where
  "runs Eps s = [s]"
| "runs (One cls) s = (if after s \<noteq> [] \<and> in_class cls (hd (after s)) then [advance 1 s] else [])"
| "runs (Many k cls) s = map (\<lambda>n. advance n s) (rev [k..<Suc (class_run cls (after s))])"
| "runs (Opt r) s = runs r s @ [s]"
| "runs (Seq r q) s = concat (map (runs q) (runs r s))"
| "runs (Alt r q) s = runs r s @ runs q s"
| "runs (Group n r) s = map (capture n s) (runs r s)"
| "runs TextStart s = (if before s = [] then [s] else [])"
| "runs LineStart s = (if at_line_start (before s) then [s] else [])"
| "runs TextEnd s = (if at_end (after s) then [s] else [])"
| "runs (Boundary w) s = (if word_at w (before s) \<noteq> word_at w (after s) then [s] else [])"

definition start :: "str \<Rightarrow> cursor" where
  "start s = \<lparr>before = [], after = s, groups = []\<rparr>"

definition first :: "'a list \<Rightarrow> 'a option" where
  "first xs = (case xs of [] \<Rightarrow> None | x # _ \<Rightarrow> Some x)"

definition re_match :: "rx \<Rightarrow> str \<Rightarrow> cursor option" where
  "re_match r s = first (runs r (start s))"

definition re_fullmatch :: "rx \<Rightarrow> str \<Rightarrow> cursor option" where
  "re_fullmatch r s = first (filter (\<lambda>t. after t = []) (runs r (start s)))"

text \<open>\<open>search\<close> tries every position from the left.\<close>

definition positions :: "cursor \<Rightarrow> cursor list" where
  "positions s = map (\<lambda>n. advance n s) [0..<Suc (length (after s))]"

definition search_from :: "rx \<Rightarrow> cursor \<Rightarrow> cursor option" where
  "search_from r s = first (concat (map (runs r) (positions s)))"

definition re_search :: "rx \<Rightarrow> str \<Rightarrow> cursor option" where
  "re_search r s = search_from r (start s)"

text \<open>\<open>match.group(n)\<close>, when the group took part.\<close>

definition group_text :: "nat \<Rightarrow> cursor \<Rightarrow> str option" where
  "group_text n t = map_of (groups t) n"

section \<open>The match relation\<close>

inductive matches :: "rx \<Rightarrow> cursor \<Rightarrow> cursor \<Rightarrow> bool" where
  Eps: "matches Eps s s"
| One: "after s = c # rest \<Longrightarrow> in_class cls c \<Longrightarrow> matches (One cls) s (advance 1 s)"
| Many: "k \<le> n \<Longrightarrow> n \<le> length (after s) \<Longrightarrow> list_all (in_class cls) (take n (after s)) \<Longrightarrow>
    matches (Many k cls) s (advance n s)"
| OptNone: "matches (Opt r) s s"
| OptSome: "matches r s t \<Longrightarrow> matches (Opt r) s t"
| Seq: "matches r s t \<Longrightarrow> matches q t u \<Longrightarrow> matches (Seq r q) s u"
| AltL: "matches r s t \<Longrightarrow> matches (Alt r q) s t"
| AltR: "matches q s t \<Longrightarrow> matches (Alt r q) s t"
| Group: "matches r s t \<Longrightarrow> matches (Group n r) s (capture n s t)"
| TextStart: "before s = [] \<Longrightarrow> matches TextStart s s"
| LineStart: "at_line_start (before s) \<Longrightarrow> matches LineStart s s"
| TextEnd: "at_end (after s) \<Longrightarrow> matches TextEnd s s"
| Boundary: "word_at w (before s) \<noteq> word_at w (after s) \<Longrightarrow> matches (Boundary w) s s"

inductive_simps matches_simps [simp]:
  "matches Eps s t"
  "matches (Seq r q) s t"
  "matches (Alt r q) s t"
  "matches (Opt r) s t"
  "matches (Group n r) s t"
  "matches TextStart s t"
  "matches LineStart s t"
  "matches TextEnd s t"
  "matches (Boundary w) s t"

inductive_simps matches_One: "matches (One cls) s t"
inductive_simps matches_Many: "matches (Many k cls) s t"

lemma class_run_iff: "n \<le> class_run cls s \<longleftrightarrow> n \<le> length s \<and> list_all (in_class cls) (take n s)"
proof (induction s arbitrary: n)
  case Nil
  then show ?case by (simp add: class_run_def)
next
  case (Cons c s)
  then show ?case by (cases n) (auto simp: class_run_def)
qed

text \<open>The matcher finds exactly the matches.\<close>

lemma runs_iff: "t \<in> set (runs r s) \<longleftrightarrow> matches r s t"
proof (induction r arbitrary: s t)
  case (One cls)
  then show ?case by (cases "after s") (auto simp: matches_One)
next
  case (Many k cls)
  have "t \<in> set (runs (Many k cls) s)
      \<longleftrightarrow> (\<exists>n. k \<le> n \<and> n \<le> class_run cls (after s) \<and> t = advance n s)"
    by (auto simp: less_Suc_eq_le)
  then show ?case by (auto simp: matches_Many class_run_iff)
qed auto

lemma first_Some: "first xs = Some x \<Longrightarrow> x \<in> set xs"
  by (cases xs) (auto simp: first_def)

lemma first_None [simp]: "first xs = None \<longleftrightarrow> xs = []"
  by (cases xs) (auto simp: first_def)

text \<open>The first match of a search over alternatives comes from the first one that has any.\<close>

lemma first_concat:
  "first (concat (map f xs)) = Some d \<Longrightarrow>
     \<exists>as x bs. xs = as @ x # bs \<and> first (f x) = Some d \<and> (\<forall>a\<in>set as. f a = [])"
proof (induction xs)
  case (Cons x xs)
  show ?case
  proof (cases "f x")
    case Nil
    with Cons obtain as y bs where "xs = as @ y # bs" "first (f y) = Some d" "\<forall>a\<in>set as. f a = []" by auto
    with Nil show ?thesis by (intro exI [of _ "x # as"]) auto
  next
    case (Cons t ts)
    with Cons.prems show ?thesis by (intro exI [of _ "[]"]) (simp add: first_def)
  qed
qed (simp add: first_def)

text \<open>Greedy: of several lengths the longest that leads to a match is taken.\<close>

lemma first_longest:
  assumes "first (concat (map f (rev [0..<Suc k]))) = Some d"
  shows "\<exists>n\<le>k. first (f n) = Some d \<and> (\<forall>m. n < m \<and> m \<le> k \<longrightarrow> f m = [])"
proof -
  from first_concat [OF assms] obtain as n bs where split: "rev [0..<Suc k] = as @ n # bs"
    "first (f n) = Some d" "\<forall>a\<in>set as. f a = []" by blast
  have "[0..<Suc k] = rev bs @ [n] @ rev as" using split(1) by (metis append.assoc append_Cons append_Nil rev.simps(2) rev_append rev_rev_ident)
  then have "sorted_wrt (<) (rev bs @ [n] @ rev as)" "set (rev bs @ [n] @ rev as) = {0..<Suc k}"
    by (metis sorted_wrt_upt, metis set_upt)
  then have sets: "insert n (set bs \<union> set as) = {0..<Suc k}" and less: "\<forall>x\<in>set bs. x < n"
    by (simp_all add: sorted_wrt_append)
  have "n \<in> {0..<Suc k}" unfolding sets [symmetric] by simp
  then have "n \<le> k" by simp
  moreover have "m \<in> set as" if "n < m" "m \<le> k" for m
  proof -
    have "m \<in> insert n (set bs \<union> set as)" unfolding sets using that by simp
    with that less show ?thesis by auto
  qed
  ultimately show ?thesis using split(2,3) by blast
qed

lemma runs_sequence_append:
  "runs (sequence (rs @ qs)) s = concat (map (runs (sequence qs)) (runs (sequence rs) s))"
proof (induction rs arbitrary: s)
  case (Cons r rs)
  have nested: "concat (map (\<lambda>t. concat (map f (g t))) ts) = concat (map f (concat (map g ts)))" for f g and ts :: "cursor list"
    by (induction ts) simp_all
  show ?case using Cons by (simp add: sequence_def nested cong: map_cong)
qed (simp add: sequence_def)

text \<open>A pattern matches a text in full exactly when the relation relates its two ends.\<close>

lemma re_fullmatch_iff:
  "re_fullmatch r s \<noteq> None \<longleftrightarrow> (\<exists>t. matches r (start s) t \<and> after t = [])"
  by (auto simp: re_fullmatch_def filter_empty_conv runs_iff)

lemma set_search:
  "t \<in> set (concat (map (runs r) (positions (start s))))
     \<longleftrightarrow> (\<exists>n\<le>length s. matches r (advance n (start s)) t)"
proof -
  have "set (positions (start s)) = (\<lambda>n. advance n (start s)) ` {..length s}"
    unfolding positions_def set_map set_upt by (simp add: start_def atLeast0LessThan lessThan_Suc_atMost)
  then show ?thesis by (auto simp: runs_iff)
qed

lemma re_search_sound: "re_search r s = Some t \<Longrightarrow> \<exists>n\<le>length s. matches r (advance n (start s)) t"
  unfolding re_search_def search_from_def by (drule first_Some) (simp only: set_search)

lemma re_search_complete:
  "re_search r s = None \<longleftrightarrow> (\<forall>n\<le>length s. \<forall>t. \<not> matches r (advance n (start s)) t)"
proof -
  have none: "re_search r s = None \<longleftrightarrow> set (concat (map (runs r) (positions (start s)))) = {}"
    by (simp only: re_search_def search_from_def first_None set_empty)
  show ?thesis unfolding none by (simp only: set_eq_iff set_search empty_iff) blast
qed

section \<open>Movement\<close>

text \<open>A match moves forward over a prefix of what is left, and keeps the whole text.\<close>

definition whole :: "cursor \<Rightarrow> str" where
  "whole s = rev (before s) @ after s"

lemma advance_simps [simp]:
  "after (advance n s) = drop n (after s)" "before (advance n s) = rev (take n (after s)) @ before s"
  "groups (advance n s) = groups s"
  by (simp_all add: advance_def)

lemma whole_advance [simp]: "whole (advance n s) = whole s"
  by (simp add: whole_def)

lemma capture_simps [simp]:
  "after (capture n s t) = after t" "before (capture n s t) = before t"
  by (simp_all add: capture_def)

definition moves :: "cursor \<Rightarrow> str \<Rightarrow> cursor \<Rightarrow> bool" where
  "moves s w t \<longleftrightarrow> after s = w @ after t \<and> before t = rev w @ before s"

lemma moves_trans: "moves s v t \<Longrightarrow> moves t w u \<Longrightarrow> moves s (v @ w) u"
  by (simp add: moves_def)

lemma matches_moves: "matches r s t \<Longrightarrow> \<exists>w. moves s w t"
proof (induction rule: matches.induct)
  case (Seq r s t q u)
  then show ?case using moves_trans by blast
next
  case (Many k n s cls)
  then show ?case by (intro exI [of _ "take n (after s)"]) (simp add: moves_def)
next
  case (Group r s t n)
  then show ?case by (simp add: moves_def)
qed (auto simp: moves_def)

lemma consumed_moves: "moves s w t \<Longrightarrow> consumed s t = w"
  by (simp add: moves_def consumed_def)

text \<open>What a class-only pattern consumes.\<close>

lemma matches_One_iff:
  "matches (One cls) s t \<longleftrightarrow> (\<exists>c rest. after s = c # rest \<and> in_class cls c \<and> t = advance 1 s)"
  by (auto simp: matches_One)

lemma matches_Many_moves:
  "matches (Many k cls) s t \<Longrightarrow> \<exists>w. moves s w t \<and> k \<le> length w \<and> list_all (in_class cls) w \<and> groups t = groups s"
proof -
  assume "matches (Many k cls) s t"
  then obtain n where n: "t = advance n s" "k \<le> n" "n \<le> length (after s)"
    "list_all (in_class cls) (take n (after s))"
    by (auto simp: matches_Many)
  then show ?thesis by (intro exI [of _ "take n (after s)"]) (simp add: moves_def)
qed

lemma matches_sequence_Nil [simp]: "matches (sequence []) s t \<longleftrightarrow> t = s"
  by (auto simp: sequence_def)

lemma matches_sequence_Cons [simp]:
  "matches (sequence (r # rs)) s u \<longleftrightarrow> (\<exists>t. matches r s t \<and> matches (sequence rs) t u)"
  by (simp add: sequence_def)

lemma matches_exactly:
  "matches (exactly n cls) s t \<longleftrightarrow>
     n \<le> length (after s) \<and> list_all (in_class cls) (take n (after s)) \<and> t = advance n s"
proof (induction n arbitrary: s)
  case 0
  show ?case by (simp add: exactly_def advance_def)
next
  case (Suc n)
  have "matches (exactly (Suc n) cls) s t \<longleftrightarrow> (\<exists>u. matches (One cls) s u \<and> matches (exactly n cls) u t)"
    by (simp add: exactly_def)
  also have "\<dots> \<longleftrightarrow> Suc n \<le> length (after s) \<and> list_all (in_class cls) (take (Suc n) (after s)) \<and> t = advance (Suc n) s"
    by (cases "after s") (auto simp: Suc.IH matches_One_iff advance_def)
  finally show ?case .
qed

lemma matches_literal:
  "matches (literal w) s t \<longleftrightarrow> (\<exists>rest. after s = lit w @ rest) \<and> t = advance (length w) s"
proof (induction w arbitrary: s)
  case Nil
  show ?case by (simp add: literal_def advance_def)
next
  case (Cons c w)
  have "matches (literal (c # w)) s t
      \<longleftrightarrow> (\<exists>u. matches (One (one_of [char_item c])) s u \<and> matches (literal w) u t)"
    by (simp add: literal_def)
  also have "\<dots> \<longleftrightarrow> (\<exists>rest. after s = lit (c # w) @ rest) \<and> t = advance (length (c # w)) s"
    by (cases "after s") (auto simp: Cons.IH matches_One_iff advance_def lit_def)
  finally show ?case .
qed

section \<open>Groups\<close>

text \<open>A group is made of characters of the text.\<close>

lemma matches_after: "matches r s t \<Longrightarrow> set (after t) \<subseteq> set (after s)"
  by (induction rule: matches.induct) (auto dest: in_set_dropD)

lemma matches_group_text:
  "matches r s t \<Longrightarrow> group_text n t = Some w \<Longrightarrow> group_text n s = Some w \<or> set w \<subseteq> set (after s)"
proof (induction arbitrary: w rule: matches.induct)
  case (Seq r s t q u)
  then show ?case using matches_after [of r s t] by blast
next
  case (Group r s t m)
  then show ?case
    by (cases "n = m") (auto simp: group_text_def capture_def update_conv' consumed_def dest: in_set_takeD)
qed (simp_all add: group_text_def)

lemma re_match_group: "re_match r s = Some t \<Longrightarrow> group_text n t = Some w \<Longrightarrow> set w \<subseteq> set s"
  unfolding re_match_def
  by (drule first_Some) (auto simp: runs_iff start_def group_text_def dest!: matches_group_text [where n = n and w = w])

lemma re_search_group: "re_search r s = Some t \<Longrightarrow> group_text n t = Some w \<Longrightarrow> set w \<subseteq> set s"
proof -
  assume "re_search r s = Some t" and w: "group_text n t = Some w"
  then obtain k where "matches r (advance k (start s)) t" using re_search_sound by blast
  from matches_group_text [OF this w] show "set w \<subseteq> set s"
    using set_drop_subset [of k s] by (auto simp: start_def group_text_def)
qed

text \<open>The groups every match captures.\<close>

primrec certain :: "rx \<Rightarrow> nat set" where
  "certain Eps = {}"
| "certain (One cls) = {}"
| "certain (Many k cls) = {}"
| "certain (Opt r) = {}"
| "certain (Seq r q) = certain r \<union> certain q"
| "certain (Alt r q) = certain r \<inter> certain q"
| "certain (Group n r) = insert n (certain r)"
| "certain TextStart = {}"
| "certain LineStart = {}"
| "certain TextEnd = {}"
| "certain (Boundary w) = {}"

lemma certain_sequence [simp]: "certain (sequence rs) = \<Union> (certain ` set rs)"
  by (induction rs) (simp_all add: sequence_def)

lemma matches_certain:
  "matches r s t \<Longrightarrow> n \<in> certain r \<or> group_text n s \<noteq> None \<Longrightarrow> group_text n t \<noteq> None"
proof (induction rule: matches.induct)
  case (Group r s t m)
  then show ?case by (auto simp: group_text_def capture_def update_conv')
qed (auto simp: group_text_def)

lemma re_match_certain: "re_match r s = Some t \<Longrightarrow> n \<in> certain r \<Longrightarrow> \<exists>w. group_text n t = Some w"
  unfolding re_match_def by (drule first_Some) (auto simp: runs_iff dest!: matches_certain [where n = n])

lemma re_search_certain: "re_search r s = Some t \<Longrightarrow> n \<in> certain r \<Longrightarrow> \<exists>w. group_text n t = Some w"
  by (drule re_search_sound) (auto dest!: matches_certain [where n = n])

end
