(* ===== verification/ReleaseVersion.thy ===== *)
theory ReleaseVersion
  imports PyRegex PyFs JsonRound
begin

text \<open>
  \<open>scripts/check-release-version.py\<close>: the version patterns, the version of a
  Mix and of a Cargo project, the loops over the projects of the release graph,
  and the report. \<open>printable\<close> is the Unicode table \<open>repr\<close> consults.
\<close>

section \<open>Projects and patterns\<close>

definition MIX_PROJECTS :: "str list" where
  "MIX_PROJECTS = map lit
     [''mix.exs'', ''apps/ex4pm/mix.exs'', ''apps/ex4pm_cli/mix.exs'', ''apps/ex4pm_contracts/mix.exs'',
      ''apps/ex4pm_core/mix.exs'', ''apps/ex4pm_domain/mix.exs'', ''apps/ex4pm_engine/mix.exs'',
      ''apps/ex4pm_evidence/mix.exs'', ''apps/ex4pm_information/mix.exs'',
      ''apps/ex4pm_qualification/mix.exs'', ''apps/ex4pm_runtime/mix.exs'', ''apps/ex4pm_stream/mix.exs'',
      ''apps/ex4pm_web/mix.exs'']"

definition CARGO_PROJECTS :: "str list" where
  "CARGO_PROJECTS = map lit
     [''qualification/reference-nif/Cargo.toml'', ''qualification/reference-wasm/Cargo.toml'']"

definition quoted :: "nat \<Rightarrow> rx" where
  "quoted n = sequence [literal ''\"'', Group n (Many 1 (none_of [char_item CHR ''\"''])), literal ''\"'']"

definition spaces :: "nat \<Rightarrow> rx" where
  "spaces k = Many k (one_of [Space])"

definition VERSION_PATTERNS :: "rx list" where
  "VERSION_PATTERNS =
     [sequence [literal ''@version'', spaces 1, quoted 1],
      sequence [literal ''version:'', spaces 0, quoted 1]]"

definition digits :: rx where
  "digits = Many 1 (one_of [span_item CHR ''0'' CHR ''9''])"

definition INTERNAL_DEP :: rx where
  "INTERNAL_DEP = sequence
     [literal ''{:ex4pm'',
      Opt (sequence [literal ''_'',
        Many 1 (one_of [span_item CHR ''a'' CHR ''z'', span_item CHR ''0'' CHR ''9'', char_item CHR ''_''])]),
      literal '','', spaces 0, literal ''\"~>'', spaces 0,
      Group 1 (sequence [digits, literal ''.'', digits, literal ''.'', digits]), literal ''\"'']"

definition CARGO_VERSION :: rx where
  "CARGO_VERSION = sequence [LineStart, literal ''version'', spaces 0, literal ''='', spaces 0, quoted 1]"

section \<open>The version of a project\<close>

text \<open>The loop over the patterns, with its early return.\<close>

primrec first_version :: "rx list \<Rightarrow> str \<Rightarrow> str option" where
  "first_version [] text = None"
| "first_version (p # ps) text =
     (case re_search p text of
        Some m \<Rightarrow> group_text 1 m
      | None \<Rightarrow> first_version ps text)"

definition mix_version :: "str \<Rightarrow> str option" where
  "mix_version text = first_version VERSION_PATTERNS text"

definition cargo_version :: "str \<Rightarrow> str option" where
  "cargo_version text = Option.bind (re_search CARGO_VERSION text) (group_text 1)"

text \<open>
  \<open>findall\<close> for a pattern with one group that never matches the empty text: the
  search goes on where the last match ended.
\<close>

function findall_from :: "rx \<Rightarrow> cursor \<Rightarrow> str list" where
  "findall_from r s =
     (case search_from r s of
        None \<Rightarrow> []
      | Some t \<Rightarrow>
          (case group_text 1 t of None \<Rightarrow> [] | Some w \<Rightarrow> w) #
          (if length (after t) < length (after s) then findall_from r (t\<lparr>groups := []\<rparr>) else []))"
  by pat_completeness auto
termination
  by (relation "measure (\<lambda>(r, s). length (after s))") auto

declare findall_from.simps [simp del]

definition findall :: "rx \<Rightarrow> str \<Rightarrow> str list" where
  "findall r text = findall_from r (start text)"

section \<open>The release graph\<close>

record graph_state =
  failures :: "str list"
  observed :: "str dict"

definition project_path :: "path \<Rightarrow> str \<Rightarrow> path" where
  "project_path cwd name = join_path cwd name"

definition fail_with :: "str \<Rightarrow> graph_state \<Rightarrow> graph_state" where
  "fail_with message st = st\<lparr>failures := failures st @ [message]\<rparr>"

definition observe :: "str \<Rightarrow> str option \<Rightarrow> graph_state \<Rightarrow> graph_state" where
  "observe name version st =
     st\<lparr>observed := AList.update name 
       (case version of None \<Rightarrow> lit ''MISSING'' | Some v \<Rightarrow> if v = [] then lit ''MISSING'' else v) (observed st)\<rparr>"

definition check_version ::
  "(nat \<Rightarrow> bool) \<Rightarrow> str \<Rightarrow> str \<Rightarrow> str \<Rightarrow> str option \<Rightarrow> graph_state \<Rightarrow> graph_state" where
  "check_version printable expected what name version st =
     (if version \<noteq> Some expected
      then fail_with (name @ lit '': '' @ what @ lit '' version '' @ repr_option printable version
                      @ lit '' != '' @ repr_str printable expected) st
      else st)"

definition check_dependencies ::
  "(nat \<Rightarrow> bool) \<Rightarrow> str \<Rightarrow> str \<Rightarrow> str list \<Rightarrow> graph_state \<Rightarrow> graph_state" where
  "check_dependencies printable expected name versions st =
     fold (\<lambda>v st. if v \<noteq> expected
           then fail_with (name @ lit '': internal ex4pm dependency '' @ repr_str printable v
                           @ lit '' != '' @ repr_str printable expected) st
           else st) versions st"

definition check_mix ::
  "(nat \<Rightarrow> bool) \<Rightarrow> fs \<Rightarrow> path \<Rightarrow> str \<Rightarrow> graph_state \<Rightarrow> str \<Rightarrow> graph_state res" where
  "check_mix printable fs cwd expected st name =
     (if \<not> is_file fs (project_path cwd name)
      then Inr (fail_with (lit ''missing Mix project: '' @ name) st)
      else
        ebind (read_path_text fs (project_path cwd name)) (\<lambda>text.
        let version = mix_version text in
        Inr (check_dependencies printable expected name (findall INTERNAL_DEP text)
              (check_version printable expected (lit ''project'') name version (observe name version st)))))"

definition check_cargo ::
  "(nat \<Rightarrow> bool) \<Rightarrow> fs \<Rightarrow> path \<Rightarrow> str \<Rightarrow> graph_state \<Rightarrow> str \<Rightarrow> graph_state res" where
  "check_cargo printable fs cwd expected st name =
     (if \<not> is_file fs (project_path cwd name)
      then Inr (fail_with (lit ''missing Cargo project: '' @ name) st)
      else
        ebind (read_path_text fs (project_path cwd name)) (\<lambda>text.
        let version = cargo_version text in
        Inr (check_version printable expected (lit ''Cargo'') name version (observe name version st))))"

definition release_result :: "str \<Rightarrow> graph_state \<Rightarrow> json" where
  "release_result expected st =
     JObj [(lit ''standing'', JStr (if failures st = [] then lit ''ALIVE'' else lit ''BUILD_BROKEN'')),
           (lit ''expected'', JStr expected),
           (lit ''observed'', JObj (map (map_prod id JStr) (observed st))),
           (lit ''failures'', JArr (map JStr (failures st)))]"

text \<open>\<open>main\<close>: the exit code and the standard output, or the exception that ends the run.\<close>

definition release_main ::
  "(nat \<Rightarrow> bool) \<Rightarrow> fs \<Rightarrow> path \<Rightarrow> str list \<Rightarrow> (nat \<times> str) res" where
  "release_main printable fs cwd argv =
     (let expected = (if 1 < length argv then argv ! 1 else lit ''26.8.23'') in
      ebind (efold (check_mix printable fs cwd expected) \<lparr>failures = [], observed = []\<rparr> MIX_PROJECTS) (\<lambda>st.
      ebind (efold (check_cargo printable fs cwd expected) st CARGO_PROJECTS) (\<lambda>st.
      Inr (if failures st = [] then 0 else 1, dumps indented (release_result expected st) @ [10]))))"

section \<open>What a version is\<close>

text \<open>The text between quotes that the version patterns capture.\<close>

lemma matches_quoted:
  assumes "matches (quoted n) s t"
  shows "\<exists>v. v \<noteq> [] \<and> 34 \<notin> set v \<and> moves s (34 # v @ [34]) t \<and> group_text n t = Some v"
proof -
  from assms obtain a b where a: "matches (literal ''\"'') s a"
    and b: "matches (Many 1 (none_of [char_item CHR ''\"''])) a b"
    and t: "matches (literal ''\"'') (capture n a b) t"
    by (auto simp: quoted_def)
  from matches_Many_moves [OF b] obtain v where v: "moves a v b" "1 \<le> length v" "list_all (\<lambda>c. c \<noteq> 34) v"
    by auto
  from a have "moves s [34] a" by (auto simp: matches_literal moves_def lit_def)
  moreover from t have "moves b [34] t" "groups t = groups (capture n a b)"
    by (auto simp: matches_literal moves_def lit_def)
  ultimately have "moves s ([34] @ v @ [34]) t" using v(1) moves_trans by blast
  moreover have "group_text n t = Some v"
    using \<open>groups t = groups (capture n a b)\<close> consumed_moves [OF v(1)]
    by (simp add: group_text_def capture_def update_conv')
  ultimately show ?thesis using v(2,3) by (auto simp: list_all_iff)
qed

lemma matches_spaces: "matches (spaces k) s t \<Longrightarrow> \<exists>w. moves s w t \<and> k \<le> length w \<and> list_all is_py_space w"
  using matches_Many_moves [of k "one_of [Space]" s t] by (auto simp: spaces_def)

lemma matches_literal_moves: "matches (literal w) s t \<Longrightarrow> moves s (lit w) t"
  by (auto simp: matches_literal moves_def)

text \<open>A version attribute in a text: a keyword, white space and a quoted version.\<close>

definition declares :: "string \<Rightarrow> nat \<Rightarrow> str \<Rightarrow> str \<Rightarrow> bool" where
  "declares keyword k text v \<longleftrightarrow>
     (\<exists>pre sp post. text = pre @ lit keyword @ sp @ [34] @ v @ [34] @ post
        \<and> k \<le> length sp \<and> list_all is_py_space sp \<and> v \<noteq> [] \<and> 34 \<notin> set v)"

lemma search_keyword:
  assumes "re_search (sequence [literal keyword, spaces k, quoted 1]) text = Some m"
  shows "\<exists>v. group_text 1 m = Some v \<and> declares keyword k text v"
proof -
  from re_search_sound [OF assms] obtain n where n: "n \<le> length text"
    and m: "matches (sequence [literal keyword, spaces k, quoted 1]) (advance n (start text)) m" by blast
  let ?s = "advance n (start text)"
  from m obtain a b where a: "matches (literal keyword) ?s a" and b: "matches (spaces k) a b"
    and c: "matches (quoted 1) b m" by auto
  from matches_spaces [OF b] obtain sp where sp: "moves a sp b" "k \<le> length sp" "list_all is_py_space sp" by blast
  from matches_quoted [OF c] obtain v where v: "v \<noteq> []" "34 \<notin> set v" "moves b (34 # v @ [34]) m"
    "group_text 1 m = Some v" by blast
  from moves_trans [OF matches_literal_moves [OF a] moves_trans [OF sp(1) v(3)]]
  have "drop n text = lit keyword @ sp @ [34] @ v @ [34] @ after m"
    by (simp add: moves_def start_def)
  then have "text = take n text @ lit keyword @ sp @ [34] @ v @ [34] @ after m"
    by (metis append_take_drop_id)
  with sp v show ?thesis unfolding declares_def by blast
qed

lemma keyword_found:
  assumes "declares keyword k text v"
  shows "re_search (sequence [literal keyword, spaces k, quoted 1]) text \<noteq> None"
proof -
  from assms obtain pre sp post where t: "text = pre @ lit keyword @ sp @ [34] @ v @ [34] @ post"
    and sp: "k \<le> length sp" "list_all is_py_space sp" and v: "v \<noteq> []" "34 \<notin> set v"
    unfolding declares_def by blast
  let ?s = "advance (length pre) (start text)"
  let ?a = "advance (length keyword) ?s" let ?b = "advance (length sp) ?a"
  let ?c = "advance 1 ?b" let ?d = "advance (length v) ?c"
  have s: "after ?s = lit keyword @ sp @ [34] @ v @ [34] @ post" by (simp add: start_def t)
  have "matches (literal keyword) ?s ?a" using s by (simp add: matches_literal)
  moreover have "matches (spaces k) ?a ?b"
    unfolding spaces_def using s sp by (intro matches.Many) simp_all
  moreover have "matches (literal ''\"'') ?b ?c" using s by (simp add: matches_literal lit_def)
  moreover have "matches (Many 1 (none_of [char_item CHR ''\"''])) ?c ?d"
    using s v by (intro matches.Many) (auto simp: list_all_iff Suc_le_eq)
  moreover have "matches (literal ''\"'') (capture 1 ?c ?d) (advance 1 (capture 1 ?c ?d))"
    using s by (simp add: matches_literal lit_def)
  ultimately have "matches (sequence [literal keyword, spaces k, quoted 1]) ?s (advance 1 (capture 1 ?c ?d))"
    unfolding quoted_def by (simp only: matches_sequence_Cons matches_sequence_Nil matches_simps) blast
  moreover have "length pre \<le> length text" by (simp add: t)
  ultimately show ?thesis unfolding re_search_complete by blast
qed

end
