(* ===== verification/ReleaseProps.thy ===== *)
theory ReleaseProps
  imports ReleaseVersion
begin

text \<open>
  The properties of the release version check: which versions it reads, that no
  internal dependency escapes it, and that it passes exactly the release graphs
  in which every project states the expected version.
\<close>

section \<open>Project versions\<close>

lemma mix_version_None:
  "mix_version text = None \<longleftrightarrow> \<not> (\<exists>v. declares ''@version'' 1 text v \<or> declares ''version:'' 0 text v)"
proof -
  have "re_search (sequence [literal kw, spaces k, quoted 1]) text = None \<longleftrightarrow> \<not> (\<exists>v. declares kw k text v)"
    for kw k
    using search_keyword keyword_found by fastforce
  then show ?thesis
    using search_keyword [of "''@version''" 1 "text"] search_keyword [of "''version:''" 0 "text"]
    by (auto simp: mix_version_def VERSION_PATTERNS_def split: option.splits)
qed

text \<open>The version of a Mix project is the quoted text after \<open>@version\<close> and white space,
  if the file has that form anywhere, and otherwise the quoted text after
  \<open>version:\<close>; it is missing only when the file has neither form.\<close>

theorem mix_version_spec:
  "case mix_version text of
     None \<Rightarrow> \<not> (\<exists>w. declares ''@version'' 1 text w) \<and> \<not> (\<exists>w. declares ''version:'' 0 text w)
   | Some v \<Rightarrow> if \<exists>w. declares ''@version'' 1 text w then declares ''@version'' 1 text v
               else declares ''version:'' 0 text v"
proof (cases "mix_version text")
  case None
  with mix_version_None [of "text"] show ?thesis by simp
next
  case (Some v)
  let ?attr = "sequence [literal ''@version'', spaces 1, quoted 1]"
  let ?field = "sequence [literal ''version:'', spaces 0, quoted 1]"
  show ?thesis
  proof (cases "re_search ?attr text")
    case (Some m)
    with \<open>mix_version text = Some v\<close> have "group_text 1 m = Some v"
      by (simp add: mix_version_def VERSION_PATTERNS_def)
    with search_keyword [OF Some] \<open>mix_version text = Some v\<close> show ?thesis by auto
  next
    case None
    then have no: "\<not> (\<exists>w. declares ''@version'' 1 text w)" using keyword_found by blast
    from \<open>mix_version text = Some v\<close> None obtain m where
      m: "re_search ?field text = Some m" "group_text 1 m = Some v"
      by (auto simp: mix_version_def VERSION_PATTERNS_def split: option.splits)
    with search_keyword [OF m(1)] no \<open>mix_version text = Some v\<close> show ?thesis by auto
  qed
qed

section \<open>Internal dependencies\<close>

definition numeral_text :: "str \<Rightarrow> bool" where
  "numeral_text d \<longleftrightarrow> d \<noteq> [] \<and> list_all is_digit d"

definition dotted :: "str \<Rightarrow> bool" where
  "dotted v \<longleftrightarrow> (\<exists>a b c. v = a @ [46] @ b @ [46] @ c \<and> numeral_text a \<and> numeral_text b \<and> numeral_text c)"

definition app_suffix :: "str \<Rightarrow> bool" where
  "app_suffix x \<longleftrightarrow> x = []
     \<or> (\<exists>w. x = 95 # w \<and> w \<noteq> [] \<and> list_all (\<lambda>c. 97 \<le> c \<and> c \<le> 122 \<or> 48 \<le> c \<and> c \<le> 57 \<or> c = 95) w)"

text \<open>A dependency on an application of the umbrella with a requirement on a version.\<close>

definition dependency :: "str \<Rightarrow> str \<Rightarrow> str \<Rightarrow> str \<Rightarrow> str" where
  "dependency app sp1 sp2 v =
     lit ''{:ex4pm'' @ app @ [44] @ sp1 @ lit ''\"~>'' @ sp2 @ v @ [34]"

definition dependency_parts :: "str \<Rightarrow> str \<Rightarrow> str \<Rightarrow> str \<Rightarrow> bool" where
  "dependency_parts app sp1 sp2 v \<longleftrightarrow>
     app_suffix app \<and> list_all is_py_space sp1 \<and> list_all is_py_space sp2 \<and> dotted v"

definition depends :: "str \<Rightarrow> str \<Rightarrow> bool" where
  "depends s v \<longleftrightarrow> (\<exists>app sp1 sp2 post. dependency_parts app sp1 sp2 v \<and> s = dependency app sp1 sp2 v @ post)"

lemma space_not: "list_all is_py_space sp \<Longrightarrow> \<not> is_py_space c \<Longrightarrow> c \<notin> set sp"
  by (auto simp: list_all_iff)

lemma app_suffix_no_comma: "app_suffix x \<Longrightarrow> 44 \<notin> set x \<and> 123 \<notin> set x"
  by (fastforce simp: app_suffix_def list_all_iff)

lemma dotted_chars: "dotted v \<Longrightarrow> c \<in> set v \<Longrightarrow> is_digit c \<or> c = 46"
  by (auto simp: dotted_def numeral_text_def list_all_iff)

lemma dotted_first: "dotted v \<Longrightarrow> \<exists>d w. v = d # w \<and> is_digit d"
  by (auto simp: dotted_def numeral_text_def neq_Nil_conv)

lemma digit_not_space: "is_digit c \<Longrightarrow> \<not> is_py_space c"
  by (auto simp: is_digit_def is_py_space_def)

lemma spaces_then_version:
  assumes "list_all is_py_space sp" "list_all is_py_space sp'" "dotted v" "dotted v'" "sp @ v = sp' @ v'"
  shows "v = v'"
proof -
  have "dropWhile is_py_space (sp @ v) = v" if "list_all is_py_space sp" "dotted v" for sp v
    using that dotted_first [OF that(2)] digit_not_space
    by (subst dropWhile_append2) (auto simp: list_all_iff)
  then show ?thesis using assms by metis
qed

text \<open>What starts at a position determines the version.\<close>

lemma depends_unique:
  assumes "depends s v" "depends s v'"
  shows "v = v'"
proof -
  from assms obtain app sp1 sp2 post app' sp1' sp2' post' where
    p: "dependency_parts app sp1 sp2 v" "s = dependency app sp1 sp2 v @ post"
    and p': "dependency_parts app' sp1' sp2' v'" "s = dependency app' sp1' sp2' v' @ post'"
    unfolding depends_def by blast
  have "app @ 44 # (sp1 @ 34 # 126 # 62 # (sp2 @ v @ 34 # post))
      = app' @ 44 # (sp1' @ 34 # 126 # 62 # (sp2' @ v' @ 34 # post'))"
    using p(2) p'(2) by (simp add: dependency_def lit_def)
  from split_unique [OF _ _ this] p(1) p'(1) app_suffix_no_comma
  have "sp1 @ 34 # (126 # 62 # (sp2 @ v @ 34 # post)) = sp1' @ 34 # (126 # 62 # (sp2' @ v' @ 34 # post'))"
    by (simp add: dependency_parts_def)
  from split_unique [OF _ _ this] p(1) p'(1)
  have "(sp2 @ v) @ 34 # post = (sp2' @ v') @ 34 # post'"
    by (simp add: dependency_parts_def space_not is_py_space_def)
  moreover have "34 \<notin> set (sp2 @ v)" if "dependency_parts app sp1 sp2 v" for app sp1 sp2 v
    using that dotted_chars [of v 34] space_not [of sp2 34]
    by (auto simp: dependency_parts_def is_py_space_def is_digit_def)
  ultimately have "sp2 @ v = sp2' @ v'"
    using split_unique [of 34 "sp2 @ v" "sp2' @ v'" post post'] p(1) p'(1) by blast
  with p(1) p'(1) show ?thesis using spaces_then_version by (auto simp: dependency_parts_def)
qed

text \<open>A dependency has its only opening brace at the front.\<close>

lemma dependency_brace:
  assumes "dependency_parts app sp1 sp2 v"
  shows "\<exists>w. dependency app sp1 sp2 v = 123 # w \<and> 123 \<notin> set w"
proof -
  have "\<not> is_py_space 123" by (simp add: is_py_space_def)
  then have "123 \<notin> set app" "123 \<notin> set sp1" "123 \<notin> set sp2"
    using assms app_suffix_no_comma [of app] space_not [of _ 123] by (simp_all add: dependency_parts_def)
  moreover have "123 \<notin> set v"
    using assms dotted_chars [of v 123] by (auto simp: dependency_parts_def is_digit_def)
  ultimately show ?thesis by (simp add: dependency_def lit_def)
qed

text \<open>The pattern of the script is this form.\<close>

lemma matches_digits: "matches digits s t \<Longrightarrow> \<exists>d. moves s d t \<and> numeral_text d"
proof -
  assume "matches digits s t"
  from matches_Many_moves [OF this [unfolded digits_def]] obtain d where
    "moves s d t" "1 \<le> length d" "list_all (\<lambda>c. 48 \<le> c \<and> c \<le> 57) d"
    by (auto simp: span_item_def)
  then show ?thesis by (intro exI [of _ d]) (auto simp: numeral_text_def list_all_iff is_digit_def)
qed

lemma matches_dotted:
  assumes "matches (sequence [digits, literal ''.'', digits, literal ''.'', digits]) s t"
  shows "\<exists>v. moves s v t \<and> dotted v"
proof -
  from assms obtain p q r u where m: "matches digits s p" "matches (literal ''.'') p q" "matches digits q r"
    "matches (literal ''.'') r u" "matches digits u t" by auto
  from matches_digits [OF m(1)] obtain a where a: "moves s a p" "numeral_text a" by blast
  from matches_digits [OF m(3)] obtain b where b: "moves q b r" "numeral_text b" by blast
  from matches_digits [OF m(5)] obtain c where c: "moves u c t" "numeral_text c" by blast
  have "moves p [46] q" "moves r [46] u"
    using m(2,4) [THEN matches_literal_moves] by (simp_all add: lit_def)
  with a(1) b(1) c(1) have "moves s (a @ [46] @ b @ [46] @ c) t" by (intro moves_trans)
  with a(2) b(2) c(2) show ?thesis unfolding dotted_def by blast
qed

lemma matches_app:
  assumes "matches (Opt (sequence [literal ''_'',
      Many 1 (one_of [span_item CHR ''a'' CHR ''z'', span_item CHR ''0'' CHR ''9'', char_item CHR ''_''])])) s t"
  shows "\<exists>x. moves s x t \<and> app_suffix x"
proof -
  consider "t = s" | u where "matches (literal ''_'') s u"
      "matches (Many 1 (one_of [span_item CHR ''a'' CHR ''z'', span_item CHR ''0'' CHR ''9'', char_item CHR ''_''])) u t"
    using assms by auto
  then show ?thesis
  proof cases
    case 1
    then show ?thesis by (intro exI [of _ "[]"]) (simp add: moves_def app_suffix_def)
  next
    case 2
    from matches_Many_moves [OF 2(2)] obtain w where w: "moves u w t" "1 \<le> length w"
      "list_all (\<lambda>c. 97 \<le> c \<and> c \<le> 122 \<or> 48 \<le> c \<and> c \<le> 57 \<or> c = 95) w"
      by (auto simp: span_item_def)
    have "moves s [95] u" using matches_literal_moves [OF 2(1)] by (simp add: lit_def)
    from moves_trans [OF this w(1)] w show ?thesis
      by (intro exI [of _ "95 # w"]) (auto simp: app_suffix_def)
  qed
qed

lemma matches_dependency:
  assumes "matches INTERNAL_DEP s t"
  shows "\<exists>app sp1 sp2 v. dependency_parts app sp1 sp2 v \<and> moves s (dependency app sp1 sp2 v) t
    \<and> group_text 1 t = Some v"
proof -
  from assms obtain s1 s2 s3 s4 s5 s6 s7 where
    m: "matches (literal ''{:ex4pm'') s s1" "matches (literal '','') s2 s3" "matches (spaces 0) s3 s4"
      "matches (literal ''\"~>'') s4 s5" "matches (spaces 0) s5 s6"
      "matches (literal ''\"'') (capture 1 s6 s7) t"
    and app: "matches (Opt (sequence [literal ''_'',
      Many 1 (one_of [span_item CHR ''a'' CHR ''z'', span_item CHR ''0'' CHR ''9'', char_item CHR ''_''])])) s1 s2"
    and v: "matches (sequence [digits, literal ''.'', digits, literal ''.'', digits]) s6 s7"
    unfolding INTERNAL_DEP_def by (simp only: matches_sequence_Cons matches_sequence_Nil matches_simps(5)) blast
  from matches_app [OF app] obtain x where x: "moves s1 x s2" "app_suffix x" by blast
  from matches_spaces [OF m(3)] obtain sp1 where sp1: "moves s3 sp1 s4" "list_all is_py_space sp1" by blast
  from matches_spaces [OF m(5)] obtain sp2 where sp2: "moves s5 sp2 s6" "list_all is_py_space sp2" by blast
  from matches_dotted [OF v] obtain w where w: "moves s6 w s7" "dotted w" by blast
  have "moves s7 [34] t" and g: "groups t = groups (capture 1 s6 s7)"
    using m(6) by (auto simp: matches_literal moves_def lit_def)
  with x(1) sp1(1) sp2(1) w(1) m(1,2,4) [THEN matches_literal_moves]
  have "moves s (lit ''{:ex4pm'' @ x @ lit '','' @ sp1 @ lit ''\"~>'' @ sp2 @ w @ [34]) t"
    by (intro moves_trans)
  moreover have "group_text 1 t = Some w"
    using g consumed_moves [OF w(1)] by (simp add: group_text_def capture_def update_conv')
  ultimately show ?thesis
    using x sp1 sp2 w unfolding dependency_parts_def dependency_def by (auto simp: lit_def)
qed

text \<open>Conversely, the pattern matches wherever the form starts.\<close>

lemma Many_step:
  "after s = w @ r \<Longrightarrow> k \<le> length w \<Longrightarrow> list_all (in_class cls) w \<Longrightarrow> matches (Many k cls) s (advance (length w) s)"
  by (rule matches.Many) simp_all

lemma literal_step: "after s = lit w @ r \<Longrightarrow> matches (literal w) s (advance (length w) s)"
  by (simp add: matches_literal)

lemma digits_step: "after s = d @ r \<Longrightarrow> numeral_text d \<Longrightarrow> matches digits s (advance (length d) s)"
  unfolding digits_def
  by (rule Many_step) (auto simp: numeral_text_def is_digit_def list_all_iff span_item_def Suc_le_eq)

lemma spaces_step:
  "after s = w @ r \<Longrightarrow> list_all is_py_space w \<Longrightarrow> matches (spaces 0) s (advance (length w) s)"
  unfolding spaces_def by (rule Many_step) simp_all

lemma dotted_step:
  assumes "after s = v @ r" "dotted v"
  shows "matches (sequence [digits, literal ''.'', digits, literal ''.'', digits]) s (advance (length v) s)"
proof -
  from assms(2) obtain a b c where v: "v = a @ [46] @ b @ [46] @ c"
    and n: "numeral_text a" "numeral_text b" "numeral_text c" unfolding dotted_def by blast
  let ?s1 = "advance (length a) s" let ?s2 = "advance (length ''.'') ?s1"
  let ?s3 = "advance (length b) ?s2" let ?s4 = "advance (length ''.'') ?s3"
  let ?s5 = "advance (length c) ?s4"
  have s: "after s = a @ 46 # b @ 46 # c @ r" using assms(1) v by simp
  have "matches digits s ?s1" "matches digits ?s2 ?s3" "matches digits ?s4 ?s5"
    using s n by (auto intro!: digits_step)
  moreover have "matches (literal ''.'') ?s1 ?s2" "matches (literal ''.'') ?s3 ?s4"
    using s by (simp_all add: matches_literal lit_def)
  ultimately have "matches (sequence [digits, literal ''.'', digits, literal ''.'', digits]) s ?s5"
    by auto
  moreover have "?s5 = advance (length v) s"
    using s by (cases s) (simp add: advance_def v)
  ultimately show ?thesis by simp
qed

lemma app_step:
  assumes "after s = x @ r" "app_suffix x"
  shows "matches (Opt (sequence [literal ''_'',
      Many 1 (one_of [span_item CHR ''a'' CHR ''z'', span_item CHR ''0'' CHR ''9'', char_item CHR ''_''])]))
    s (advance (length x) s)"
proof (cases "x = []")
  case True
  then show ?thesis by (simp add: advance_def)
next
  case False
  then obtain w where w: "x = 95 # w" "w \<noteq> []"
    "list_all (\<lambda>c. 97 \<le> c \<and> c \<le> 122 \<or> 48 \<le> c \<and> c \<le> 57 \<or> c = 95) w"
    using assms(2) by (auto simp: app_suffix_def)
  let ?u = "advance (length ''_'') s"
  have "matches (literal ''_'') s ?u" using assms(1) w by (simp add: matches_literal lit_def)
  moreover have "matches (Many 1 (one_of [span_item CHR ''a'' CHR ''z'', span_item CHR ''0'' CHR ''9'', char_item CHR ''_'']))
      ?u (advance (length w) ?u)"
    using assms(1) w by (intro Many_step [where r = r]) (auto simp: span_item_def Suc_le_eq)
  moreover have "advance (length w) ?u = advance (length x) s"
    using assms(1) by (cases s) (simp add: advance_def w)
  ultimately show ?thesis by auto
qed

lemma dependency_matches:
  assumes "dependency_parts app sp1 sp2 v" "after s = dependency app sp1 sp2 v @ post"
  shows "\<exists>t. matches INTERNAL_DEP s t"
proof -
  from assms(1) have p: "app_suffix app" "list_all is_py_space sp1" "list_all is_py_space sp2" "dotted v"
    by (simp_all add: dependency_parts_def)
  let ?s1 = "advance (length ''{:ex4pm'') s" let ?s2 = "advance (length app) ?s1"
  let ?s3 = "advance (length '','') ?s2" let ?s4 = "advance (length sp1) ?s3"
  let ?s5 = "advance (length ''\"~>'') ?s4" let ?s6 = "advance (length sp2) ?s5"
  let ?s7 = "advance (length v) ?s6"
  have s: "after s = lit ''{:ex4pm'' @ app @ lit '','' @ sp1 @ lit ''\"~>'' @ sp2 @ v @ lit ''\"'' @ post"
    using assms(2) by (simp add: dependency_def lit_def)
  have "matches (literal ''{:ex4pm'') s ?s1" "matches (literal '','') ?s2 ?s3" "matches (literal ''\"~>'') ?s4 ?s5"
    by (rule literal_step; simp add: s)+
  moreover note app_step [of ?s1 app _, OF _ p(1)] spaces_step [of ?s3 sp1, OF _ p(2)]
    spaces_step [of ?s5 sp2, OF _ p(3)] dotted_step [of ?s6 v, OF _ p(4)]
  moreover have "matches (literal ''\"'') (capture 1 ?s6 ?s7) (advance (length ''\"'') (capture 1 ?s6 ?s7))"
    by (rule literal_step) (simp add: s)
  ultimately show ?thesis
    unfolding INTERNAL_DEP_def matches_sequence_Cons matches_sequence_Nil matches_simps(5)
    by (simp only: advance_simps s) (metis append_eq_conv_conj drop_drop length_lit)
qed

section \<open>Finding every dependency\<close>

lemma concat_first:
  assumes "first (concat (map f [0..<n])) = Some t"
  shows "\<exists>i<n. t \<in> set (f i) \<and> (\<forall>j<i. f j = [])"
  using assms
proof (induction n)
  case 0
  then show ?case by (simp add: first_def)
next
  case (Suc n)
  show ?case
  proof (cases "concat (map f [0..<n]) = []")
    case True
    with Suc.prems have "first (f n) = Some t" by simp
    with True show ?thesis by (intro exI [of _ n]) (auto dest: first_Some)
  next
    case False
    then have "first (concat (map f [0..<Suc n])) = first (concat (map f [0..<n]))"
      by (cases "concat (map f [0..<n])") (simp_all add: first_def)
    with Suc show ?thesis by (metis less_SucI)
  qed
qed

lemma search_from_leftmost:
  assumes "search_from r s = Some t"
  shows "\<exists>n\<le>length (after s). matches r (advance n s) t \<and> (\<forall>m<n. \<forall>u. \<not> matches r (advance m s) u)"
proof -
  have "first (concat (map (\<lambda>n. runs r (advance n s)) [0..<Suc (length (after s))])) = Some t"
    using assms by (simp only: search_from_def positions_def map_map o_def)
  from concat_first [OF this] obtain n where n: "n < Suc (length (after s))" "t \<in> set (runs r (advance n s))"
    "\<forall>m<n. runs r (advance m s) = []" by blast
  then have "\<not> matches r (advance m s) u" if "m < n" for m u
    using that runs_iff [of u r "advance m s"] by simp
  with n show ?thesis by (auto simp: runs_iff less_Suc_eq_le)
qed

lemma search_from_None: "search_from r s = None \<Longrightarrow> n \<le> length (after s) \<Longrightarrow> \<not> matches r (advance n s) t"
  using runs_iff [of t r "advance n s"] by (auto simp: search_from_def positions_def simp del: upt_Suc)

lemma depends_nonempty: "depends s v \<Longrightarrow> s \<noteq> []"
  by (auto simp: depends_def dependency_def)

text \<open>The search stops before or at any dependency, and takes the one it stops at whole.\<close>

lemma search_stops:
  assumes "after s = pre @ rest" "depends rest v"
  obtains t where "search_from INTERNAL_DEP s = Some t" "length (after t) < length (after s)"
    "group_text 1 t = Some v \<or> (\<exists>pre'. after t = pre' @ rest)"
proof -
  from assms(2) obtain app sp1 sp2 post where dep: "dependency_parts app sp1 sp2 v"
    and rest: "rest = dependency app sp1 sp2 v @ post" unfolding depends_def by blast
  have "after (advance (length pre) s) = dependency app sp1 sp2 v @ post" using assms(1) rest by simp
  from dependency_matches [OF dep this] obtain u where u: "matches INTERNAL_DEP (advance (length pre) s) u" ..
  then obtain t where t: "search_from INTERNAL_DEP s = Some t"
    using search_from_None [of INTERNAL_DEP s "length pre" u] assms(1) by fastforce
  from search_from_leftmost [OF t] obtain n where n: "n \<le> length (after s)"
    "matches INTERNAL_DEP (advance n s) t" "\<forall>m<n. \<forall>u. \<not> matches INTERNAL_DEP (advance m s) u" by blast
  have le: "n \<le> length pre" using n(3) u not_le_imp_less by blast
  from matches_dependency [OF n(2)] obtain app' sp1' sp2' v' where dep': "dependency_parts app' sp1' sp2' v'"
    and m: "moves (advance n s) (dependency app' sp1' sp2' v') t" and g: "group_text 1 t = Some v'" by blast
  from dependency_brace [OF dep'] obtain w where w: "dependency app' sp1' sp2' v' = 123 # w" "123 \<notin> set w" by blast
  from dependency_brace [OF dep] obtain w1 where w1: "dependency app sp1 sp2 v = 123 # w1" by blast
  have eq: "drop n pre @ rest = 123 # w @ after t" using m assms(1) le w by (simp add: moves_def)
  have "length (after t) < length (after s)"
  proof -
    have "length (drop n (after s)) = Suc (length w) + length (after t)"
      using m w by (simp add: moves_def)
    then show ?thesis by simp
  qed
  moreover have "group_text 1 t = Some v \<or> (\<exists>pre'. after t = pre' @ rest)"
  proof (cases "n = length pre")
    case True
    with eq w have "rest = dependency app' sp1' sp2' v' @ after t" by simp
    with dep' have "depends rest v'" unfolding depends_def by blast
    with depends_unique [OF assms(2)] g show ?thesis by simp
  next
    case False
    with le obtain c p where p: "drop n pre = c # p" by (metis Cons_nth_drop_Suc le_neq_implies_less)
    with eq rest w1 have "p @ 123 # w1 @ post = w @ after t" by simp
    then obtain us where "p @ us = w \<and> 123 # w1 @ post = us @ after t
        \<or> p = w @ us \<and> us @ 123 # w1 @ post = after t"
      by (auto simp: append_eq_append_conv2)
    moreover have "p @ us \<noteq> w \<or> 123 # w1 @ post \<noteq> us @ after t \<or> us = []"
      using w(2) by (cases us) auto
    ultimately have "\<exists>us. after t = us @ 123 # w1 @ post" by (metis append_Nil)
    with rest w1 show ?thesis by simp
  qed
  ultimately show thesis using that t by blast
qed

lemma findall_complete:
  assumes "after s = pre @ rest" "depends rest v"
  shows "v \<in> set (findall_from INTERNAL_DEP s)"
  using assms(1)
proof (induction INTERNAL_DEP s arbitrary: pre rule: findall_from.induct)
  case (1 s)
  from search_stops [OF "1.prems" assms(2)] obtain t where t: "search_from INTERNAL_DEP s = Some t"
    "length (after t) < length (after s)"
    "group_text 1 t = Some v \<or> (\<exists>pre'. after t = pre' @ rest)" .
  from t(3) show ?case
  proof
    assume "group_text 1 t = Some v"
    with t(1,2) show ?thesis by (subst findall_from.simps) simp
  next
    assume "\<exists>pre'. after t = pre' @ rest"
    then obtain pre' where "after (t\<lparr>groups := []\<rparr>) = pre' @ rest" by auto
    from "1.hyps" [OF t(1,2) this] t(1,2) show ?thesis by (subst findall_from.simps) simp
  qed
qed

lemma findall_sound:
  assumes "v \<in> set (findall_from INTERNAL_DEP s)"
  shows "\<exists>pre rest. after s = pre @ rest \<and> depends rest v"
  using assms
proof (induction INTERNAL_DEP s rule: findall_from.induct)
  case (1 s)
  obtain t where t: "search_from INTERNAL_DEP s = Some t"
  proof (cases "search_from INTERNAL_DEP s")
    case None
    with "1.prems" show thesis by (subst (asm) findall_from.simps) simp
  qed (rule that)
  from search_from_leftmost [OF t] obtain n where n: "n \<le> length (after s)"
    "matches INTERNAL_DEP (advance n s) t" by blast
  from matches_dependency [OF n(2)] obtain app sp1 sp2 v' where dep: "dependency_parts app sp1 sp2 v'"
    and m: "moves (advance n s) (dependency app sp1 sp2 v') t" and g: "group_text 1 t = Some v'" by blast
  from m have d: "drop n (after s) = dependency app sp1 sp2 v' @ after t" by (simp add: moves_def)
  from "1.prems" t g consider "v = v'" | "length (after t) < length (after s)"
      "v \<in> set (findall_from INTERNAL_DEP (t\<lparr>groups := []\<rparr>))"
    by (subst (asm) findall_from.simps) (auto split: if_splits)
  then show ?case
  proof cases
    case 1
    from dep d have "depends (drop n (after s)) v" unfolding depends_def 1 by blast
    then show ?thesis by (metis append_take_drop_id)
  next
    case 2
    from "1.hyps" [OF t 2] obtain pre rest where "after t = pre @ rest" "depends rest v" by auto
    with d have "after s = (take n (after s) @ dependency app sp1 sp2 v' @ pre) @ rest"
      by (metis append.assoc append_take_drop_id)
    with \<open>depends rest v\<close> show ?thesis by blast
  qed
qed

lemma findall_set: "set (findall INTERNAL_DEP text) = {v. \<exists>pre rest. text = pre @ rest \<and> depends rest v}"
proof -
  have a: "after (start text) = text" by (simp add: start_def)
  have "v \<in> set (findall INTERNAL_DEP text) \<longleftrightarrow> (\<exists>pre rest. text = pre @ rest \<and> depends rest v)" for v
    unfolding findall_def using findall_complete [of "start text", unfolded a] findall_sound [of v "start text", unfolded a]
    by blast
  then show ?thesis by blast
qed

lemma internal_deps: "set (findall INTERNAL_DEP text) \<subseteq> {e}
    \<longleftrightarrow> (\<forall>pre rest v. text = pre @ rest \<and> depends rest v \<longrightarrow> v = e)"
  unfolding findall_set by blast

text \<open>C11: the dependency scan is exact: the versions it checks are those of all
  requirements of the form \<open>{:ex4pm_app, "~> 1.2.3"\<close> anywhere in the file, and no
  such requirement escapes it.\<close>

theorem internal_dependencies_exact:
  "set (findall INTERNAL_DEP text) = {v. \<exists>pre rest. text = pre @ rest \<and> depends rest v}"
  by (rule findall_set)

section \<open>The release graph\<close>

definition mix_conforms :: "fs \<Rightarrow> path \<Rightarrow> str \<Rightarrow> str \<Rightarrow> bool" where
  "mix_conforms fs cwd expected name \<longleftrightarrow>
     (\<exists>text. read_path_text fs (project_path cwd name) = Inr text \<and> mix_version text = Some expected
        \<and> (\<forall>pre rest v. text = pre @ rest \<and> depends rest v \<longrightarrow> v = expected))"

definition cargo_conforms :: "fs \<Rightarrow> path \<Rightarrow> str \<Rightarrow> str \<Rightarrow> bool" where
  "cargo_conforms fs cwd expected name \<longleftrightarrow>
     (\<exists>text. read_path_text fs (project_path cwd name) = Inr text \<and> cargo_version text = Some expected)"

definition graph_conforms :: "fs \<Rightarrow> path \<Rightarrow> str \<Rightarrow> bool" where
  "graph_conforms fs cwd expected \<longleftrightarrow>
     list_all (mix_conforms fs cwd expected) MIX_PROJECTS
     \<and> list_all (cargo_conforms fs cwd expected) CARGO_PROJECTS"

text \<open>A project that does not conform leaves a failure; one that does leaves none.\<close>

lemma check_version_ok:
  "failures (check_version p expected what name version st) = failures st \<longleftrightarrow> version = Some expected"
  "failures st \<noteq> [] \<Longrightarrow> failures (check_version p expected what name version st) \<noteq> []"
  by (simp_all add: check_version_def fail_with_def)

lemma check_dependencies_ok:
  "failures (check_dependencies p expected name vs st) = [] \<longleftrightarrow> failures st = [] \<and> set vs \<subseteq> {expected}"
  unfolding check_dependencies_def
  by (induction vs arbitrary: st) (auto simp: fail_with_def)

lemma check_mix_ok:
  "(\<exists>st'. check_mix p fs cwd expected st name = Inr st' \<and> failures st' = [])
     \<longleftrightarrow> failures st = [] \<and> mix_conforms fs cwd expected name"
proof (cases "read_path_text fs (project_path cwd name)")
  case (Inl e)
  then show ?thesis by (auto simp: check_mix_def mix_conforms_def fail_with_def)
next
  case (Inr doc)
  then have "is_file fs (project_path cwd name)"
    by (auto simp: is_file_iff read_path_text_def res_dest)
  with Inr show ?thesis
    by (auto simp: check_mix_def mix_conforms_def Let_def check_dependencies_ok internal_deps observe_def
        check_version_def fail_with_def)
qed

lemma check_cargo_ok:
  "(\<exists>st'. check_cargo p fs cwd expected st name = Inr st' \<and> failures st' = [])
     \<longleftrightarrow> failures st = [] \<and> cargo_conforms fs cwd expected name"
proof (cases "read_path_text fs (project_path cwd name)")
  case (Inl e)
  then show ?thesis by (auto simp: check_cargo_def cargo_conforms_def fail_with_def)
next
  case (Inr doc)
  then have "is_file fs (project_path cwd name)"
    by (auto simp: is_file_iff read_path_text_def res_dest)
  with Inr show ?thesis
    by (auto simp: check_cargo_def cargo_conforms_def Let_def observe_def check_version_def fail_with_def)
qed

definition expected_version :: "str list \<Rightarrow> str" where
  "expected_version argv = (if 1 < length argv then argv ! 1 else lit ''26.8.23'')"

lemma release_main_zero:
  "(\<exists>out. release_main p fs cwd argv = Inr (0, out)) \<longleftrightarrow> graph_conforms fs cwd (expected_version argv)"
proof -
  let ?e = "expected_version argv" let ?init = "\<lparr>failures = [], observed = []\<rparr>"
  have "(\<exists>out. release_main p fs cwd argv = Inr (0, out)) \<longleftrightarrow>
      (\<exists>st. efold (check_mix p fs cwd ?e) ?init MIX_PROJECTS = Inr st
        \<and> (\<exists>st'. efold (check_cargo p fs cwd ?e) st CARGO_PROJECTS = Inr st' \<and> failures st' = []))"
    by (auto simp: release_main_def Let_def res_dest expected_version_def split: if_splits)
  also have "\<dots> \<longleftrightarrow> (\<exists>st. efold (check_mix p fs cwd ?e) ?init MIX_PROJECTS = Inr st \<and> failures st = [])
      \<and> list_all (cargo_conforms fs cwd ?e) CARGO_PROJECTS"
    unfolding efold_good [where good = "\<lambda>st. failures st = []", OF check_cargo_ok] by blast
  also have "\<dots> \<longleftrightarrow> graph_conforms fs cwd ?e"
    by (simp add: efold_good [where good = "\<lambda>st. failures st = []", OF check_mix_ok] graph_conforms_def)
  finally show ?thesis .
qed

text \<open>C10: the release check fails closed: it exits with zero exactly when every Mix and
  every Cargo project of the release graph can be read and states the expected
  version, and every internal dependency of a Mix project requires it.\<close>

theorem release_passes_iff:
  "(\<exists>out. release_main printable fs cwd argv = Inr (0, out))
     \<longleftrightarrow> graph_conforms fs cwd (expected_version argv)"
  by (rule release_main_zero)

end
