(* ===== verification/HexPackage.thy ===== *)
theory HexPackage
  imports ReleaseVersion EvidenceFiles
begin

text \<open>
  \<open>scripts/inspect-hex-package.py\<close>: the inspection of an unpacked Hex package
  and its report. File names are kept as components until the script turns them
  into text; that no component holds a slash is an invariant of a file system.
\<close>

section \<open>The inspection\<close>

definition FORBIDDEN_PARTS :: "str list" where
  "FORBIDDEN_PARTS = map lit [''_build'', ''.git'', ''.github'', ''artifacts'', ''deps'', ''priv/plts'']"

definition project_version :: "str \<Rightarrow> str option" where
  "project_version text = first_version VERSION_PATTERNS text"

definition package_sha256 :: "fs \<Rightarrow> path \<Rightarrow> str res" where
  "package_sha256 fs p = ebind (read_bytes fs p) (\<lambda>bs. Inr (sha256_stream bs))"

text \<open>\<open>sorted(path.relative_to(root).as_posix() for path in root.rglob("*") if path.is_file())\<close>\<close>

definition package_files :: "fs \<Rightarrow> path \<Rightarrow> str list" where
  "package_files fs root =
     sort (map (join_with [47]) (filter (\<lambda>rel. is_file fs (root @ rel)) (rglob fs root)))"

definition forbidden :: "str \<Rightarrow> bool" where
  "forbidden rel \<longleftrightarrow> list_ex (\<lambda>part. rel = part \<or> starts_with (part @ [47]) rel) FORBIDDEN_PARTS"

definition inspect_version ::
  "(nat \<Rightarrow> bool) \<Rightarrow> fs \<Rightarrow> path \<Rightarrow> str \<Rightarrow> (str option \<times> str list) res" where
  "inspect_version printable fs root expected =
     (let mix = root @ [lit ''mix.exs''] in
      if \<not> is_file fs mix then Inr (None, [lit ''package lacks mix.exs''])
      else
        ebind (read_path_text fs mix) (\<lambda>text.
        let version = project_version text in
        Inr (version,
             if version \<noteq> Some expected
             then [lit ''package version '' @ repr_option printable version @ lit '' != ''
                   @ repr_str printable expected]
             else [])))"

record inspection =
  package_version :: "str option"
  package_hashes :: "str dict"
  package_failures :: "str list"

definition inspect ::
  "(nat \<Rightarrow> bool) \<Rightarrow> fs \<Rightarrow> path \<Rightarrow> str \<Rightarrow> inspection res" where
  "inspect printable fs root expected =
     ebind (inspect_version printable fs root expected) (\<lambda>(version, failures).
     let files = package_files fs root;
         failures = (if \<not> list_ex (starts_with (lit ''lib/'')) files
                     then failures @ [lit ''package contains no lib/ source''] else failures);
         failures = failures @ map (\<lambda>rel. lit ''forbidden packaged path: '' @ rel) (filter forbidden files)
     in
     ebind (emap (\<lambda>rel. ebind (package_sha256 fs (join_path root rel)) (\<lambda>h. Inr (rel, h))) files) (\<lambda>hashes.
     Inr \<lparr>package_version = version, package_hashes = hashes, package_failures = failures\<rparr>))"

section \<open>The report\<close>

definition inspection_result :: "str \<Rightarrow> inspection \<Rightarrow> json" where
  "inspection_result package i =
     JObj [(lit ''standing'',
             JStr (if package_failures i = [] then lit ''ALIVE'' else lit ''BUILD_BROKEN'')),
           (lit ''package'', JStr package),
           (lit ''version'', case package_version i of None \<Rightarrow> JNull | Some v \<Rightarrow> JStr v),
           (lit ''file_count'', JInt (int (length (package_hashes i)))),
           (lit ''files'', JObj (map (map_prod id JStr) (package_hashes i))),
           (lit ''failures'', JArr (map JStr (package_failures i)))]"

record package_args =
  package_root :: str
  expected_version_arg :: str
  package_name :: str
  report_output :: "str option"

text \<open>\<open>main\<close>: the exit code, the standard output and the file system after the run.\<close>

definition package_main ::
  "(nat \<Rightarrow> bool) \<Rightarrow> fs \<Rightarrow> path \<Rightarrow> package_args \<Rightarrow> (nat \<times> str \<times> fs) res" where
  "package_main printable fs cwd args =
     ebind (resolve fs (join_path cwd (package_root args))) (\<lambda>root.
     ebind (inspect printable fs root (expected_version_arg args)) (\<lambda>i.
     let rendered = dumps indented (inspection_result (package_name args) i) @ [10];
         code = (if package_failures i = [] then 0 else 1)
     in
     case report_output args of
       None \<Rightarrow> Inr (code, rendered, fs)
     | Some out \<Rightarrow>
         if out = [] then Inr (code, rendered, fs)
         else
           ebind (make_dirs fs (butlast (join_path cwd out))) (\<lambda>fs'.
           ebind (write_text rendered) (\<lambda>bs.
           ebind (write_file fs' (join_path cwd out) bs) (\<lambda>fs''.
           Inr (code, rendered, fs''))))))"

section \<open>Names\<close>

text \<open>The invariant of a file system: names hold no slash, and are no dot names.\<close>

definition names_ok :: "fs \<Rightarrow> bool" where
  "names_ok fs \<longleftrightarrow> (\<forall>p\<in>fst ` set fs. list_all good_name p)"

lemma path_parts_join:
  assumes "rel \<noteq> []" "list_all good_name rel"
  shows "path_parts (join_with [47] rel) = rel"
proof -
  have "split_on 47 (join_with [47] rel) = rel"
    using assms by (intro split_on_join) (auto simp: list_all_iff good_name_def)
  then show ?thesis
    using assms by (auto simp: path_parts_def list_all_iff good_name_def plain_name_def intro!: filter_True)
qed

lemma join_path_join:
  assumes "rel \<noteq> []" "list_all good_name rel"
  shows "join_path root (join_with [47] rel) = root @ rel"
proof -
  from assms obtain c cs where rel: "rel = c # cs" "c \<noteq> []" "47 \<notin> set c"
    by (cases rel) (auto simp: good_name_def plain_name_def)
  then have "\<not> is_absolute (join_with [47] rel)" by (cases c) (auto simp: is_absolute_def)
  then show ?thesis by (simp add: join_path_def path_parts_join [OF assms])
qed

lemma join_inject:
  assumes "rel \<noteq> []" "list_all good_name rel" "rel' \<noteq> []" "list_all good_name rel'"
  shows "join_with [47] rel = join_with [47] rel' \<longleftrightarrow> rel = rel'"
  using path_parts_join [OF assms(1,2)] path_parts_join [OF assms(3,4)] by metis

text \<open>The regular files of a package, as components: entries below the directory the root names.\<close>

definition regular :: "fs \<Rightarrow> path \<Rightarrow> path \<Rightarrow> bool" where
  "regular fs root rel \<longleftrightarrow>
     rel \<noteq> [] \<and> (\<exists>d. locate fs root = Inr d \<and> node_at fs d = Some Dir \<and> d @ rel \<in> fst ` set fs)
     \<and> is_file fs (root @ rel)"

lemma regular_names: "names_ok fs \<Longrightarrow> regular fs root rel \<Longrightarrow> list_all good_name rel"
  unfolding names_ok_def regular_def by (metis list_all_append)

lemma set_package_files: "set (package_files fs root) = join_with [47] ` {rel. regular fs root rel}"
  by (auto simp: package_files_def set_rglob regular_def intro!: image_eqI)

text \<open>The text tests of the script, on components.\<close>

definition forbidden_rel :: "path \<Rightarrow> bool" where
  "forbidden_rel rel \<longleftrightarrow>
     take 1 rel \<in> (\<lambda>c. [lit c]) ` {''_build'', ''.git'', ''.github'', ''artifacts'', ''deps''}
     \<or> take 2 rel = [lit ''priv'', lit ''plts'']"

lemma part_test:
  assumes "rel \<noteq> []" "list_all good_name rel" "47 \<notin> set c"
  shows "join_with [47] rel = c \<or> starts_with (c @ [47]) (join_with [47] rel) \<longleftrightarrow> take 1 rel = [c]"
proof -
  have slash: "\<forall>q\<in>set rel. 47 \<notin> set q" using assms(2) by (auto simp: list_all_iff good_name_def)
  have "join_with [47] rel = c \<longleftrightarrow> rel = [c]"
  proof
    assume "join_with [47] rel = c"
    moreover have "split_on 47 (join_with [47] rel) = rel" using assms(1) slash by (rule split_on_join)
    moreover have "split_on 47 c = [c]"
      using split_on_join [of "[c]" 47] assms(3) by simp
    ultimately show "rel = [c]" by simp
  qed simp
  with starts_with_join [OF assms(3) slash] assms(1) show ?thesis by (cases rel) auto
qed

lemma two_part_test:
  assumes "rel \<noteq> []" "list_all good_name rel" "47 \<notin> set c" "47 \<notin> set d"
  shows "join_with [47] rel = c @ 47 # d \<or> starts_with (c @ 47 # d @ [47]) (join_with [47] rel)
    \<longleftrightarrow> take 2 rel = [c, d]"
proof (cases "\<exists>qs. rel = c # qs \<and> qs \<noteq> []")
  case True
  then obtain qs where rel: "rel = c # qs" "qs \<noteq> []" by blast
  then have q: "list_all good_name qs" using assms(2) by simp
  have "join_with [47] rel = c @ 47 # d \<or> starts_with (c @ 47 # d @ [47]) (join_with [47] rel)
      \<longleftrightarrow> join_with [47] qs = d \<or> starts_with (d @ [47]) (join_with [47] qs)"
    using rel by (simp add: starts_with_iff)
  also have "\<dots> \<longleftrightarrow> take 1 qs = [d]" by (rule part_test [OF rel(2) q assms(4)])
  finally show ?thesis using rel by simp
next
  case False
  have slash: "\<forall>q\<in>set rel. 47 \<notin> set q" using assms(2) by (auto simp: list_all_iff good_name_def)
  have "\<not> starts_with (c @ [47]) (join_with [47] rel)"
    using starts_with_join [OF assms(3) slash] False by simp
  then have "join_with [47] rel \<noteq> c @ 47 # d" "\<not> starts_with (c @ 47 # d @ [47]) (join_with [47] rel)"
    by (auto simp: starts_with_iff)
  moreover have "take 2 rel \<noteq> [c, d]" using False by (cases rel; cases "tl rel") auto
  ultimately show ?thesis by simp
qed

lemma forbidden_iff:
  assumes "rel \<noteq> []" "list_all good_name rel"
  shows "forbidden (join_with [47] rel) \<longleftrightarrow> forbidden_rel rel"
proof -
  have plts: "lit ''priv/plts'' = lit ''priv'' @ 47 # lit ''plts''" by (simp add: lit_def)
  have "47 \<notin> set (lit c)" if "c \<in> {''_build'', ''.git'', ''.github'', ''artifacts'', ''deps''}" for c
    using that by (auto simp: lit_def)
  then have one: "join_with [47] rel = lit c \<or> starts_with (lit c @ [47]) (join_with [47] rel)
      \<longleftrightarrow> take 1 rel = [lit c]" if "c \<in> {''_build'', ''.git'', ''.github'', ''artifacts'', ''deps''}" for c
    using that by (intro part_test [OF assms]) blast
  have two: "join_with [47] rel = lit ''priv/plts'' \<or> starts_with (lit ''priv/plts'' @ [47]) (join_with [47] rel)
      \<longleftrightarrow> take 2 rel = [lit ''priv'', lit ''plts'']"
    using two_part_test [OF assms, of "lit ''priv''" "lit ''plts''"] by (simp add: plts) (simp add: lit_def)
  show ?thesis
    by (simp add: forbidden_def FORBIDDEN_PARTS_def forbidden_rel_def one two)
qed

lemma lib_iff:
  assumes "list_all good_name rel"
  shows "starts_with (lit ''lib/'') (join_with [47] rel) \<longleftrightarrow> take 1 rel = [lit ''lib''] \<and> 2 \<le> length rel"
proof -
  have lib: "lit ''lib/'' = lit ''lib'' @ [47]" "47 \<notin> set (lit ''lib'')" by (simp_all add: lit_def)
  have "\<forall>q\<in>set rel. 47 \<notin> set q" using assms by (auto simp: list_all_iff good_name_def)
  from starts_with_join [OF lib(2) this]
  have "starts_with (lit ''lib/'') (join_with [47] rel) \<longleftrightarrow> (\<exists>qs. rel = lit ''lib'' # qs \<and> qs \<noteq> [])"
    by (simp only: lib(1))
  also have "\<dots> \<longleftrightarrow> take 1 rel = [lit ''lib''] \<and> 2 \<le> length rel" by (cases rel; cases "tl rel") auto
  finally show ?thesis .
qed

end
