(* ===== verification/HexProps.thy ===== *)
theory HexProps
  imports HexPackage
begin

text \<open>
  The properties of the package inspection: what a clean package is, and that
  the report binds every regular file of the package to its digest.
\<close>

section \<open>Clean packages\<close>

definition package_clean :: "fs \<Rightarrow> path \<Rightarrow> str \<Rightarrow> bool" where
  "package_clean fs root expected \<longleftrightarrow>
     (\<exists>text. read_path_text fs (root @ [lit ''mix.exs'']) = Inr text \<and> project_version text = Some expected)
     \<and> (\<exists>rel. regular fs root rel \<and> take 1 rel = [lit ''lib''] \<and> 2 \<le> length rel)
     \<and> (\<forall>rel. regular fs root rel \<longrightarrow> \<not> forbidden_rel rel)"

lemma inspect_version_clean:
  assumes "inspect_version printable fs root expected = Inr (version, fl)"
  shows "fl = [] \<longleftrightarrow> (\<exists>text. read_path_text fs (root @ [lit ''mix.exs'']) = Inr text
    \<and> project_version text = Some expected)"
proof (cases "read_path_text fs (root @ [lit ''mix.exs''])")
  case (Inl e)
  with assms show ?thesis by (auto simp: inspect_version_def Let_def split: if_splits)
next
  case (Inr doc)
  then have "is_file fs (root @ [lit ''mix.exs''])"
    by (auto simp: is_file_iff read_path_text_def res_dest)
  with Inr assms show ?thesis by (auto simp: inspect_version_def Let_def split: if_splits)
qed

lemma package_lib:
  assumes "names_ok fs"
  shows "list_ex (starts_with (lit ''lib/'')) (package_files fs root)
    \<longleftrightarrow> (\<exists>rel. regular fs root rel \<and> take 1 rel = [lit ''lib''] \<and> 2 \<le> length rel)"
  using lib_iff [OF regular_names [OF assms]]
  by (auto simp: list_ex_iff set_package_files)

lemma package_forbidden:
  assumes "names_ok fs"
  shows "filter forbidden (package_files fs root) = []
    \<longleftrightarrow> (\<forall>rel. regular fs root rel \<longrightarrow> \<not> forbidden_rel rel)"
proof -
  have "forbidden (join_with [47] rel) \<longleftrightarrow> forbidden_rel rel" if "regular fs root rel" for rel
    using that regular_names [OF assms that] by (intro forbidden_iff) (simp_all add: regular_def)
  then show ?thesis by (auto simp: filter_empty_conv set_package_files)
qed

text \<open>C12: an inspection finds no failure exactly when \<open>mix.exs\<close> states the expected
  version, there is a source file under \<open>lib\<close>, and no file lies in a directory, or
  is a file, that must not be packaged; the textual tests on paths decide
  exactly this about their components.\<close>

theorem inspection_clean_iff:
  assumes "names_ok fs" "inspect printable fs root expected = Inr i"
  shows "package_failures i = [] \<longleftrightarrow> package_clean fs root expected"
proof -
  from assms(2) obtain version fl where v: "inspect_version printable fs root expected = Inr (version, fl)"
    and i: "package_failures i =
      (if \<not> list_ex (starts_with (lit ''lib/'')) (package_files fs root)
       then fl @ [lit ''package contains no lib/ source''] else fl)
      @ map (\<lambda>rel. lit ''forbidden packaged path: '' @ rel) (filter forbidden (package_files fs root))"
    by (auto simp: inspect_def Let_def res_dest split: prod.splits)
  have "package_failures i = [] \<longleftrightarrow> fl = [] \<and> list_ex (starts_with (lit ''lib/'')) (package_files fs root)
      \<and> filter forbidden (package_files fs root) = []"
    unfolding i by simp
  also have "\<dots> \<longleftrightarrow> package_clean fs root expected"
    unfolding package_clean_def inspect_version_clean [OF v] package_lib [OF assms(1)]
      package_forbidden [OF assms(1)] by simp
  finally show ?thesis .
qed

section \<open>The table of digests\<close>

lemma emap_table:
  assumes "emap (\<lambda>k. ebind (f k) (\<lambda>v. Inr (k, v))) ks = Inr table"
  shows "keys table = ks" and "\<forall>p\<in>set table. f (fst p) = Inr (snd p)"
proof -
  have "keys table = ks \<and> (\<forall>p\<in>set table. f (fst p) = Inr (snd p))"
    using assms by (induction ks arbitrary: table) (fastforce simp: res_dest)+
  then show "keys table = ks" "\<forall>p\<in>set table. f (fst p) = Inr (snd p)" by simp_all
qed

text \<open>C13: the report binds the package byte for byte: its table of files has exactly the
  regular files below the root, at any depth, in sorted order, and the entry of
  each is the SHA-256 of all its bytes.\<close>

theorem inspection_hashes:
  assumes "names_ok fs" "inspect printable fs root expected = Inr i"
  shows "sorted (keys (package_hashes i))
    \<and> set (keys (package_hashes i)) = {join_with [47] rel |rel. regular fs root rel}
    \<and> (\<forall>rel bs. regular fs root rel \<and> read_bytes fs (root @ rel) = Inr bs
        \<longrightarrow> map_of (package_hashes i) (join_with [47] rel) = Some (sha256_bytes bs))"
proof -
  from assms(2) have t: "emap (\<lambda>rel. ebind (package_sha256 fs (join_path root rel)) (\<lambda>h. Inr (rel, h)))
      (package_files fs root) = Inr (package_hashes i)"
    by (auto simp: inspect_def Let_def res_dest split: prod.splits)
  note k = emap_table [OF t]
  have "map_of (package_hashes i) (join_with [47] rel) = Some (sha256_bytes bs)"
    if r: "regular fs root rel" "read_bytes fs (root @ rel) = Inr bs" for rel bs
  proof -
    have j: "join_path root (join_with [47] rel) = root @ rel"
      using r(1) regular_names [OF assms(1) r(1)] by (intro join_path_join) (simp_all add: regular_def)
    have "join_with [47] rel \<in> set (keys (package_hashes i))"
      using k(1) r(1) by (auto simp: set_package_files)
    then obtain h where h: "map_of (package_hashes i) (join_with [47] rel) = Some h"
      using weak_map_of_SomeI by force
    with k(2) have "package_sha256 fs (root @ rel) = Inr h"
      using j by (force dest: map_of_SomeD)
    with r(2) h show ?thesis by (simp add: package_sha256_def sha256_stream_eq)
  qed
  moreover have "sorted (keys (package_hashes i))" by (simp add: k(1) package_files_def)
  ultimately show ?thesis by (auto simp: k(1) set_package_files)
qed

section \<open>A package\<close>

definition ex_package :: fs where
  "ex_package =
     [([lit ''pkg''], Dir), ([lit ''pkg'', lit ''lib''], Dir),
      ([lit ''pkg'', lit ''mix.exs''], File (map of_nat (lit ''version:\"1\"''))),
      ([lit ''pkg'', lit ''lib'', lit ''a.ex''], File [10])]"

lemma ex_package_links [simp]: "link_target ex_package p = None"
  by (auto simp: link_target_def ex_package_def)

lemma ex_package_canonical [simp]: "canonical ex_package p \<longleftrightarrow> list_all plain_name p"
  by (simp add: canonical_def)

lemma ex_package_names:
  "names_ok ex_package" "plain_name (lit ''pkg'')" "plain_name (lit ''lib'')"
  "plain_name (lit ''mix.exs'')" "plain_name (lit ''a.ex'')"
  by (simp_all add: names_ok_def ex_package_def good_name_def plain_name_def) (simp_all add: lit_def)

lemma ex_package_read:
  "read_bytes ex_package [lit ''pkg'', lit ''mix.exs''] = Inr (map of_nat (lit ''version:\"1\"''))"
  "read_bytes ex_package [lit ''pkg'', lit ''lib'', lit ''a.ex''] = Inr [10]"
proof -
  have "node_at ex_package [lit ''pkg'', lit ''mix.exs''] = Some (File (map of_nat (lit ''version:\"1\"'')))"
    "node_at ex_package [lit ''pkg'', lit ''lib'', lit ''a.ex''] = Some (File [10])"
    by (simp_all add: node_at_def ex_package_def)
  moreover have "above ex_package [lit ''pkg'', lit ''mix.exs'']" "above ex_package [lit ''pkg'', lit ''lib'', lit ''a.ex'']"
    by (simp_all add: node_at_def ex_package_def)
  ultimately show "read_bytes ex_package [lit ''pkg'', lit ''mix.exs''] = Inr (map of_nat (lit ''version:\"1\"''))"
    "read_bytes ex_package [lit ''pkg'', lit ''lib'', lit ''a.ex''] = Inr [10]"
    by (simp_all add: read_bytes_plain ex_package_names)
qed

lemma ex_package_mix:
  "read_path_text ex_package [lit ''pkg'', lit ''mix.exs''] = Inr (lit ''version:\"1\"'')"
  "project_version (lit ''version:\"1\"'') = Some (lit ''1'')"
proof -
  have "utf8_encode (lit ''version:\"1\"'') = Inr (map of_nat (lit ''version:\"1\"''))"
    by (simp add: utf8_encode_def lit_def is_scalar_def utf8_of_cp_def)
  from utf8_decode_encode [OF this] have "read_text (map of_nat (lit ''version:\"1\"'')) = Inr (lit ''version:\"1\"'')"
    by (simp add: read_text_def) (simp add: lit_def)
  then show "read_path_text ex_package [lit ''pkg'', lit ''mix.exs''] = Inr (lit ''version:\"1\"'')"
    by (simp add: read_path_text_def ex_package_read)
  show "project_version (lit ''version:\"1\"'') = Some (lit ''1'')" by code_simp
qed

lemma ex_package_regular:
  "regular ex_package [lit ''pkg''] rel \<longleftrightarrow> rel \<in> {[lit ''mix.exs''], [lit ''lib'', lit ''a.ex'']}"
proof -
  have "\<not> is_file ex_package [lit ''pkg'', lit ''lib'']"
    using locate_resolve [of ex_package "[lit ''pkg'', lit ''lib'']"]
    by (auto simp: is_file_iff read_bytes_iff resolve_plain ex_package_names)
      (simp add: node_at_def ex_package_def)
  moreover have "is_file ex_package [lit ''pkg'', lit ''mix.exs'']" "is_file ex_package [lit ''pkg'', lit ''lib'', lit ''a.ex'']"
    using ex_package_read by (auto simp: is_file_iff)
  moreover have "[lit ''pkg''] @ rel \<in> fst ` set ex_package
      \<longleftrightarrow> rel \<in> {[], [lit ''lib''], [lit ''mix.exs''], [lit ''lib'', lit ''a.ex'']}"
    by (auto simp: ex_package_def)
  moreover have "locate ex_package [lit ''pkg''] = Inr [lit ''pkg'']" "node_at ex_package [lit ''pkg''] = Some Dir"
    by (simp_all add: locate_plain ex_package_names) (simp add: node_at_def ex_package_def)
  ultimately show ?thesis unfolding regular_def by auto
qed

lemma ex_package_clean: "package_clean ex_package [lit ''pkg''] (lit ''1'')"
proof -
  have "take 1 [lit ''lib'', lit ''a.ex''] = [lit ''lib'']" "2 \<le> length [lit ''lib'', lit ''a.ex'']" by simp_all
  moreover have "\<not> forbidden_rel [lit ''mix.exs'']" "\<not> forbidden_rel [lit ''lib'', lit ''a.ex'']"
    by (auto simp: forbidden_rel_def)
  ultimately show ?thesis
    unfolding package_clean_def ex_package_regular using ex_package_mix by auto
qed

lemma ex_package_inspected: "\<exists>i. inspect printable ex_package [lit ''pkg''] (lit ''1'') = Inr i"
proof -
  have "package_sha256 ex_package (join_path [lit ''pkg''] f) \<noteq> Inl e"
    if f: "f \<in> set (package_files ex_package [lit ''pkg''])" for f e
  proof -
    from f obtain rel where rel: "f = join_with [47] rel" "regular ex_package [lit ''pkg''] rel"
      by (auto simp: set_package_files)
    then have "join_path [lit ''pkg''] f = lit ''pkg'' # rel"
      using regular_names [OF ex_package_names(1) rel(2)] join_path_join [of rel "[lit ''pkg'']"]
      by (simp add: regular_def)
    with rel(2) show ?thesis by (auto simp: package_sha256_def ex_package_regular ex_package_read)
  qed
  then have "\<exists>t. emap (\<lambda>rel. ebind (package_sha256 ex_package (join_path [lit ''pkg''] rel)) (\<lambda>h. Inr (rel, h)))
      (package_files ex_package [lit ''pkg'']) = Inr t"
    by (intro emap_total) (metis ebind.simps(2) sum.exhaust)
  then show ?thesis
    by (auto simp: inspect_def inspect_version_def Let_def ex_package_mix is_file_iff ex_package_read)
qed

theorem inspection_clean_iff_witness:
  "\<exists>i. inspect (\<lambda>_. True) ex_package [lit ''pkg''] (lit ''1'') = Inr i \<and> package_failures i = []"
  using ex_package_inspected inspection_clean_iff [OF ex_package_names(1)] ex_package_clean by blast

theorem inspection_hashes_witness:
  "\<exists>i. inspect (\<lambda>_. True) ex_package [lit ''pkg''] (lit ''1'') = Inr i
    \<and> map_of (package_hashes i) (lit ''lib/a.ex'') = Some (sha256_bytes [10])"
proof -
  obtain i where i: "inspect (\<lambda>_. True) ex_package [lit ''pkg''] (lit ''1'') = Inr i"
    using ex_package_inspected by blast
  have "join_with [47] [lit ''lib'', lit ''a.ex''] = lit ''lib/a.ex''" by (simp add: lit_def)
  moreover have "regular ex_package [lit ''pkg''] [lit ''lib'', lit ''a.ex'']" by (simp add: ex_package_regular)
  ultimately show ?thesis
    using inspection_hashes [OF ex_package_names(1) i] i ex_package_read(2) by fastforce
qed

end
