(* ===== verification/PlanExtract.thy ===== *)
theory PlanExtract
  imports JsonRound PyFs
begin

text \<open>
  \<open>scripts/extract-ex4pm-plan-json.py\<close>: the one object of the protocol
  \<open>ex4pm-plan/v1\<close> in the mixed output of a worker, and its properties.
\<close>

section \<open>The extraction\<close>

text \<open>The body of the loop: the protocol object a line holds, if it holds one.\<close>

definition plan_object :: "str \<Rightarrow> json option" where
  "plan_object line =
     (let line = strip line in
      if \<not> starts_with (lit ''{'') line then None
      else
        (case loads line of
           Inl _ \<Rightarrow> None
         | Inr value \<Rightarrow>
             (case the_obj value of
                Some d \<Rightarrow> if fld d ''protocol'' = Some (JStr (lit ''ex4pm-plan/v1'')) then Some value else None
              | None \<Rightarrow> None)))"

fun candidates_from :: "nat \<Rightarrow> str list \<Rightarrow> (nat \<times> json) list" where
  "candidates_from n [] = []"
| "candidates_from n (line # lines) =
     (case plan_object line of
        None \<Rightarrow> candidates_from (Suc n) lines
      | Some value \<Rightarrow> (n, value) # candidates_from (Suc n) lines)"

definition plan_report :: "nat \<Rightarrow> json" where
  "plan_report number = JObj [(lit ''standing'', JStr (lit ''ALIVE'')), (lit ''protocol_line'', JInt (int number))]"

text \<open>The loop and the refusal: the line number and the object that were found.\<close>

definition plan_select :: "fs \<Rightarrow> path \<Rightarrow> str \<Rightarrow> (nat \<times> json) res" where
  "plan_select fs cwd raw =
     ebind (read_path_text fs (join_path cwd raw)) (\<lambda>text.
     case candidates_from 1 (splitlines text) of
       [(number, value)] \<Rightarrow> Inr (number, value)
     | found \<Rightarrow>
         Inl (SystemExit (lit ''REFUSED: expected exactly one ex4pm-plan/v1 object, observed ''
                          @ dec_nat (length found))))"

text \<open>\<open>main\<close>: the standard output and the file system after a run that exits with zero, or the exception.\<close>

definition plan_main :: "fs \<Rightarrow> path \<Rightarrow> str \<Rightarrow> str \<Rightarrow> (str \<times> fs) res" where
  "plan_main fs cwd raw out =
     ebind (plan_select fs cwd raw) (\<lambda>(number, value).
     ebind (write_text (dumps compact value @ [10])) (\<lambda>bs.
     ebind (write_file fs (join_path cwd out) bs) (\<lambda>fs'.
     Inr (dumps one_line (plan_report number) @ [10], fs'))))"

section \<open>Properties\<close>

lemma candidates_from_iff:
  "(k, v) \<in> set (candidates_from n lines) \<longleftrightarrow>
     (\<exists>i<length lines. k = n + i \<and> plan_object (lines ! i) = Some v)"
proof (induction lines arbitrary: n)
  case (Cons line lines)
  have "(k, v) \<in> set (candidates_from n (line # lines))
      \<longleftrightarrow> k = n \<and> plan_object line = Some v \<or> (\<exists>i<length lines. k = Suc n + i \<and> plan_object (lines ! i) = Some v)"
    by (auto simp: Cons.IH split: option.splits)
  also have "\<dots> \<longleftrightarrow> (\<exists>i<length (line # lines). k = n + i \<and> plan_object ((line # lines) ! i) = Some v)"
    by (auto simp: less_Suc_eq_0_disj)
  finally show ?case .
qed simp

lemma candidates_from_distinct: "distinct (map fst (candidates_from n lines))"
proof (induction lines arbitrary: n)
  case (Cons line lines)
  have "n \<notin> set (map fst (candidates_from (Suc n) lines))"
    using candidates_from_iff [of n _ "Suc n" lines] by auto
  with Cons show ?case by (simp split: option.splits)
qed simp

lemma candidates_single:
  "candidates_from n lines = [(k, v)] \<longleftrightarrow>
     (\<exists>i<length lines. k = n + i \<and> plan_object (lines ! i) = Some v
        \<and> (\<forall>j<length lines. j \<noteq> i \<longrightarrow> plan_object (lines ! j) = None))"
proof
  assume single: "candidates_from n lines = [(k, v)]"
  then have "(k, v) \<in> set (candidates_from n lines)" by simp
  then obtain i where i: "i < length lines" "k = n + i" "plan_object (lines ! i) = Some v"
    unfolding candidates_from_iff by blast
  have "plan_object (lines ! j) = None" if "j < length lines" "j \<noteq> i" for j
  proof (rule ccontr)
    assume "plan_object (lines ! j) \<noteq> None"
    then obtain w where "plan_object (lines ! j) = Some w" by blast
    with that(1) have "(n + j, w) \<in> set (candidates_from n lines)"
      unfolding candidates_from_iff by blast
    with single i that(2) show False by simp
  qed
  with i show "\<exists>i<length lines. k = n + i \<and> plan_object (lines ! i) = Some v
      \<and> (\<forall>j<length lines. j \<noteq> i \<longrightarrow> plan_object (lines ! j) = None)" by blast
next
  assume "\<exists>i<length lines. k = n + i \<and> plan_object (lines ! i) = Some v
      \<and> (\<forall>j<length lines. j \<noteq> i \<longrightarrow> plan_object (lines ! j) = None)"
  then have s: "set (candidates_from n lines) = {(k, v)}"
    using candidates_from_iff [of _ _ n lines] by auto (metis option.distinct(1) option.inject)+
  have "distinct (candidates_from n lines)"
    using candidates_from_distinct distinct_map by blast
  with s have "length (candidates_from n lines) = 1"
    by (metis distinct_card card.empty card.insert empty_iff finite.emptyI One_nat_def)
  with s show "candidates_from n lines = [(k, v)]"
    by (cases "candidates_from n lines") auto
qed

text \<open>A line that is a protocol object, and the one such line.\<close>

definition protocol_line :: "str \<Rightarrow> json \<Rightarrow> bool" where
  "protocol_line line v \<longleftrightarrow>
     (\<exists>d. v = JObj d \<and> loads (strip line) = Inr v \<and> fld d ''protocol'' = Some (JStr (lit ''ex4pm-plan/v1'')))"

definition sole_object :: "str \<Rightarrow> nat \<Rightarrow> json \<Rightarrow> bool" where
  "sole_object text i v \<longleftrightarrow>
     i < length (splitlines text) \<and> protocol_line (splitlines text ! i) v
     \<and> (\<forall>j<length (splitlines text). j \<noteq> i \<longrightarrow> (\<nexists>w. protocol_line (splitlines text ! j) w))"

text \<open>The test of the first character rejects no object: a text that reads as one begins with a brace.\<close>

lemma scan_atom_no_object: "scan_atom s \<noteq> Inr (JObj d, r)"
  by (auto simp: scan_atom_def scan_constant_def scan_number_def scan_unsigned_def Let_def of_option_Inr_iff
      split: option.splits if_splits prod.splits list.splits)

lemma loads_object_brace: "loads s = Inr (JObj d) \<Longrightarrow> \<exists>r. skip_ws s = 123 # r"
proof -
  assume "loads s = Inr (JObj d)"
  then obtain r where "scan_value (Suc (2 * length s + 1)) (skip_ws s) = Inr (JObj d, r)"
    by (auto simp: loads_def scan_fuel_def split: if_splits sum.splits)
  then show ?thesis
    using scan_atom_no_object
    by (cases "skip_ws s") (auto simp: scan_value.simps res_dest split: if_splits list.splits)
qed

lemma strip_skip_ws: "skip_ws (strip s) = strip s"
proof (cases "strip s")
  case (Cons c r)
  then have "\<not> is_json_space c" using hd_strip [of s] by (auto simp: is_json_space_def is_py_space_def)
  with Cons show ?thesis by (simp add: skip_ws_def)
qed (simp add: skip_ws_def)

lemma plan_object_iff: "plan_object line = Some v \<longleftrightarrow> protocol_line line v"
proof
  assume "plan_object line = Some v"
  then show "protocol_line line v"
    by (auto simp: plan_object_def protocol_line_def Let_def split: if_splits sum.splits option.splits)
next
  assume p: "protocol_line line v"
  then obtain r where "strip line = 123 # r"
    using loads_object_brace strip_skip_ws unfolding protocol_line_def by metis
  then have "starts_with (lit ''{'') (strip line)" by (simp add: starts_with_def lit_def)
  with p show "plan_object line = Some v" by (auto simp: plan_object_def protocol_line_def)
qed

lemma sole_object_eq:
  "sole_object text i v \<longleftrightarrow>
     i < length (splitlines text) \<and> plan_object (splitlines text ! i) = Some v
     \<and> (\<forall>j<length (splitlines text). j \<noteq> i \<longrightarrow> plan_object (splitlines text ! j) = None)"
  unfolding sole_object_def plan_object_iff [symmetric] by auto

lemma plan_main_Inr:
  "plan_main fs cwd raw out = Inr (stdout, fs') \<longleftrightarrow>
     (\<exists>text i v bs. read_path_text fs (join_path cwd raw) = Inr text \<and> sole_object text i v
        \<and> write_text (dumps compact v @ [10]) = Inr bs \<and> write_file fs (join_path cwd out) bs = Inr fs'
        \<and> stdout = dumps one_line (plan_report (Suc i)) @ [10])"
proof (cases "read_path_text fs (join_path cwd raw)")
  case (Inl e)
  then show ?thesis by (simp add: plan_main_def plan_select_def)
next
  case (Inr doc)
  consider (one) k v where "candidates_from 1 (splitlines doc) = [(k, v)]"
    | (other) "\<nexists>k v. candidates_from 1 (splitlines doc) = [(k, v)]" by blast
  then show ?thesis
  proof cases
    case one
    note sole = one [unfolded candidates_single]
    then obtain i0 where k: "k = Suc i0" by auto
    have "sole_object doc i w \<longleftrightarrow> Suc i = k \<and> w = v" for i w
      using sole candidates_single [of 1 "splitlines doc" "Suc i" w] one
      unfolding sole_object_eq by fastforce
    with Inr one k show ?thesis by (auto simp: plan_main_def plan_select_def res_dest)
  next
    case other
    then have "\<not> sole_object doc i v" for i v
      using candidates_single [of 1 "splitlines doc"] unfolding sole_object_eq by fastforce
    with Inr other show ?thesis by (auto simp: plan_main_def plan_select_def split: list.splits)
  qed
qed

text \<open>C14: the extraction succeeds exactly on a stream in which one line, and only one,
  holds a protocol object (whatever else the stream holds), provided the output
  can be written; encoding the object never fails.\<close>

theorem plan_extracts_iff:
  "(\<exists>stdout fs'. plan_main fs cwd raw out = Inr (stdout, fs')) \<longleftrightarrow>
     (\<exists>text i v bs fs'. read_path_text fs (join_path cwd raw) = Inr text \<and> sole_object text i v
        \<and> utf8_encode (dumps compact v @ [10]) = Inr bs \<and> write_file fs (join_path cwd out) bs = Inr fs')"
  unfolding plan_main_Inr write_text_def by blast

text \<open>C15: what is written is the object: after a successful extraction the output file reads
  back as the protocol object of the stream, its keys sorted, and no other file
  has changed.\<close>

theorem plan_round_trip:
  assumes "plan_main fs cwd raw out = Inr (stdout, fs')"
    and "read_path_text fs (join_path cwd raw) = Inr text" "sole_object text i v" "json_ok v"
    and "resolve fs (join_path cwd out) = Inr q"
  shows "\<exists>bs. ebind (read_text bs) loads = Inr (sort_json v)
    \<and> (\<forall>p. node_at fs' p = (if p = q then Some (File bs) else node_at fs p))"
proof -
  from assms(1,2) obtain j w bs where w: "sole_object text j w" "write_text (dumps compact w @ [10]) = Inr bs"
      "write_file fs (join_path cwd out) bs = Inr fs'"
    unfolding plan_main_Inr by auto
  from w(1) assms(3) have "w = v"
    unfolding sole_object_eq by (metis option.distinct(1) option.inject)
  with w(2) have "ebind (read_text bs) loads = Inr (sort_json v)"
    using dumps_line_read_back [of compact v bs] assms(4) by simp
  with write_file_node_at [OF w(3) assms(5)] show ?thesis by blast
qed

text \<open>A stream with one protocol object between two other lines.\<close>

definition ex_plan :: "json dict" where
  "ex_plan = [(lit ''protocol'', JStr (lit ''ex4pm-plan/v1'')), (lit ''a'', JNull)]"

definition ex_line :: str where
  "ex_line = lit ''{\"protocol\":\"ex4pm-plan/v1\",\"a\":null}''"

definition ex_stream :: str where
  "ex_stream = lit ''log'' @ [10] @ ex_line @ [10] @ lit ''{}''"

definition ex_plan_fs :: fs where
  "ex_plan_fs = [([lit ''raw''], File (map of_nat ex_stream))]"

lemma ex_line_dump: "dump compact 0 (JObj ex_plan) = ex_line"
  by (simp add: ex_plan_def ex_line_def compact_def encode_string_def encode_char_def newline_at_def lit_def)

lemma ex_plan_ok: "json_ok (JObj ex_plan)"
  by (simp add: ex_plan_def text_ok_def is_scalar_def lit_def)

lemma ex_stream_lines: "splitlines ex_stream = [lit ''log'', ex_line, lit ''{}'']"
  by (simp add: ex_stream_def ex_line_def splitlines_def is_line_break_def lit_def)

lemma ex_plan_objects:
  "plan_object (lit ''log'') = None" "plan_object (lit ''{}'') = None"
  "plan_object ex_line = Some (JObj ex_plan)"
proof -
  have space: "is_py_space c \<longleftrightarrow> c = 32" if "c \<in> set (lit ''log{}'')" for c
    using that by (auto simp: lit_def is_py_space_def)
  show "plan_object (lit ''log'') = None"
    by (simp add: plan_object_def strip_def is_py_space_def starts_with_def lit_def)
  have "lit ''{}'' = dump compact 0 (JObj [])" by simp
  then have "loads (lit ''{}'') = Inr (JObj [])" using loads_dump [OF layouts_ok(1), of "JObj []"] by simp
  moreover have "strip (lit ''{}'') = lit ''{}''" by (simp add: strip_def is_py_space_def lit_def)
  ultimately show "plan_object (lit ''{}'') = None"
    by (simp add: plan_object_def Let_def)
  have "loads ex_line = Inr (JObj ex_plan)"
    using loads_dump [OF layouts_ok(1) ex_plan_ok] by (simp only: ex_line_dump)
  moreover have "strip ex_line = ex_line" "starts_with (lit ''{'') ex_line"
    by (simp_all add: ex_line_def strip_def is_py_space_def starts_with_def lit_def)
  ultimately show "plan_object ex_line = Some (JObj ex_plan)"
    by (simp add: plan_object_def ex_plan_def)
qed

lemma ex_sole: "sole_object ex_stream 1 (JObj ex_plan)"
  by (auto simp: sole_object_eq ex_stream_lines ex_plan_objects less_Suc_eq numeral_3_eq_3)

lemma ex_stream_read: "read_path_text ex_plan_fs (join_path [] (lit ''raw'')) = Inr ex_stream"
proof -
  have "utf8_encode ex_stream = Inr (map of_nat ex_stream)"
    by (simp add: utf8_encode_def ex_stream_def ex_line_def lit_def is_scalar_def utf8_of_cp_def)
  then have "read_text (map of_nat ex_stream) = Inr ex_stream"
    using read_write_text [of ex_stream] by (simp add: write_text_def ex_stream_def ex_line_def lit_def)
  moreover have "join_path [] (lit ''raw'') = [lit ''raw'']" "plain_name (lit ''raw'')"
    by (simp_all add: join_path_def is_absolute_def path_parts_def split_on_def plain_name_def lit_def)
  moreover have "read_bytes ex_plan_fs [lit ''raw''] = Inr (map of_nat ex_stream)"
    by (rule read_bytes_plain)
      (simp_all add: canonical_def calculation(3) link_target_def ex_plan_fs_def node_at_def)
  ultimately show ?thesis by (simp add: read_path_text_def)
qed

lemma ex_out: "join_path [] (lit ''out'') = [lit ''out'']" "canonical ex_plan_fs [lit ''out'']"
  "resolve ex_plan_fs (join_path [] (lit ''out'')) = Inr [lit ''out'']"
proof -
  show join: "join_path [] (lit ''out'') = [lit ''out'']"
    by (simp add: join_path_def is_absolute_def path_parts_def split_on_def lit_def)
  show can: "canonical ex_plan_fs [lit ''out'']"
    by (simp add: canonical_def link_target_def ex_plan_fs_def plain_name_def)
  show "resolve ex_plan_fs (join_path [] (lit ''out'')) = Inr [lit ''out'']"
    unfolding join using can by (rule resolve_plain)
qed

theorem plan_round_trip_witness:
  "\<exists>stdout fs' bs. plan_main ex_plan_fs [] (lit ''raw'') (lit ''out'') = Inr (stdout, fs')
     \<and> ebind (read_text bs) loads = Inr (sort_json (JObj ex_plan))
     \<and> node_at fs' [lit ''out''] = Some (File bs)"
proof -
  obtain bs where "write_text (dumps compact (JObj ex_plan) @ [10]) = Inr bs"
    by (rule dumps_ascii_writes [OF layouts_clean(1)]) (simp add: compact_def)
  moreover have "write_file ex_plan_fs (join_path [] (lit ''out'')) bs = Inr (put_file [lit ''out''] bs ex_plan_fs)"
    unfolding ex_out(1) using ex_out(2)
    by (rule write_file_plain) (simp_all add: node_at_def ex_plan_fs_def)
  ultimately obtain stdout fs' where run: "plan_main ex_plan_fs [] (lit ''raw'') (lit ''out'') = Inr (stdout, fs')"
    using ex_stream_read ex_sole unfolding plan_main_Inr by blast
  from plan_round_trip [OF run ex_stream_read ex_sole ex_plan_ok ex_out(3)] run show ?thesis by auto
qed

end
