(* ===== verification/FlyTopology.thy ===== *)
theory FlyTopology
  imports Crown
begin

text \<open>
  \<open>scripts/qualify-fly-topology.py\<close>: the lookup of a machine's metadata, the
  observation of a machine with its digest, the loop over the machines, the
  counts, the attestation files and the summary.
\<close>

section \<open>A machine\<close>

text \<open>
  \<open>config.get("metadata") if isinstance(..., dict) else {}\<close>; a missing value is
  Python's \<open>None\<close>, which as a document is \<open>null\<close>.
\<close>

definition sub_object :: "json dict \<Rightarrow> string \<Rightarrow> json dict" where
  "sub_object d k = (case obj_field d k of None \<Rightarrow> [] | Some e \<Rightarrow> e)"

definition fly_field :: "json dict \<Rightarrow> string \<Rightarrow> json" where
  "fly_field machine name =
     (case fld machine name of
        Some v \<Rightarrow> v
      | None \<Rightarrow>
          (let metadata = sub_object (sub_object machine ''config'') ''metadata'' in
           case fld metadata name of
             Some v \<Rightarrow> v
           | None \<Rightarrow> get_or (sub_object machine ''metadata'') (lit name) JNull))"

definition required_metadata :: "json dict \<Rightarrow> (string \<times> json) list" where
  "required_metadata machine =
     [(''host_id'', fly_field machine ''id''),
      (''region'', fly_field machine ''region''),
      (''fault_domain'', fly_field machine ''fault_domain''),
      (''release_digest'', fly_field machine ''ex4pm_release_digest''),
      (''source_sha'', fly_field machine ''ex4pm_source_sha''),
      (''cert_fingerprint'', fly_field machine ''cert_fingerprint'')]"

definition is_text :: "json \<Rightarrow> bool" where
  "is_text v \<longleftrightarrow> (case v of JStr s \<Rightarrow> s \<noteq> [] | _ \<Rightarrow> False)"

text \<open>The \<open>repr\<close> of a list of plain names.\<close>

definition repr_names :: "string list \<Rightarrow> str" where
  "repr_names names = [91] @ join_with (lit '', '') (map (\<lambda>n. [39] @ lit n @ [39]) names) @ [93]"

definition observation :: "json dict \<Rightarrow> json dict" where
  "observation machine =
     [(lit ''provider'', JStr (lit ''fly.io'')),
      (lit ''host_id'', fly_field machine ''id''),
      (lit ''region'', fly_field machine ''region''),
      (lit ''fault_domain'', fly_field machine ''fault_domain''),
      (lit ''release_digest'', fly_field machine ''ex4pm_release_digest''),
      (lit ''source_sha'', fly_field machine ''ex4pm_source_sha''),
      (lit ''cert_fingerprint'', fly_field machine ''cert_fingerprint''),
      (lit ''state'', fly_field machine ''state'')]"

text \<open>\<open>sha256_bytes(json.dumps(observation, sort_keys=True, separators=(",", ":")).encode())\<close>\<close>

definition fly_digest :: "json dict \<Rightarrow> str res" where
  "fly_digest obs = ebind (utf8_encode (dumps compact (JObj obs))) (\<lambda>bs. Inr (sha256_bytes bs))"

record fly_state =
  attestations :: "json dict list"
  errors :: "str list"

definition fly_error :: "str \<Rightarrow> fly_state \<Rightarrow> fly_state" where
  "fly_error message st = st\<lparr>errors := errors st @ [message]\<rparr>"

definition machine_label :: "nat \<Rightarrow> str" where
  "machine_label index = lit ''machine['' @ dec_nat index @ lit '']''"

text \<open>The body of the loop, with its two \<open>continue\<close>s.\<close>

definition observe_machine :: "str \<Rightarrow> fly_state \<Rightarrow> nat \<times> json \<Rightarrow> fly_state res" where
  "observe_machine source st item =
     (case item of (index, v) \<Rightarrow>
       (case the_obj v of
          None \<Rightarrow> Inr (fly_error (machine_label index @ lit '' is not an object'') st)
        | Some machine \<Rightarrow>
            (let missing = map fst (filter (\<lambda>p. \<not> is_text (snd p)) (required_metadata machine)) in
             if missing \<noteq> [] then
               Inr (fly_error (machine_label index
                      @ lit '' missing independently required metadata: '' @ repr_names missing) st)
             else if fly_field machine ''ex4pm_source_sha'' \<noteq> JStr source then
               Inr (fly_error (machine_label index @ lit '' source mismatch: ''
                      @ the (the_str (fly_field machine ''ex4pm_source_sha''))) st)
             else
               ebind (fly_digest (observation machine)) (\<lambda>digest.
               Inr (st\<lparr>attestations := attestations st
                      @ [observation machine @ [(lit ''observation_digest'', JStr digest)]]\<rparr>)))))"

section \<open>The run\<close>

definition fly_machines :: "json \<Rightarrow> json list option" where
  "fly_machines raw =
     (case raw of
        JObj d \<Rightarrow> the_arr (get_or d (lit ''machines'') raw)
      | _ \<Rightarrow> the_arr raw)"

definition values_of :: "string \<Rightarrow> json dict list \<Rightarrow> str list" where
  "values_of key atts = sorted_set (map (\<lambda>att. text_at att (lit key)) atts)"

definition require_count :: "nat \<Rightarrow> nat \<Rightarrow> str \<Rightarrow> fly_state \<Rightarrow> fly_state" where
  "require_count bound n message st =
     (if n < bound then fly_error (message @ dec_nat n) st else st)"

definition fly_counts :: "fly_state \<Rightarrow> fly_state" where
  "fly_counts st =
     (let n = (\<lambda>key. length (values_of key (attestations st))) in
      require_count 5 (n ''cert_fingerprint'') (lit ''requires host-specific certificate identities, observed '')
     (require_count 3 (n ''fault_domain'') (lit ''requires 3 independently attested failure domains, observed '')
     (require_count 2 (n ''region'') (lit ''requires 2 regions, observed '')
     (require_count 5 (n ''host_id'') (lit ''requires 5 unique hosts, observed '') st))))"

text \<open>The observation of the whole topology, before anything is written.\<close>

definition fly_observe :: "str \<Rightarrow> json \<Rightarrow> fly_state res" where
  "fly_observe source raw =
     ebind (of_option (SystemExit (lit ''machine evidence is not a list'')) (fly_machines raw)) (\<lambda>machines.
     ebind (efold (observe_machine source) \<lparr>attestations = [], errors = []\<rparr> (enumerate 0 machines)) (\<lambda>st.
     Inr (fly_counts st)))"

definition write_attestation :: "path \<Rightarrow> fs \<Rightarrow> json dict \<Rightarrow> fs res" where
  "write_attestation output fs att =
     ebind (write_text (dumps indented (JObj att) @ [10])) (\<lambda>bs.
     write_file fs (join_path output (text_at att (lit ''host_id'') @ lit ''.json'')) bs)"

definition fly_summary :: "str \<Rightarrow> fly_state \<Rightarrow> json" where
  "fly_summary source st =
     JObj [(lit ''standing'', JStr (if errors st = [] then lit ''ALIVE'' else lit ''PARTIAL_ALIVE'')),
           (lit ''source_sha'', JStr source),
           (lit ''hosts'', JArr (map JStr (values_of ''host_id'' (attestations st)))),
           (lit ''regions'', JArr (map JStr (values_of ''region'' (attestations st)))),
           (lit ''fault_domains'', JArr (map JStr (values_of ''fault_domain'' (attestations st)))),
           (lit ''certificate_identities'',
              JInt (int (length (values_of ''cert_fingerprint'' (attestations st))))),
           (lit ''errors'', JArr (map JStr (errors st)))]"

text \<open>\<open>main\<close>: the exit code, the standard output and the file system after the run.\<close>

definition fly_main :: "fs \<Rightarrow> path \<Rightarrow> str \<Rightarrow> str \<Rightarrow> str \<Rightarrow> (nat \<times> str \<times> fs) res" where
  "fly_main fs cwd machines_json source output_dir =
     ebind (ebind (read_path_text fs (join_path cwd machines_json)) loads) (\<lambda>raw.
     ebind (fly_observe source raw) (\<lambda>st.
     let output = join_path cwd output_dir in
     ebind (make_dirs fs output) (\<lambda>fs.
     ebind (efold (write_attestation output) fs (attestations st)) (\<lambda>fs.
     ebind (write_text (dumps indented (fly_summary source st) @ [10])) (\<lambda>bs.
     ebind (write_file fs (join_path output (lit ''topology-summary.json'')) bs) (\<lambda>fs.
     Inr (if errors st = [] then 0 else 1, dumps one_line (fly_summary source st) @ [10], fs)))))))"

end
