(* ===== verification/FlatDir.thy ===== *)
theory FlatDir
  imports PyFs
begin

text \<open>
  Directories that hold files only, as the programs that write one file per item
  of a list use them: each file ends up with its own contents, and nothing else
  changes.
\<close>

text \<open>An output directory in a tree of directories, holding files only.\<close>

definition flat_dir :: "fs \<Rightarrow> path \<Rightarrow> bool" where
  "flat_dir fs output \<longleftrightarrow> canonical fs output \<and> above fs output \<and> node_at fs output = Some Dir
     \<and> (\<forall>c. node_at fs (output @ [c]) = None \<or> (\<exists>bs. node_at fs (output @ [c]) = Some (File bs)))"

lemma good_json_name:
  assumes "good_name h"
  shows "good_name (h @ lit ''.json'')"
proof -
  have "h @ lit ''.json'' \<noteq> lit c" if "length c < 5" for c
  proof
    assume "h @ lit ''.json'' = lit c"
    then have "length (h @ lit ''.json'') = length c" by (simp only: length_lit)
    with that show False by simp
  qed
  then show ?thesis using assms by (auto simp: good_name_def plain_name_def) (simp_all add: lit_def)
qed

lemma flat_write:
  assumes "flat_dir fs output" "good_name c"
  shows "write_file fs (output @ [c]) bs = Inr (put_file (output @ [c]) bs fs)"
    and "write_file fs (join_path output c) bs = Inr (put_file (output @ [c]) bs fs)"
    and "flat_dir (put_file (output @ [c]) bs fs) output"
    and "link_target (put_file (output @ [c]) bs fs) = link_target fs"
proof -
  let ?p = "output @ [c]"
  have node: "node_at fs ?p = None \<or> (\<exists>old. node_at fs ?p = Some (File old))"
    using assms(1) by (simp add: flat_dir_def)
  have stays: "node_at (put_file ?p bs fs) (take n output) = node_at fs (take n output)" for n
  proof -
    have "length (take n output) \<noteq> length ?p" by simp
    then have "take n output \<noteq> ?p" by metis
    then show ?thesis by (simp add: node_at_put_file)
  qed
  have link: "link_target fs ?p = None" using node by (intro link_target_node_at) simp_all
  have can: "canonical fs ?p"
    using assms link by (intro canonical_snoc) (simp_all add: flat_dir_def good_name_def)
  show w: "write_file fs ?p bs = Inr (put_file ?p bs fs)"
    using can node assms(1) by (intro write_file_plain) (simp_all add: flat_dir_def)
  then show "write_file fs (join_path output c) bs = Inr (put_file ?p bs fs)"
    by (simp only: join_good_name [OF assms(2)])
  show "flat_dir (put_file ?p bs fs) output"
    using assms(1) canonical_put_file [OF link] stays stays [of "length output"]
    by (auto simp: flat_dir_def above_def node_at_put_file)
  show "link_target (put_file ?p bs fs) = link_target fs" by (rule link_target_put_file [OF link])
qed

text \<open>
  A loop that writes one file for each item. What an item's step does is asked for
  only in file systems the loop passes through.
\<close>

definition written_over :: "fs \<Rightarrow> path \<Rightarrow> fs \<Rightarrow> bool" where
  "written_over fs output s \<longleftrightarrow> flat_dir s output \<and> link_target s = link_target fs
     \<and> (\<forall>p. (\<forall>c. p \<noteq> output @ [c]) \<longrightarrow> node_at s p = node_at fs p)"

lemma written_over_refl: "flat_dir fs output \<Longrightarrow> written_over fs output fs"
  by (simp add: written_over_def)

lemma written_over_put:
  "written_over fs output s \<Longrightarrow> good_name c \<Longrightarrow> written_over fs output (put_file (output @ [c]) bs s)"
  using flat_write(3,4) by (simp add: written_over_def node_at_put_file)

lemma flat_files:
  assumes "written_over fs0 output fs" "distinct (map name xs)" "\<forall>x\<in>set xs. good_name (name x)"
    and "\<And>s x. x \<in> set xs \<Longrightarrow> written_over fs0 output s \<Longrightarrow>
      f s x = Inr (put_file (output @ [name x]) (data x) s)"
  shows "\<exists>fs'. efold f fs xs = Inr fs' \<and> written_over fs0 output fs'
    \<and> (\<forall>p. p \<notin> (\<lambda>x. output @ [name x]) ` set xs \<longrightarrow> node_at fs' p = node_at fs p)
    \<and> (\<forall>x\<in>set xs. node_at fs' (output @ [name x]) = Some (File (data x)))"
  using assms
proof (induction xs arbitrary: fs)
  case Nil
  then show ?case by simp
next
  case (Cons x xs)
  let ?p = "output @ [name x]"
  let ?fs1 = "put_file ?p (data x) fs"
  have "written_over fs0 output ?fs1" using Cons.prems(1,3) by (intro written_over_put) simp_all
  from Cons.IH [OF this] Cons.prems(2-4) obtain fs' where
    fs': "efold f ?fs1 xs = Inr fs'" "written_over fs0 output fs'"
    and same: "\<And>p. p \<notin> (\<lambda>x. output @ [name x]) ` set xs \<Longrightarrow> node_at fs' p = node_at ?fs1 p"
    and own: "\<forall>x\<in>set xs. node_at fs' (output @ [name x]) = Some (File (data x))"
    by auto
  have "f fs x = Inr ?fs1" using Cons.prems(1,4) by simp
  moreover have "node_at fs' ?p = Some (File (data x))"
    using same [of ?p] Cons.prems(2) by (auto simp: node_at_put_file)
  moreover have "node_at fs' p = node_at fs p" if "p \<notin> (\<lambda>x. output @ [name x]) ` set (x # xs)" for p
    using that same [of p] by (auto simp: node_at_put_file)
  ultimately show ?case using fs' own by auto
qed

end
