(* ===== verification/FlyProps.thy ===== *)
theory FlyProps
  imports FlyTopology CrownExample FlatDir
begin

text \<open>
  The properties of the topology qualification: which machines it accepts, that
  the observation digests can be checked from the files, that the files stay in
  the output directory for plain host names, and that an ALIVE topology is one
  the topology court of the crown verifier accepts.
\<close>

section \<open>Observations\<close>

definition qualifies :: "str \<Rightarrow> json dict \<Rightarrow> bool" where
  "qualifies source machine \<longleftrightarrow>
     list_all (\<lambda>p. is_text (snd p)) (required_metadata machine)
     \<and> fly_field machine ''ex4pm_source_sha'' = JStr source"

definition attestation_of :: "json dict \<Rightarrow> json dict" where
  "attestation_of machine =
     observation machine @ [(lit ''observation_digest'',
       JStr (sha256_bytes (case utf8_encode (dumps compact (JObj (observation machine))) of
          Inl _ \<Rightarrow> [] | Inr bs \<Rightarrow> bs)))]"

lemma fly_digest_total:
  "\<exists>bs. utf8_encode (dumps compact (JObj obs)) = Inr bs \<and> fly_digest obs = Inr (sha256_bytes bs)"
proof -
  have "list_all clean (dumps compact (JObj obs))"
    unfolding dumps_def by (rule dump_ascii(1)) (simp, simp add: compact_def)
  then obtain bs where "utf8_encode (dumps compact (JObj obs)) = Inr bs" by (rule write_clean)
  then show ?thesis by (simp add: fly_digest_def)
qed

lemma is_text_iff: "is_text v \<longleftrightarrow> (\<exists>s. v = JStr s \<and> s \<noteq> [])"
  by (auto simp: is_text_def split: json.splits)

lemma missing_iff:
  "map fst (filter (\<lambda>p. \<not> is_text (snd p)) (required_metadata machine)) = []
     \<longleftrightarrow> list_all (\<lambda>p. is_text (snd p)) (required_metadata machine)"
  by (simp add: filter_empty_conv list_all_iff)

text \<open>A machine either adds its attestation or an error.\<close>

lemma observe_machine_cases:
  obtains (attested) machine where "v = JObj machine" "qualifies source machine"
      "observe_machine source st (i, v) = Inr (st\<lparr>attestations := attestations st @ [attestation_of machine]\<rparr>)"
  | (refused) message where "\<not> (\<exists>machine. v = JObj machine \<and> qualifies source machine)"
      "observe_machine source st (i, v) = Inr (fly_error message st)"
proof (cases "the_obj v")
  case None
  then have "\<And>m. v \<noteq> JObj m" by (metis option.distinct(1) the_obj_Some)
  with None show thesis using refused by (simp add: observe_machine_def)
next
  case (Some machine)
  then have v: "v = JObj machine" by simp
  show thesis
  proof (cases "qualifies source machine")
    case True
    obtain bs where bs: "utf8_encode (dumps compact (JObj (observation machine))) = Inr bs"
      "fly_digest (observation machine) = Inr (sha256_bytes bs)" using fly_digest_total by blast
    from True missing_iff [of machine] have ok: "filter (\<lambda>p. \<not> is_text (snd p)) (required_metadata machine) = []"
      "fly_field machine ''ex4pm_source_sha'' = JStr source" by (simp_all add: qualifies_def)
    have att: "attestation_of machine
        = observation machine @ [(lit ''observation_digest'', JStr (sha256_bytes bs))]"
      by (simp only: attestation_of_def bs(1) sum.case)
    have "observe_machine source st (i, v) = Inr (st\<lparr>attestations := attestations st
        @ [observation machine @ [(lit ''observation_digest'', JStr (sha256_bytes bs))]]\<rparr>)"
      by (simp add: observe_machine_def v ok bs(2))
    then show thesis by (intro attested [OF v True]) (simp only: att)
  next
    case False
    then have "\<exists>message. observe_machine source st (i, v) = Inr (fly_error message st)"
      using missing_iff [of machine] by (auto simp: observe_machine_def v qualifies_def Let_def)
    with v False show thesis using refused by blast
  qed
qed

lemma observe_machine_total: "\<exists>st'. observe_machine source st item = Inr st'"
  by (cases item) (metis observe_machine_cases)

definition machine_ok :: "str \<Rightarrow> json \<Rightarrow> bool" where
  "machine_ok source v \<longleftrightarrow> (\<exists>machine. v = JObj machine \<and> qualifies source machine)"

text \<open>The loop: an error for each machine that does not qualify, an attestation for each that does.\<close>

lemma observe_machines:
  assumes "efold (observe_machine source) st (enumerate n vs) = Inr st'"
  shows "attestations st' = attestations st @ map (attestation_of \<circ> the \<circ> the_obj) (filter (machine_ok source) vs)"
    and "length (errors st') = length (errors st) + length (filter (\<lambda>v. \<not> machine_ok source v) vs)"
proof -
  have "attestations st' = attestations st @ map (attestation_of \<circ> the \<circ> the_obj) (filter (machine_ok source) vs)
      \<and> length (errors st') = length (errors st) + length (filter (\<lambda>v. \<not> machine_ok source v) vs)"
    using assms
  proof (induction vs arbitrary: st n)
    case (Cons v vs)
    show ?case
    proof (cases rule: observe_machine_cases [of v source st n])
      case (attested machine)
      from attested(3) Cons.prems have
        "efold (observe_machine source) (st\<lparr>attestations := attestations st @ [attestation_of machine]\<rparr>)
          (enumerate (Suc n) vs) = Inr st'" by simp
      from Cons.IH [OF this] attested(1,2) show ?thesis by (simp add: machine_ok_def)
    next
      case (refused message)
      from refused(2) Cons.prems have
        "efold (observe_machine source) (fly_error message st) (enumerate (Suc n) vs) = Inr st'" by simp
      from Cons.IH [OF this] refused(1) show ?thesis by (simp add: machine_ok_def fly_error_def)
    qed
  qed simp
  then show "attestations st' = attestations st @ map (attestation_of \<circ> the \<circ> the_obj) (filter (machine_ok source) vs)"
    "length (errors st') = length (errors st) + length (filter (\<lambda>v. \<not> machine_ok source v) vs)" by simp_all
qed

lemma observe_machines_total: "\<exists>st'. efold (observe_machine source) st items = Inr st'"
proof (induction items arbitrary: st)
  case (Cons item items)
  obtain st1 where "observe_machine source st item = Inr st1" using observe_machine_total by blast
  with Cons show ?case by simp
qed simp

lemma fly_counts_attestations [simp]: "attestations (fly_counts st) = attestations st"
  by (simp add: fly_counts_def Let_def require_count_def fly_error_def)

lemma fly_counts_errors:
  "errors (fly_counts st) = [] \<longleftrightarrow> errors st = []
     \<and> 5 \<le> length (values_of ''host_id'' (attestations st))
     \<and> 2 \<le> length (values_of ''region'' (attestations st))
     \<and> 3 \<le> length (values_of ''fault_domain'' (attestations st))
     \<and> 5 \<le> length (values_of ''cert_fingerprint'' (attestations st))"
  by (auto simp: fly_counts_def Let_def require_count_def fly_error_def not_less)

lemma length_values_of: "length (values_of key atts) = card ((\<lambda>a. text_at a (lit key)) ` set atts)"
  by (simp add: values_of_def sorted_set_def length_remdups_card_conv)

text \<open>The fields of an attestation.\<close>

lemma attestation_fields:
  assumes "qualifies source machine"
  shows "\<forall>k\<in>set attestation_keys. text_at (attestation_of machine) k \<noteq> []"
    and "fld (attestation_of machine) ''source_sha'' = Some (JStr source)"
  using assms
  by (auto simp: qualifies_def required_metadata_def attestation_keys_def attestation_of_def
      observation_def text_at_def is_text_iff)

definition topology_qualifies :: "str \<Rightarrow> json list \<Rightarrow> bool" where
  "topology_qualifies source vs \<longleftrightarrow> list_all (machine_ok source) vs
     \<and> (let atts = map (attestation_of \<circ> the \<circ> the_obj) vs; n = (\<lambda>key. card ((\<lambda>a. text_at a (lit key)) ` set atts)) in
        5 \<le> n ''host_id'' \<and> 2 \<le> n ''region'' \<and> 3 \<le> n ''fault_domain'' \<and> 5 \<le> n ''cert_fingerprint'')"

lemma fly_observe_alive:
  "fly_observe source raw = Inr st \<and> errors st = [] \<longleftrightarrow>
     (\<exists>vs. fly_machines raw = Some vs \<and> topology_qualifies source vs
        \<and> st = \<lparr>attestations = map (attestation_of \<circ> the \<circ> the_obj) vs, errors = []\<rparr>)"
proof (cases "fly_machines raw")
  case None
  then show ?thesis by (simp add: fly_observe_def)
next
  case (Some vs)
  obtain st0 where st0: "efold (observe_machine source) \<lparr>attestations = [], errors = []\<rparr> (enumerate 0 vs) = Inr st0"
    using observe_machines_total by blast
  note loop = observe_machines [OF st0]
  have run: "fly_observe source raw = Inr st \<longleftrightarrow> st = fly_counts st0"
    using Some st0 by (auto simp: fly_observe_def)
  have none: "errors st0 = [] \<longleftrightarrow> list_all (machine_ok source) vs"
  proof -
    have "errors st0 = [] \<longleftrightarrow> filter (\<lambda>v. \<not> machine_ok source v) vs = []"
      using loop(2) by (cases "filter (\<lambda>v. \<not> machine_ok source v) vs"; cases "errors st0") simp_all
    then show ?thesis by (simp add: filter_empty_conv list_all_iff)
  qed
  have atts: "attestations st0 = map (attestation_of \<circ> the \<circ> the_obj) vs" if "list_all (machine_ok source) vs"
  proof -
    from that have "filter (machine_ok source) vs = vs" by (simp add: list_all_iff)
    with loop(1) show ?thesis by simp
  qed
  have alive: "errors (fly_counts st0) = [] \<longleftrightarrow> topology_qualifies source vs"
  proof (cases "list_all (machine_ok source) vs")
    case True
    then show ?thesis
      unfolding fly_counts_errors none length_values_of atts [OF True] topology_qualifies_def Let_def by simp
  next
    case False
    then show ?thesis by (simp add: fly_counts_errors none topology_qualifies_def)
  qed
  moreover have "fly_counts st0 = \<lparr>attestations = map (attestation_of \<circ> the \<circ> the_obj) vs, errors = []\<rparr>"
    if "topology_qualifies source vs"
    using that atts alive by (cases "fly_counts st0") (metis fly_counts_attestations
      fly_state.ext_inject fly_state.surjective topology_qualifies_def old.unit.exhaust)
  ultimately show ?thesis using run Some by auto
qed

section \<open>Properties\<close>

text \<open>C16: a topology is ALIVE exactly when the evidence is a list of machines, every one of
  them carries the required metadata for the source revision asked for, and they
  show five hosts, two regions, three failure domains and five certificates; the
  attestations are then those of the machines, in order.\<close>

theorem fly_alive_iff:
  "fly_observe source raw = Inr st \<and> errors st = [] \<longleftrightarrow>
     (\<exists>vs. fly_machines raw = Some vs \<and> topology_qualifies source vs
        \<and> st = \<lparr>attestations = map (attestation_of \<circ> the \<circ> the_obj) vs, errors = []\<rparr>)"
  by (rule fly_observe_alive)

lemma sort_json_idem_members: "map (map_prod id sort_json \<circ> map_prod id sort_json) ps = map (map_prod id sort_json) ps"
  by (induction ps) auto

lemma sorted_text_at:
  assumes "distinct (map fst att)" "JObj d = sort_json (JObj att)"
  shows "text_at d k = text_at att k"
  using sort_json_fld [OF assms, of k]
  by (cases "map_of att k") (auto simp: text_at_def split: json.splits)

lemma attestation_distinct: "distinct (map fst (attestation_of machine))"
  by (simp add: attestation_of_def observation_def)

text \<open>C17: the qualification and the release crown agree: when the topology is ALIVE and the
  crown's manifests attest the files it wrote (each document with its keys sorted,
  as the file holds it), the topology court of the crown verifier accepts them.\<close>

theorem fly_feeds_crown:
  assumes alive: "fly_observe source raw = Inr st" "errors st = []"
    and crown: "fld crown ''global'' = Some (JObj g)"
      "\<forall>f\<in>set global_fields. map_of g f = Some (JBool True)"
      "fld g ''attestations'' = Some (JArr manifests)"
    and files: "list_all2 (\<lambda>manifest att. \<exists>m d. manifest = JObj m \<and> attests_json fs root m d
        \<and> JObj d = sort_json (JObj att)) manifests (attestations st)"
  shows "\<exists>t. verify_global fs root crown source = Inr t"
proof -
  from alive fly_observe_alive [of source raw st] obtain vs where vs: "topology_qualifies source vs"
    "attestations st = map (attestation_of \<circ> the \<circ> the_obj) vs" by auto
  let ?atts = "attestations st"
  have good: "distinct (map fst att) \<and> (\<forall>k\<in>set attestation_keys. text_at att k \<noteq> [])
      \<and> fld att ''source_sha'' = Some (JStr source)" if "att \<in> set ?atts" for att
  proof -
    from that vs obtain machine where "att = attestation_of machine" "qualifies source machine"
      by (auto simp: topology_qualifies_def list_all_iff machine_ok_def)
    then show ?thesis using attestation_fields attestation_distinct by simp
  qed
  define docs where "docs = map (\<lambda>att. the (the_obj (sort_json (JObj att)))) ?atts"
  have doc: "text_at (the (the_obj (sort_json (JObj att)))) k = text_at att k" if "att \<in> set ?atts" for att k
    using good [OF that] by (intro sorted_text_at) simp_all
  have proved: "list_all2 (attestation_proved fs root source) manifests docs"
    unfolding docs_def list_all2_map2 using files
  proof (rule list.rel_mono_strong)
    fix manifest att
    assume "att \<in> set ?atts"
      and "\<exists>m d. manifest = JObj m \<and> attests_json fs root m d \<and> JObj d = sort_json (JObj att)"
    then obtain m d where m: "manifest = JObj m" "attests_json fs root m d" "JObj d = sort_json (JObj att)"
      by blast
    then have d: "the (the_obj (sort_json (JObj att))) = d" by (metis option.sel the_obj.simps(1))
    note g = good [OF \<open>att \<in> set ?atts\<close>]
    then have "text_at d k = text_at att k" "fld d ''source_sha'' = Some (JStr source)" for k
      using sorted_text_at [OF _ m(3)] sort_json_fld [OF _ m(3)] by simp_all
    with g m(1,2) show "attestation_proved fs root source manifest (the (the_obj (sort_json (JObj att))))"
      unfolding d attestation_proved_def by simp
  qed
  have img: "(\<lambda>a. text_at a (lit k)) ` set docs = (\<lambda>a. text_at a (lit k)) ` set ?atts" for k
    unfolding docs_def set_map image_image using doc by (intro image_cong) simp_all
  have n: "5 \<le> card ((\<lambda>a. text_at a (lit ''host_id'')) ` set ?atts)"
    "2 \<le> card ((\<lambda>a. text_at a (lit ''region'')) ` set ?atts)"
    "3 \<le> card ((\<lambda>a. text_at a (lit ''fault_domain'')) ` set ?atts)"
    "5 \<le> card ((\<lambda>a. text_at a (lit ''cert_fingerprint'')) ` set ?atts)"
    using vs by (simp_all add: topology_qualifies_def Let_def)
  have "5 \<le> length manifests"
  proof -
    have "card ((\<lambda>a. text_at a (lit ''host_id'')) ` set ?atts) \<le> card (set ?atts)"
      by (rule card_image_le) simp
    also have "\<dots> \<le> length ?atts" by (rule card_length)
    finally show ?thesis using n(1) list_all2_lengthD [OF files] by linarith
  qed
  with crown proved n have "topology_evidenced fs root crown source (fold add_attestation docs empty_topology)"
    unfolding topology_evidenced_def
    by (intro exI [of _ g] exI [of _ manifests] exI [of _ docs]) (simp add: img)
  then show ?thesis unfolding topology_court by blast
qed

text \<open>C18: an observation digest can be checked from its file: the document without the
  digest, dumped compactly with its keys sorted, has the SHA-256 the document states.\<close>

theorem fly_digest_checkable:
  assumes "fly_observe source raw = Inr st" "errors st = []" "att \<in> set (attestations st)"
    and "JObj d = sort_json (JObj att)"
  shows "\<exists>bs. utf8_encode (dumps compact (JObj (AList.delete (lit ''observation_digest'') d))) = Inr bs
    \<and> fld d ''observation_digest'' = Some (JStr (sha256_bytes bs))"
proof -
  from assms(1-3) fly_observe_alive [of source raw st] obtain machine where att: "att = attestation_of machine"
    by auto
  obtain bs where bs: "utf8_encode (dumps compact (JObj (observation machine))) = Inr bs"
    using fly_digest_total by blast
  have a: "att = observation machine @ [(lit ''observation_digest'', JStr (sha256_bytes bs))]"
    by (simp only: att attestation_of_def bs sum.case)
  have dist: "distinct (map fst att)" unfolding att by (rule attestation_distinct)
  from sort_json_fld [OF dist assms(4)] have
    "fld d ''observation_digest'' = Some (JStr (sha256_bytes bs))"
    by (simp add: a observation_def)
  moreover have "sort_json (JObj (AList.delete (lit ''observation_digest'') d)) = sort_json (JObj (observation machine))"
  proof -
    let ?k = "lit ''observation_digest''"
    have d: "d = sort_key fst (map (map_prod id sort_json) att)" using assms(4) by simp
    have "mset (AList.delete ?k d) = mset (map (map_prod id sort_json) (observation machine))"
    proof -
      have "mset (AList.delete ?k d) = mset (filter (\<lambda>(k', _). ?k \<noteq> k') (map (map_prod id sort_json) att))"
        by (simp only: AList.delete_eq d mset_filter mset_sort)
      also have "filter (\<lambda>(k', _). ?k \<noteq> k') (map (map_prod id sort_json) att)
          = map (map_prod id sort_json) (observation machine)"
        by (simp add: a observation_def)
      finally show ?thesis .
    qed
    moreover have "distinct (map fst (AList.delete ?k d))"
      unfolding d using dist by (intro distinct_delete) (simp only: distinct_map_sort_key map_fst_map_prod_id)
    ultimately have "sort_json (JObj (AList.delete ?k d))
        = sort_json (JObj (map (map_prod id sort_json) (observation machine)))"
      by (intro sort_json_obj_cong)
    also have "\<dots> = sort_json (JObj (observation machine))"
      by (simp only: sort_json.simps map_map sort_json_idem_members)
    finally show ?thesis .
  qed
  then have "dumps compact (JObj (AList.delete (lit ''observation_digest'') d)) = dumps compact (JObj (observation machine))"
    by (simp only: dumps_def)
  ultimately show ?thesis using bs by auto
qed

section \<open>Where the files go\<close>

definition attestation_path :: "path \<Rightarrow> json dict \<Rightarrow> path" where
  "attestation_path output att = output @ [text_at att (lit ''host_id'') @ lit ''.json'']"

text \<open>The attestations of distinct hosts: each file has its own.\<close>

lemma attestations_written:
  assumes "flat_dir fs output" "\<forall>att\<in>set atts. good_name (text_at att (lit ''host_id''))"
    and "distinct (map (\<lambda>att. text_at att (lit ''host_id'')) atts)"
  shows "\<exists>fs'. efold (write_attestation output) fs atts = Inr fs' \<and> flat_dir fs' output
    \<and> (\<forall>p. p \<notin> attestation_path output ` set atts \<longrightarrow> node_at fs' p = node_at fs p)
    \<and> (\<forall>att\<in>set atts. \<exists>bs. write_text (dumps indented (JObj att) @ [10]) = Inr bs
          \<and> node_at fs' (attestation_path output att) = Some (File bs))"
proof -
  define name where "name att = text_at att (lit ''host_id'') @ lit ''.json''" for att
  define contents where "contents att = projr (write_text (dumps indented (JObj att) @ [10]))" for att
  have bs: "write_text (dumps indented (JObj att) @ [10]) = Inr (contents att)" for att
    by (rule dumps_ascii_writes [OF layouts_clean(3), of "JObj att"]) (simp_all add: indented_def contents_def)
  have good: "\<forall>att\<in>set atts. good_name (name att)" using assms(2) by (simp add: name_def good_json_name)
  have step: "write_attestation output s att = Inr (put_file (output @ [name att]) (contents att) s)"
    if "att \<in> set atts" "written_over fs output s" for s att
    using that good flat_write(2) by (simp add: write_attestation_def bs name_def written_over_def)
  have "distinct (map name atts)" using assms(3) by (simp add: name_def distinct_map inj_on_def)
  from flat_files [where name = name and data = contents, OF written_over_refl [OF assms(1)] this good step]
  show ?thesis by (auto simp: written_over_def attestation_path_def name_def bs)
qed

lemma summary_name: "good_name (lit ''topology-summary.json'')"
  by (simp add: good_name_def plain_name_def) (simp add: lit_def)

lemma summary_not_attestation:
  assumes "text_at att (lit ''host_id'') \<noteq> lit ''topology-summary''"
  shows "output @ [lit ''topology-summary.json''] \<noteq> attestation_path output att"
proof -
  have "lit ''topology-summary.json'' = lit ''topology-summary'' @ lit ''.json''" by (simp add: lit_def)
  with assms show ?thesis by (simp add: attestation_path_def)
qed

text \<open>C19: for plain host names, none of them the name of the summary, a run that reads its
  machines ends without an exception: it exits 0 exactly without errors, prints the
  summary, writes the summary and, with distinct hosts, each attestation to its own
  file of the output directory, and changes nothing else but to make that directory.\<close>

theorem fly_files_contained:
  assumes "ebind (read_path_text fs (join_path cwd machines_json)) loads = Inr raw"
    and "fly_observe source raw = Inr st"
    and "make_dirs fs (join_path cwd output_dir) = Inr fs1" "flat_dir fs1 (join_path cwd output_dir)"
    and "\<forall>att\<in>set (attestations st). good_name (text_at att (lit ''host_id''))
      \<and> text_at att (lit ''host_id'') \<noteq> lit ''topology-summary''"
    and "distinct (map (\<lambda>att. text_at att (lit ''host_id'')) (attestations st))"
    and "output = join_path cwd output_dir"
  shows "\<exists>fs' ws. fly_main fs cwd machines_json source output_dir
        = Inr (if errors st = [] then 0 else 1, dumps one_line (fly_summary source st) @ [10], fs')
    \<and> write_text (dumps indented (fly_summary source st) @ [10]) = Inr ws
    \<and> node_at fs' (output @ [lit ''topology-summary.json'']) = Some (File ws)
    \<and> (\<forall>att\<in>set (attestations st). \<exists>bs. write_text (dumps indented (JObj att) @ [10]) = Inr bs
          \<and> node_at fs' (attestation_path output att) = Some (File bs))
    \<and> (\<forall>p. p \<noteq> output @ [lit ''topology-summary.json''] \<and> p \<notin> attestation_path output ` set (attestations st)
          \<longrightarrow> node_at fs' p = node_at fs p \<or> node_at fs p = None \<and> node_at fs' p = Some Dir)"
proof -
  let ?s = "output @ [lit ''topology-summary.json'']"
  from attestations_written [of fs1 "output" "attestations st"] assms(4-6) obtain fs2 where
    fs2: "efold (write_attestation output) fs1 (attestations st) = Inr fs2" "flat_dir fs2 output"
    and same: "\<And>p. p \<notin> attestation_path output ` set (attestations st) \<Longrightarrow> node_at fs2 p = node_at fs1 p"
    and own: "\<And>att. att \<in> set (attestations st) \<Longrightarrow>
        \<exists>bs. write_text (dumps indented (JObj att) @ [10]) = Inr bs
          \<and> node_at fs2 (attestation_path output att) = Some (File bs)"
    unfolding assms(7) by blast
  obtain ws where ws: "write_text (dumps indented (fly_summary source st) @ [10]) = Inr ws"
    by (rule dumps_ascii_writes [OF layouts_clean(3)]) (simp add: indented_def)
  let ?fs = "put_file ?s ws fs2"
  have node: "node_at ?fs p = (if p = ?s then Some (File ws) else node_at fs2 p)" for p
    by (simp add: node_at_put_file)
  have "fly_main fs cwd machines_json source output_dir
      = Inr (if errors st = [] then 0 else 1, dumps one_line (fly_summary source st) @ [10], ?fs)"
    using assms(1-3) fs2 ws flat_write(2) [OF fs2(2) summary_name]
    by (simp add: fly_main_def assms(7) Let_def)
  moreover have "\<exists>bs. write_text (dumps indented (JObj att) @ [10]) = Inr bs
      \<and> node_at ?fs (attestation_path output att) = Some (File bs)" if "att \<in> set (attestations st)" for att
    using own [OF that] summary_not_attestation [of att "output"] assms(5) that by (auto simp: node)
  moreover have "node_at ?fs p = node_at fs p \<or> node_at fs p = None \<and> node_at ?fs p = Some Dir"
    if "p \<noteq> ?s \<and> p \<notin> attestation_path output ` set (attestations st)" for p
    using that same [of p] make_dirs_extends [OF assms(3)] by (simp add: node extends_def)
  ultimately show ?thesis using ws node by (intro exI [of _ ?fs] exI [of _ ws]) simp
qed

text \<open>
  A host name with a dot component, which the qualification accepts like any
  other text, takes the write out of the output directory.
\<close>

theorem fly_attestation_escapes:
  "write_attestation [lit ''out''] [([lit ''out''], Dir)] [(lit ''host_id'', JStr (lit ''../x''))]
     = Inr (put_file [lit ''x.json''] bs [([lit ''out''], Dir)])
   \<longleftrightarrow> write_text (dumps indented (JObj [(lit ''host_id'', JStr (lit ''../x''))]) @ [10]) = Inr bs"
proof -
  let ?fs = "[([lit ''out''], Dir)]" and ?att = "[(lit ''host_id'', JStr (lit ''../x''))]"
  obtain ws where ws: "write_text (dumps indented (JObj ?att) @ [10]) = Inr ws"
    by (rule dumps_ascii_writes [OF layouts_clean(3)]) (simp add: indented_def)
  have "join_path [lit ''out''] (lit ''../x'' @ lit ''.json'') = [lit ''out'', lit ''..'', lit ''x.json'']"
    by (simp add: join_path_def is_absolute_def path_parts_def split_on_def lit_def)
  moreover have "locate ?fs [lit ''out'', lit ''..'', lit ''x.json''] = Inr [lit ''x.json'']"
    by (simp add: locate_def link_target_def node_at_def)
  ultimately have "write_attestation [lit ''out''] ?fs ?att = Inr (put_file [lit ''x.json''] ws ?fs)"
    using ws by (simp add: write_attestation_def text_at_def write_file_def node_at_def)
  with ws show ?thesis by (auto simp: put_file_def)
qed

section \<open>An ALIVE topology\<close>

lemma sorted_object:
  assumes "sorted (map fst d)" "list_all (\<lambda>(k, v). sort_json v = v) d"
  shows "sort_json (JObj d) = JObj d"
proof -
  have "map (map_prod id sort_json) d = d"
    using assms(2) by (auto simp: list_all_iff intro!: map_idI)
  with assms(1) show ?thesis by (simp only: sort_json.simps sort_key_id_if_sorted)
qed

definition ex_machine :: "string \<Rightarrow> string \<Rightarrow> string \<Rightarrow> json dict" where
  "ex_machine host region domain =
     [(lit ''config'', JObj [(lit ''metadata'', JObj
         [(lit ''ex4pm_release_digest'', JStr (lit ''d'')), (lit ''ex4pm_source_sha'', JStr ex_source),
          (lit ''fault_domain'', JStr (lit domain))])]),
      (lit ''id'', JStr (lit host)),
      (lit ''metadata'', JObj [(lit ''cert_fingerprint'', JStr (lit host))]),
      (lit ''region'', JStr (lit region))]"

definition ex_machines :: "json dict list" where
  "ex_machines =
     [ex_machine ''h1'' ''iad'' ''x'', ex_machine ''h2'' ''iad'' ''y'', ex_machine ''h3'' ''fra'' ''z'',
      ex_machine ''h4'' ''fra'' ''x'', ex_machine ''h5'' ''iad'' ''x'']"

definition ex_fly_raw :: json where
  "ex_fly_raw = JObj [(lit ''machines'', JArr (map JObj ex_machines))]"

definition ex_fly_state :: fly_state where
  "ex_fly_state = \<lparr>attestations = map attestation_of ex_machines, errors = []\<rparr>"

lemma ex_machine_fields:
  "fly_field (ex_machine h r d) ''id'' = JStr (lit h)"
  "fly_field (ex_machine h r d) ''region'' = JStr (lit r)"
  "fly_field (ex_machine h r d) ''fault_domain'' = JStr (lit d)"
  "fly_field (ex_machine h r d) ''ex4pm_release_digest'' = JStr (lit ''d'')"
  "fly_field (ex_machine h r d) ''ex4pm_source_sha'' = JStr ex_source"
  "fly_field (ex_machine h r d) ''cert_fingerprint'' = JStr (lit h)"
  "fly_field (ex_machine h r d) ''state'' = JNull"
  by (simp_all add: fly_field_def ex_machine_def sub_object_def obj_field_def get_or_def Let_def)

lemma ex_source_nonempty [simp]: "ex_source \<noteq> []"
  by (simp add: ex_source_def)

lemma ex_machine_qualifies:
  "h \<noteq> [] \<Longrightarrow> r \<noteq> [] \<Longrightarrow> d \<noteq> [] \<Longrightarrow> qualifies ex_source (ex_machine h r d)"
  by (simp add: qualifies_def required_metadata_def ex_machine_fields is_text_def)

lemma ex_attestation_texts:
  "text_at (attestation_of (ex_machine h r d)) (lit ''host_id'') = lit h"
  "text_at (attestation_of (ex_machine h r d)) (lit ''region'') = lit r"
  "text_at (attestation_of (ex_machine h r d)) (lit ''fault_domain'') = lit d"
  "text_at (attestation_of (ex_machine h r d)) (lit ''cert_fingerprint'') = lit h"
  by (simp_all add: text_at_def attestation_of_def observation_def ex_machine_fields)

lemma ex_topology_qualifies: "topology_qualifies ex_source (map JObj ex_machines)"
proof -
  have "list_all (machine_ok ex_source) (map JObj ex_machines)"
    by (simp add: ex_machines_def machine_ok_def ex_machine_qualifies)
  moreover have "(\<lambda>a. text_at a (lit ''host_id'')) ` set (map attestation_of ex_machines)
        = lit ` {''h1'', ''h2'', ''h3'', ''h4'', ''h5''}"
    "(\<lambda>a. text_at a (lit ''region'')) ` set (map attestation_of ex_machines) = lit ` {''iad'', ''fra''}"
    "(\<lambda>a. text_at a (lit ''fault_domain'')) ` set (map attestation_of ex_machines) = lit ` {''x'', ''y'', ''z''}"
    "(\<lambda>a. text_at a (lit ''cert_fingerprint'')) ` set (map attestation_of ex_machines)
        = lit ` {''h1'', ''h2'', ''h3'', ''h4'', ''h5''}"
    by (auto simp: ex_machines_def ex_attestation_texts)
  moreover have "attestation_of \<circ> the \<circ> the_obj \<circ> JObj = attestation_of" by (simp add: fun_eq_iff)
  then have "map (attestation_of \<circ> the \<circ> the_obj) (map JObj ex_machines) = map attestation_of ex_machines"
    by (simp only: map_map)
  ultimately show ?thesis
    unfolding topology_qualifies_def Let_def by (simp only:) (simp add: card_image)
qed

lemma ex_fly_observed: "fly_observe ex_source ex_fly_raw = Inr ex_fly_state" "errors ex_fly_state = []"
proof -
  have "fly_machines ex_fly_raw = Some (map JObj ex_machines)"
    by (simp add: fly_machines_def ex_fly_raw_def get_or_def)
  moreover have "map (attestation_of \<circ> the \<circ> the_obj) (map JObj ex_machines) = map attestation_of ex_machines"
    by simp
  ultimately have "fly_observe ex_source ex_fly_raw = Inr ex_fly_state \<and> errors ex_fly_state = []"
    unfolding fly_observe_alive ex_fly_state_def using ex_topology_qualifies by metis
  then show "fly_observe ex_source ex_fly_raw = Inr ex_fly_state" "errors ex_fly_state = []" by simp_all
qed

text \<open>The documents as the files hold them.\<close>

definition ex_fly_doc :: "string \<Rightarrow> string \<Rightarrow> string \<Rightarrow> json dict" where
  "ex_fly_doc h r d =
     [(lit ''cert_fingerprint'', JStr (lit h)), (lit ''fault_domain'', JStr (lit d)),
      (lit ''host_id'', JStr (lit h)),
      (lit ''observation_digest'', the (fld (attestation_of (ex_machine h r d)) ''observation_digest'')),
      (lit ''provider'', JStr (lit ''fly.io'')), (lit ''region'', JStr (lit r)),
      (lit ''release_digest'', JStr (lit ''d'')), (lit ''source_sha'', JStr ex_source),
      (lit ''state'', JNull)]"

lemma ex_fly_digest: "\<exists>bs. the (fld (attestation_of (ex_machine h r d)) ''observation_digest'') = JStr (sha256_bytes bs)"
  by (auto simp: attestation_of_def observation_def)

lemma ex_fly_doc_sorted:
  "sort_json (JObj (ex_fly_doc h r d)) = JObj (ex_fly_doc h r d)"
  "sort_json (JObj (attestation_of (ex_machine h r d))) = JObj (ex_fly_doc h r d)"
  "json_ok (JObj (ex_fly_doc h r d))"
proof -
  obtain bs where bs: "the (fld (attestation_of (ex_machine h r d)) ''observation_digest'') = JStr (sha256_bytes bs)"
    using ex_fly_digest by blast
  have sorted: "sorted (map lit [''cert_fingerprint'', ''fault_domain'', ''host_id'', ''observation_digest'',
      ''provider'', ''region'', ''release_digest'', ''source_sha'', ''state''])"
    by code_simp
  have ids: "map (map_prod id sort_json) (ex_fly_doc h r d) = ex_fly_doc h r d"
    by (simp add: ex_fly_doc_def bs)
  have "sorted (map fst (ex_fly_doc h r d))"
    using sorted by (simp only: ex_fly_doc_def list.map fst_conv)
  then show s: "sort_json (JObj (ex_fly_doc h r d)) = JObj (ex_fly_doc h r d)"
    by (simp only: sort_json.simps ids sort_key_id_if_sorted)
  have "mset (attestation_of (ex_machine h r d)) = mset (ex_fly_doc h r d)"
    by (simp add: ex_fly_doc_def attestation_of_def observation_def ex_machine_fields)
  from sort_json_obj_cong [OF attestation_distinct this] s
  show "sort_json (JObj (attestation_of (ex_machine h r d))) = JObj (ex_fly_doc h r d)" by simp
  show "json_ok (JObj (ex_fly_doc h r d))" by (simp add: ex_fly_doc_def bs)
qed

definition ex_fly_files :: "(str \<times> json dict) list" where
  "ex_fly_files =
     [(lit ''a.json'', ex_fly_doc ''h1'' ''iad'' ''x''), (lit ''b.json'', ex_fly_doc ''h2'' ''iad'' ''y''),
      (lit ''c.json'', ex_fly_doc ''h3'' ''fra'' ''z''), (lit ''d.json'', ex_fly_doc ''h4'' ''fra'' ''x''),
      (lit ''e.json'', ex_fly_doc ''h5'' ''iad'' ''x'')]"

definition ex_fly_fs :: fs where
  "ex_fly_fs = evidence_dir [] ex_fly_files"

definition ex_fly_manifests :: "json list" where
  "ex_fly_manifests = map (\<lambda>n. JObj (file_entry ex_fly_files n)) [''a.json'', ''b.json'', ''c.json'', ''d.json'', ''e.json'']"

definition ex_fly_global :: "json dict" where
  "ex_fly_global = map (\<lambda>f. (f, JBool True)) global_fields @ [(lit ''attestations'', JArr ex_fly_manifests)]"

lemma ex_fly_attested:
  assumes "map_of ex_fly_files (lit n) = Some (ex_fly_doc h r d)" "path_parts (lit n) = [lit n]" "plain_name (lit n)"
  shows "attests_json ex_fly_fs ex_root (file_entry ex_fly_files n) (ex_fly_doc h r d)"
  unfolding ex_fly_fs_def using assms ex_fly_doc_sorted by (intro dir_attests(2)) (simp_all add: extra_ok_def)

lemma ex_fly_file_list:
  "list_all2 (\<lambda>manifest att. \<exists>m d. manifest = JObj m \<and> attests_json ex_fly_fs ex_root m d
     \<and> JObj d = sort_json (JObj att)) ex_fly_manifests (attestations ex_fly_state)"
proof -
  have one: "\<exists>m d. JObj (file_entry ex_fly_files n) = JObj m \<and> attests_json ex_fly_fs ex_root m d
      \<and> JObj d = sort_json (JObj (attestation_of (ex_machine h r dom)))"
    if "map_of ex_fly_files (lit n) = Some (ex_fly_doc h r dom)" "path_parts (lit n) = [lit n]" "plain_name (lit n)"
    for n h r dom
    using ex_fly_attested [OF that] ex_fly_doc_sorted(2) [of h r dom] by fastforce
  show ?thesis
    unfolding ex_fly_manifests_def ex_fly_state_def fly_state.simps ex_machines_def list.map list_all2_Cons list_all2_Nil
    by (intro conjI TrueI one) (simp_all add: ex_fly_files_def plain_names)
qed

theorem fly_feeds_crown_witness:
  "\<exists>t. verify_global ex_fly_fs ex_root [(lit ''global'', JObj ex_fly_global)] ex_source = Inr t"
proof (rule fly_feeds_crown [OF ex_fly_observed _ _ _ ex_fly_file_list])
  show "fld [(lit ''global'', JObj ex_fly_global)] ''global'' = Some (JObj ex_fly_global)" by simp
  show "\<forall>f\<in>set global_fields. map_of ex_fly_global f = Some (JBool True)"
    by (simp add: ex_fly_global_def global_fields_def)
  show "fld ex_fly_global ''attestations'' = Some (JArr ex_fly_manifests)"
    by (simp add: ex_fly_global_def global_fields_def)
qed

theorem fly_digest_checkable_witness:
  "\<exists>bs. fld (ex_fly_doc ''h1'' ''iad'' ''x'') ''observation_digest'' = Some (JStr (sha256_bytes bs))"
proof -
  have "attestation_of (ex_machine ''h1'' ''iad'' ''x'') \<in> set (attestations ex_fly_state)"
    by (simp add: ex_fly_state_def ex_machines_def)
  from fly_digest_checkable [OF ex_fly_observed this ex_fly_doc_sorted(2) [symmetric]] show ?thesis by blast
qed

text \<open>The machines in a file, beside an empty output directory.\<close>

lemma ex_fly_raw_sorted: "sort_json ex_fly_raw = ex_fly_raw" "json_ok ex_fly_raw"
proof -
  have keys: "sorted (map lit [''config'', ''id'', ''metadata'', ''region''])"
      "sorted (map lit [''ex4pm_release_digest'', ''ex4pm_source_sha'', ''fault_domain''])"
    by code_simp+
  have inner: "sort_json (JObj [(lit ''ex4pm_release_digest'', JStr a), (lit ''ex4pm_source_sha'', JStr b),
      (lit ''fault_domain'', JStr c)]) = JObj [(lit ''ex4pm_release_digest'', JStr a),
      (lit ''ex4pm_source_sha'', JStr b), (lit ''fault_domain'', JStr c)]" for a b c
    using keys(2) by (intro sorted_object) simp_all
  have "sort_json (JObj (ex_machine h r d)) = JObj (ex_machine h r d)" for h r d
    using keys(1) inner by (intro sorted_object) (simp_all add: ex_machine_def)
  then show "sort_json ex_fly_raw = ex_fly_raw" by (simp add: ex_fly_raw_def ex_machines_def)
  show "json_ok ex_fly_raw" by (simp add: ex_fly_raw_def ex_machines_def ex_machine_def)
qed

theorem fly_files_contained_witness:
  "\<exists>fs fs' ws. fly_main fs [] (lit ''m'') ex_source (lit ''out'')
        = Inr (0, dumps one_line (fly_summary ex_source ex_fly_state) @ [10], fs')
     \<and> node_at fs' [lit ''out'', lit ''topology-summary.json''] = Some (File ws)"
proof -
  obtain bs where "write_text (dumps one_line ex_fly_raw @ [10]) = Inr bs"
    by (rule dumps_ascii_writes [OF layouts_clean(5)]) (simp add: one_line_def)
  then have bs: "ebind (read_text bs) loads = Inr ex_fly_raw"
    using dumps_line_read_back [of one_line ex_fly_raw bs] ex_fly_raw_sorted by simp
  define fs :: fs where "fs = [([lit ''m''], File bs), ([lit ''out''], Dir)]"
  have join: "join_path [] (lit ''m'') = [lit ''m'']" "join_path [] (lit ''out'') = [lit ''out'']"
    by (simp_all add: join_path_def is_absolute_def path_parts_def split_on_def lit_def)
  have can: "canonical fs [lit ''m'']" "canonical fs [lit ''out'']"
    by (simp_all add: canonical_def link_target_def fs_def plain_name_def lit_def)
  have read: "ebind (read_path_text fs (join_path [] (lit ''m''))) loads = Inr ex_fly_raw"
    using read_bytes_plain [OF can(1), of bs] bs by (simp add: join read_path_text_def fs_def node_at_def)
  have dirs: "make_dirs fs (join_path [] (lit ''out'')) = Inr fs"
    unfolding join(2) using can(2)
    by (rule make_dirs_present) (auto simp: fs_def node_at_def less_Suc_eq_le le_Suc_eq)
  have flat: "flat_dir fs (join_path [] (lit ''out''))"
    using can(2) by (simp add: flat_dir_def join fs_def node_at_def)
  have names: "\<forall>att\<in>set (attestations ex_fly_state). good_name (text_at att (lit ''host_id''))
      \<and> text_at att (lit ''host_id'') \<noteq> lit ''topology-summary''"
    by (simp add: ex_fly_state_def ex_machines_def ex_attestation_texts good_name_def plain_name_def) (simp add: lit_def)
  have dist: "distinct (map (\<lambda>att. text_at att (lit ''host_id'')) (attestations ex_fly_state))"
    by (simp add: ex_fly_state_def ex_machines_def ex_attestation_texts)
  from fly_files_contained [OF read ex_fly_observed(1) dirs flat names dist refl] ex_fly_observed(2)
  show ?thesis unfolding join by auto
qed

end
