(* ===== verification/JsonBytes.thy ===== *)
theory JsonBytes
  imports JsonRound
begin

text \<open>
  \<open>json.loads\<close> on bytes: the encoding is detected from the byte order mark or the
  zero bytes among the first four, and the decoders let lone surrogates pass
  (\<open>surrogatepass\<close>). On what the encoder of text wrote it agrees with \<open>json.loads\<close>
  on the text.
\<close>

section \<open>Detection\<close>

datatype encoding = Utf8 | Utf8Sig | Utf16 | Utf16Le | Utf16Be | Utf32 | Utf32Le | Utf32Be

definition begins :: "nat list \<Rightarrow> nat list \<Rightarrow> bool" where
  "begins p bs \<longleftrightarrow> take (length p) bs = p"

definition detect_encoding :: "nat list \<Rightarrow> encoding" where
  "detect_encoding bs =
     (if begins [0, 0, 254, 255] bs \<or> begins [255, 254, 0, 0] bs then Utf32
      else if begins [254, 255] bs \<or> begins [255, 254] bs then Utf16
      else if begins [239, 187, 191] bs then Utf8Sig
      else if 4 \<le> length bs then
        (if bs ! 0 = 0 then (if bs ! 1 \<noteq> 0 then Utf16Be else Utf32Be)
         else if bs ! 1 = 0 then (if bs ! 2 \<noteq> 0 \<or> bs ! 3 \<noteq> 0 then Utf16Le else Utf32Le)
         else Utf8)
      else if length bs = 2 then
        (if bs ! 0 = 0 then Utf16Be
         else if bs ! 1 = 0 then Utf16Le
         else Utf8)
      else Utf8)"

section \<open>Decoders that let surrogates pass\<close>

fun utf8_pass :: "nat list \<Rightarrow> str option" where
  "utf8_pass [] = Some []"
| "utf8_pass (b # bs) =
     (if b < 128 then map_option (Cons b) (utf8_pass bs)
      else if 192 \<le> b \<and> b < 224 then
        (case bs of
           c1 # bs' \<Rightarrow>
             (let c = (b - 192) * 64 + (c1 - 128) in
              if is_cont c1 \<and> 128 \<le> c then map_option (Cons c) (utf8_pass bs') else None)
         | _ \<Rightarrow> None)
      else if 224 \<le> b \<and> b < 240 then
        (case bs of
           c1 # c2 # bs' \<Rightarrow>
             (let c = (b - 224) * 4096 + (c1 - 128) * 64 + (c2 - 128) in
              if is_cont c1 \<and> is_cont c2 \<and> 2048 \<le> c
              then map_option (Cons c) (utf8_pass bs') else None)
         | _ \<Rightarrow> None)
      else if 240 \<le> b \<and> b < 248 then
        (case bs of
           c1 # c2 # c3 # bs' \<Rightarrow>
             (let c = (b - 240) * 262144 + (c1 - 128) * 4096 + (c2 - 128) * 64 + (c3 - 128) in
              if is_cont c1 \<and> is_cont c2 \<and> is_cont c3 \<and> 65536 \<le> c \<and> c < 1114112
              then map_option (Cons c) (utf8_pass bs') else None)
         | _ \<Rightarrow> None)
      else None)"

text \<open>Code units of two and four bytes; a truncated unit is an error.\<close>

fun units16 :: "bool \<Rightarrow> nat list \<Rightarrow> nat list option" where
  "units16 be [] = Some []"
| "units16 be [b] = None"
| "units16 be (a # b # bs) = map_option (Cons (if be then 256 * a + b else 256 * b + a)) (units16 be bs)"

fun join_surrogates :: "nat list \<Rightarrow> str" where
  "join_surrogates [] = []"
| "join_surrogates [u] = [u]"
| "join_surrogates (u # v # us) =
     (if 55296 \<le> u \<and> u < 56320 \<and> 56320 \<le> v \<and> v < 57344
      then (65536 + (u - 55296) * 1024 + (v - 56320)) # join_surrogates us
      else u # join_surrogates (v # us))"

fun units32 :: "bool \<Rightarrow> nat list \<Rightarrow> str option" where
  "units32 be [] = Some []"
| "units32 be (a # b # c # d # bs) =
     (let u = (if be then ((a * 256 + b) * 256 + c) * 256 + d else ((d * 256 + c) * 256 + b) * 256 + a) in
      if u < 1114112 then map_option (Cons u) (units32 be bs) else None)"
| "units32 be _ = None"

definition decode_as :: "encoding \<Rightarrow> nat list \<Rightarrow> str option" where
  "decode_as e bs =
     (case e of
        Utf8 \<Rightarrow> utf8_pass bs
      | Utf8Sig \<Rightarrow> utf8_pass (drop 3 bs)
      | Utf16Le \<Rightarrow> map_option join_surrogates (units16 False bs)
      | Utf16Be \<Rightarrow> map_option join_surrogates (units16 True bs)
      | Utf16 \<Rightarrow> map_option join_surrogates (units16 (begins [254, 255] bs) (drop 2 bs))
      | Utf32Le \<Rightarrow> units32 False bs
      | Utf32Be \<Rightarrow> units32 True bs
      | Utf32 \<Rightarrow> units32 (begins [0, 0, 254, 255] bs) (drop 4 bs))"

definition loads_bytes :: "bytes \<Rightarrow> json res" where
  "loads_bytes raw =
     (let bs = map unat raw in
      ebind (of_option UnicodeError (decode_as (detect_encoding bs) bs)) loads)"

section \<open>Agreement with text\<close>

lemma utf8_pass_decodes: "utf8_to_cps bs = Some s \<Longrightarrow> utf8_pass bs = Some s"
proof (induction bs arbitrary: s rule: utf8_pass.induct)
  case 1
  then show ?case by (simp add: utf8_to_cps.simps)
next
  case (2 b bs)
  then show ?case
    by (auto simp: utf8_to_cps.simps Let_def is_scalar_def split: if_splits list.splits)
qed

text \<open>The text of a document starts with two ASCII characters, so its bytes are taken for UTF-8.\<close>

lemma detect_utf8:
  assumes "bs = a # b # rest" "0 < a" "a < 128" "0 < b" "b < 128"
  shows "detect_encoding bs = Utf8"
  using assms by (simp add: detect_encoding_def begins_def)

lemma detect_short: "0 < a \<Longrightarrow> a < 128 \<Longrightarrow> detect_encoding [a] = Utf8"
  by (simp add: detect_encoding_def begins_def)

lemma loads_bytes_text:
  assumes "utf8_encode s = Inr bs" "s = a # b # r" "0 < a" "a < 128" "0 < b" "b < 128"
  shows "loads_bytes bs = loads s"
proof -
  have cps: "utf8_to_cps (map unat bs) = Some s"
    using utf8_decode_encode [OF assms(1)] by (simp add: utf8_decode_def of_option_Inr_iff)
  have "bs = map of_nat (concat (map utf8_of_cp s))"
    using assms(1) by (simp add: utf8_encode_def split: if_splits)
  then have "map unat bs = a # b # map unat (drop 2 bs)"
    using assms(2-6) by (simp add: utf8_of_cp_def unat_of_byte)
  from detect_utf8 [OF this assms(3-6)] have "detect_encoding (map unat bs) = Utf8" .
  with utf8_pass_decodes [OF cps] show ?thesis by (simp add: loads_bytes_def decode_as_def)
qed

end
