(* ===== verification/EmitOcel.thy ===== *)
theory EmitOcel
  imports JsonBytes EvidenceFiles PyRegex
begin

text \<open>
  \<open>scripts/emit-ocel.py\<close>: the admission of a receipt, the observation document, the
  atomic spool, the optional delivery over HTTP and \<open>main\<close>. The environment is a
  parameter: the clock's reading, the random suffix of the temporary file, the
  environment variables, and the answer of the HTTP endpoint.
\<close>

section \<open>Arguments\<close>

definition STANDINGS :: "str list" where
  "STANDINGS = map lit
     [''UNKNOWN'', ''PARTIAL_ALIVE'', ''ALIVE'', ''BLOCKED'', ''BUILD_BROKEN'', ''UNSUPPORTED'', ''REFUSED'']"

definition AUTHORITY_DOMAINS :: "str list" where
  "AUTHORITY_DOMAINS = map lit [''OBSERVE'', ''SELECT'', ''CONSTRUCT'', ''VERIFY'', ''DO'']"

definition name_part :: rx where
  "name_part = Many 1 (none_of [char_item CHR ''/'', Space])"

definition REPOSITORY_RE :: rx where
  "REPOSITORY_RE = sequence [TextStart, name_part, literal ''/'', name_part, TextEnd]"

definition hex_class :: cclass where
  "hex_class = one_of [span_item CHR ''0'' CHR ''9'', span_item CHR ''a'' CHR ''f'', span_item CHR ''A'' CHR ''F'']"

definition SHA_RE :: rx where
  "SHA_RE = sequence [TextStart, Alt (exactly 40 hex_class) (exactly 64 hex_class), TextEnd]"

record emit_args =
  activity :: str
  standing :: str
  authority_domain :: str
  agent_id :: str
  run_id :: str
  sequence_no :: str
  repo :: str
  sha :: str
  receipt_path :: str
  output_path :: "str option"

text \<open>The \<open>choices\<close> the argument parser enforces; it exits with a usage message otherwise.\<close>

definition choices_ok :: "emit_args \<Rightarrow> bool" where
  "choices_ok args \<longleftrightarrow> standing args \<in> set STANDINGS \<and> authority_domain args \<in> set AUTHORITY_DOMAINS"

definition require_nonempty :: "string \<Rightarrow> str \<Rightarrow> str res" where
  "require_nonempty name value =
     (let value = strip value in
      if value = [] then Inl (SystemExit (lit name @ lit '' must be non-empty'')) else Inr value)"

text \<open>The normalisation of the arguments at the start of \<open>main\<close>.\<close>

definition normalise_args :: "emit_args \<Rightarrow> emit_args res" where
  "normalise_args args =
     ebind (require_nonempty ''activity'' (activity args)) (\<lambda>a.
     ebind (require_nonempty ''agent-id'' (agent_id args)) (\<lambda>g.
     ebind (require_nonempty ''run-id'' (run_id args)) (\<lambda>r.
     ebind (require_nonempty ''sequence'' (sequence_no args)) (\<lambda>q.
     ebind (require_nonempty ''repo'' (repo args)) (\<lambda>p.
     ebind (require_nonempty ''sha'' (sha args)) (\<lambda>s.
     let s = lower s in
     if re_fullmatch REPOSITORY_RE p = None
       then Inl (SystemExit (lit ''repo must be an owner/name identity without whitespace''))
     else if re_fullmatch SHA_RE s = None
       then Inl (SystemExit (lit ''sha must be an exact 40- or 64-hex source identity''))
     else Inr (args\<lparr>activity := a, agent_id := g, run_id := r, sequence_no := q, repo := p, sha := s\<rparr>)))))))"

section \<open>The receipt\<close>

text \<open>\<open>receipt.get("exit_codes", {}).get("mix_verify") != 0\<close>: a value without \<open>get\<close> raises.\<close>

definition mix_verify_zero :: "json dict \<Rightarrow> bool res" where
  "mix_verify_zero receipt =
     ebind (of_option AttributeError (the_obj (get_or receipt (lit ''exit_codes'') (JObj [])))) (\<lambda>codes.
     Inr (case fld codes ''mix_verify'' of None \<Rightarrow> False | Some v \<Rightarrow> equals_zero v))"

definition load_and_admit_receipt ::
  "fs \<Rightarrow> path \<Rightarrow> str \<Rightarrow> str \<Rightarrow> (json dict \<times> bytes \<times> str) res" where
  "load_and_admit_receipt fs p expected_sha expected_standing =
     (if \<not> is_file fs p then Inl (SystemExit (lit ''receipt is not a regular file''))
      else
        ebind (read_bytes fs p) (\<lambda>raw.
        ebind (case loads_bytes raw of
                 Inl JSONDecodeError \<Rightarrow> Inl (SystemExit (lit ''receipt is not valid JSON''))
               | r \<Rightarrow> r) (\<lambda>v.
        ebind (of_option (SystemExit (lit ''receipt root must be a JSON object'')) (the_obj v)) (\<lambda>receipt.
        if fld receipt ''subject_sha'' \<noteq> Some (JStr expected_sha)
          then Inl (SystemExit (lit ''receipt subject_sha does not correspond to the admitted source SHA''))
        else if fld receipt ''standing'' \<noteq> Some (JStr expected_standing)
          then Inl (SystemExit (lit ''receipt standing does not correspond to the emitted observation standing''))
        else
          ebind (mix_verify_zero receipt) (\<lambda>zero.
          if \<not> zero then Inl (SystemExit (lit ''receipt does not prove a zero-exit mix verify crown''))
          else Inr (receipt, raw, sha256_bytes raw))))))"

section \<open>The observation\<close>

definition canonical_digest :: "json \<Rightarrow> str res" where
  "canonical_digest v =
     ebind (utf8_encode (dumps compact_utf8 v)) (\<lambda>encoded. Inr (sha256_bytes encoded))"

text \<open>\<open>s.replace(old, new)\<close>, for a non-empty \<open>old\<close>.\<close>

function replace_all :: "str \<Rightarrow> str \<Rightarrow> str \<Rightarrow> str" where
  "replace_all old new s =
     (if s = [] \<or> old = [] then s
      else if starts_with old s then new @ replace_all old new (drop (length old) s)
      else hd s # replace_all old new (tl s))"
  by pat_completeness auto
termination
  by (relation "measure (\<lambda>(old, new, s). length s)") (auto simp: neq_Nil_conv)

declare replace_all.simps [simp del]

definition identity_doc :: "emit_args \<Rightarrow> str \<Rightarrow> json" where
  "identity_doc args receipt_digest =
     JObj [(lit ''activity'', JStr (activity args)),
           (lit ''standing'', JStr (standing args)),
           (lit ''authority_domain'', JStr (authority_domain args)),
           (lit ''agent_id'', JStr (agent_id args)),
           (lit ''run_id'', JStr (run_id args)),
           (lit ''sequence'', JStr (sequence_no args)),
           (lit ''repo'', JStr (repo args)),
           (lit ''sha'', JStr (sha args)),
           (lit ''receipt_sha256'', JStr receipt_digest)]"

definition subject_id :: "emit_args \<Rightarrow> str" where
  "subject_id args = lit ''github:'' @ repo args @ lit ''@'' @ sha args"

definition run_object_id :: "emit_args \<Rightarrow> str" where
  "run_object_id args =
     lit ''github-actions:'' @ repo args @ lit '':'' @ run_id args @ lit '':'' @ sequence_no args"

definition receipt_object_id :: "str \<Rightarrow> str" where
  "receipt_object_id receipt_digest = lit ''receipt:sha256:'' @ receipt_digest"

definition build_ocel :: "str \<Rightarrow> emit_args \<Rightarrow> str \<Rightarrow> json res" where
  "build_ocel now args receipt_digest =
     ebind (canonical_digest (identity_doc args receipt_digest)) (\<lambda>digest.
     let event_id = lit ''verification:'' @ digest;
         timestamp = replace_all (lit ''+00:00'') (lit ''Z'') now
     in Inr (JObj
       [(lit ''objects'', JObj
          [(subject_id args, JObj
             [(lit ''type'', JStr (lit ''SoftwareSourceRevision'')),
              (lit ''repository'', JStr (repo args)),
              (lit ''sha'', JStr (sha args))]),
           (run_object_id args, JObj
             [(lit ''type'', JStr (lit ''VerificationRun'')),
              (lit ''run_id'', JStr (run_id args)),
              (lit ''sequence'', JStr (sequence_no args)),
              (lit ''agent_id'', JStr (agent_id args))]),
           (receipt_object_id receipt_digest, JObj
             [(lit ''type'', JStr (lit ''EvidenceReceipt'')),
              (lit ''algorithm'', JStr (lit ''sha256'')),
              (lit ''digest'', JStr receipt_digest)])]),
        (lit ''events'', JObj
          [(event_id, JObj
             [(lit ''activity'', JStr (activity args)),
              (lit ''timestamp'', JStr timestamp),
              (lit ''objects'', JArr
                 [JStr (subject_id args), JStr (run_object_id args), JStr (receipt_object_id receipt_digest)]),
              (lit ''standing'', JStr (standing args)),
              (lit ''authority_domain'', JStr (authority_domain args)),
              (lit ''agent_id'', JStr (agent_id args)),
              (lit ''run_id'', JStr (run_id args)),
              (lit ''sequence'', JStr (sequence_no args)),
              (lit ''repository'', JStr (repo args)),
              (lit ''subject_sha'', JStr (sha args)),
              (lit ''receipt_sha256'', JStr receipt_digest)])]),
        (lit ''metadata'', JObj
          [(lit ''schema'', JStr (lit ''ex4pm.ocel-verification-observation/v1'')),
           (lit ''receipt_sha256'', JStr receipt_digest),
           (lit ''authority_domain'', JStr (authority_domain args))])]))"

definition encode_document :: "json \<Rightarrow> bytes res" where
  "encode_document document = utf8_encode (dumps indented_utf8 document @ [10])"

section \<open>The spool\<close>

definition remove_node :: "path \<Rightarrow> fs \<Rightarrow> fs" where
  "remove_node p fs = AList.delete p fs"

text \<open>\<open>os.replace\<close> of a file: the name moves in one step, over a file that is there.\<close>

definition replace_file :: "path \<Rightarrow> path \<Rightarrow> fs \<Rightarrow> fs res" where
  "replace_file source target fs =
     (case node_at fs source of
        None \<Rightarrow> Inl FileNotFoundError
      | Some n \<Rightarrow>
          if node_at fs target = Some Dir then Inl IsADirectoryError
          else Inr (AList.update target n (remove_node source fs)))"

definition path_name :: "path \<Rightarrow> str" where
  "path_name q = (if q = [] then [] else last q)"

definition temp_path :: "path \<Rightarrow> str \<Rightarrow> path" where
  "temp_path q suffix = butlast q @ [lit ''.'' @ path_name q @ lit ''.'' @ suffix]"

text \<open>The directory entry a path names: its last name, in the directory the rest leads to.\<close>

definition entry_of :: "fs \<Rightarrow> path \<Rightarrow> path res" where
  "entry_of fs q = ebind (locate fs (butlast q)) (\<lambda>d. Inr (d @ drop (length q - 1) q))"

text \<open>
  The temporary file beside the entry, its contents and the replacement. \<open>suffix\<close> is
  the last random suffix \<open>tempfile\<close> tries, normally a free one. The file system is
  returned with an exception too: a temporary file that cannot replace the output
  stays behind.
\<close>

definition spool_entry :: "fs \<Rightarrow> bytes \<Rightarrow> path \<Rightarrow> str \<Rightarrow> unit res \<times> fs" where
  "spool_entry fs payload target suffix =
     (let temporary = temp_path target suffix in
      if node_at fs temporary \<noteq> None then (Inl FileExistsError, fs)
      else
        (let fs = put_file temporary payload (put_file temporary [] fs) in
         case replace_file temporary target fs of
           Inl e \<Rightarrow> (Inl e, fs)
         | Inr fs \<Rightarrow> (Inr (), fs)))"

text \<open>
  \<open>mkdir\<close> meets a file in its way before it makes the first directory, so its
  failure leaves the file system as it is.
\<close>

definition atomic_spool :: "fs \<Rightarrow> bytes \<Rightarrow> path \<Rightarrow> str \<Rightarrow> path res \<times> fs" where
  "atomic_spool fs payload output suffix =
     (case resolve fs output of
        Inl e \<Rightarrow> (Inl e, fs)
      | Inr q \<Rightarrow>
          (case make_dirs fs (butlast q) of
             Inl e \<Rightarrow> (Inl e, fs)
           | Inr fs \<Rightarrow>
               (case entry_of fs q of
                  Inl e \<Rightarrow> (Inl e, fs)
                | Inr target \<Rightarrow>
                    (case spool_entry fs payload target suffix of
                       (Inl e, fs) \<Rightarrow> (Inl e, fs)
                     | (Inr _, fs) \<Rightarrow> (Inr q, fs)))))"

section \<open>Delivery\<close>

text \<open>
  \<open>urlparse\<close>: leading control characters and spaces go, tabs and line breaks go,
  the scheme is what a valid scheme name before the first colon spells, and the
  network location is what follows two slashes. An unbalanced bracket is an error, and so
  is a location that the library's check of the host refuses: what it refuses
  (the text between brackets that is no address, and the tables of the Unicode
  database) is the parameter \<open>bad_host\<close>.
\<close>

definition is_scheme_char :: "nat \<Rightarrow> bool" where
  "is_scheme_char c \<longleftrightarrow> 97 \<le> c \<and> c \<le> 122 \<or> 65 \<le> c \<and> c \<le> 90 \<or> 48 \<le> c \<and> c \<le> 57 \<or> c \<in> {43, 45, 46}"

definition is_ascii_alpha :: "nat \<Rightarrow> bool" where
  "is_ascii_alpha c \<longleftrightarrow> 97 \<le> c \<and> c \<le> 122 \<or> 65 \<le> c \<and> c \<le> 90"

definition url_scheme :: "str \<Rightarrow> str \<times> str" where
  "url_scheme url =
     (let scheme = takeWhile (\<lambda>c. c \<noteq> 58) url in
      if scheme \<noteq> [] \<and> length scheme < length url \<and> is_ascii_alpha (hd scheme)
         \<and> list_all is_scheme_char scheme
      then (lower scheme, drop (Suc (length scheme)) url)
      else ([], url))"

definition url_netloc :: "str \<Rightarrow> str" where
  "url_netloc rest =
     (if take 2 rest = [47, 47] then takeWhile (\<lambda>c. c \<notin> {47, 63, 35}) (drop 2 rest) else [])"

definition url_parse :: "(str \<Rightarrow> bool) \<Rightarrow> str \<Rightarrow> (str \<times> str) res" where
  "url_parse bad_host url =
     (let url = filter (\<lambda>c. c \<notin> {9, 10, 13}) (dropWhile (\<lambda>c. c \<le> 32) url);
          (scheme, rest) = url_scheme url;
          netloc = url_netloc rest
      in if (91 \<in> set netloc) \<noteq> (93 \<in> set netloc) then Inl (ValueError (lit ''Invalid IPv6 URL''))
         else if bad_host netloc then Inl (ValueError (lit ''invalid host''))
         else Inr (scheme, netloc))"

text \<open>The endpoint answers a POST with a status, or the call raises with a message.\<close>

record http_request =
  req_url :: str
  req_body :: bytes
  req_headers :: "str dict"

type_synonym endpoint = "http_request \<Rightarrow> str + int"

definition request_headers :: "str \<Rightarrow> str dict" where
  "request_headers token =
     [(lit ''Content-Type'', lit ''application/json''), (lit ''User-Agent'', lit ''ex4pm-ocel-relay/1'')]
     @ (if token = [] then [] else [(lit ''Authorization'', lit ''Bearer '' @ token)])"

definition post_if_configured :: "(str \<Rightarrow> bool) \<Rightarrow> endpoint \<Rightarrow> (str \<Rightarrow> str option) \<Rightarrow> bytes \<Rightarrow> str res" where
  "post_if_configured bad_host endpoint environ payload =
     (let ingest_url = strip (case environ (lit ''OCEL_INGEST_URL'') of None \<Rightarrow> [] | Some v \<Rightarrow> v) in
      if ingest_url = [] then Inr (lit ''spool'')
      else
        ebind (url_parse bad_host ingest_url) (\<lambda>(scheme, netloc).
        if scheme \<notin> {lit ''http'', lit ''https''} \<or> netloc = []
          then Inl (SystemExit (lit ''OCEL_INGEST_URL must be an absolute http(s) URL''))
        else
          (let token = strip (case environ (lit ''OCEL_INGEST_TOKEN'') of None \<Rightarrow> [] | Some v \<Rightarrow> v) in
           case endpoint \<lparr>req_url = ingest_url, req_body = payload, req_headers = request_headers token\<rparr> of
             Inl message \<Rightarrow> Inl (SystemExit (lit ''OCEL ingest failed after local spool: '' @ message))
           | Inr status \<Rightarrow>
               if status < 200 \<or> 300 \<le> status
               then Inl (SystemExit (lit ''OCEL ingest returned HTTP '' @ dec_int status))
               else Inr (lit ''spool+http''))))"

section \<open>The command\<close>

record world =
  w_fs :: fs
  w_cwd :: path
  w_now :: str
  w_suffix :: str
  w_environ :: "str \<Rightarrow> str option"
  w_bad_host :: "str \<Rightarrow> bool"
  w_endpoint :: endpoint

text \<open>The payload of a run, before anything is written, and the digest of its receipt.\<close>

definition emit_payload :: "world \<Rightarrow> emit_args \<Rightarrow> (emit_args \<times> str \<times> bytes) res" where
  "emit_payload w args =
     (if \<not> choices_ok args then Inl (SystemExit (lit ''usage''))
      else
     ebind (normalise_args args) (\<lambda>args.
     ebind (load_and_admit_receipt (w_fs w) (join_path (w_cwd w) (receipt_path args)) (sha args) (standing args))
       (\<lambda>(_, _, receipt_digest).
     ebind (build_ocel (w_now w) args receipt_digest) (\<lambda>document.
     ebind (encode_document document) (\<lambda>payload.
     Inr (args, receipt_digest, payload))))))"

definition spool_target :: "world \<Rightarrow> emit_args \<Rightarrow> str \<Rightarrow> path" where
  "spool_target w args receipt_digest =
     (case output_path args of
        Some out \<Rightarrow> join_path (w_cwd w) out
      | None \<Rightarrow>
          join_path
            (join_path (w_cwd w)
              (case w_environ w (lit ''OCEL_SPOOL_DIR'') of None \<Rightarrow> lit ''tmp/ocel-spool'' | Some d \<Rightarrow> d))
            (run_id args @ lit ''-'' @ sequence_no args @ lit ''-'' @ take 16 receipt_digest
             @ lit ''.ocel.json''))"

definition posix_path :: "path \<Rightarrow> str" where
  "posix_path q = [47] @ join_with [47] q"

definition emit_report :: "str \<Rightarrow> path \<Rightarrow> bytes \<Rightarrow> str \<Rightarrow> json" where
  "emit_report transport output payload receipt_digest =
     JObj [(lit ''status'', JStr (lit ''ALIVE'')),
           (lit ''transport'', JStr transport),
           (lit ''output'', JStr (posix_path output)),
           (lit ''payload_sha256'', JStr (sha256_bytes payload)),
           (lit ''receipt_sha256'', JStr receipt_digest)]"

text \<open>\<open>main\<close>: the standard output or the exception, and the file system it leaves.\<close>

definition emit_main :: "world \<Rightarrow> emit_args \<Rightarrow> str res \<times> fs" where
  "emit_main w args =
     (case emit_payload w args of
        Inl e \<Rightarrow> (Inl e, w_fs w)
      | Inr (args, receipt_digest, payload) \<Rightarrow>
          (case atomic_spool (w_fs w) payload (spool_target w args receipt_digest) (w_suffix w) of
             (Inl e, fs) \<Rightarrow> (Inl e, fs)
           | (Inr output, fs) \<Rightarrow>
               (case post_if_configured (w_bad_host w) (w_endpoint w) (w_environ w) payload of
                  Inl e \<Rightarrow> (Inl e, fs)
                | Inr transport \<Rightarrow>
                    (Inr (dumps one_line (emit_report transport output payload receipt_digest) @ [10]), fs))))"

end
