(* ===== verification/EmitSpool.thy ===== *)
theory EmitSpool
  imports EmitOcel
begin

text \<open>
  The spool of \<open>scripts/emit-ocel.py\<close> one system call at a time: the directories
  of the output, the temporary file, its growing contents, the synchronisation
  and the replacement. A reader or a crash between two calls sees the output as
  it was or with the whole payload. \<open>atomic_spool\<close> is shown to be a run of
  these steps, which only move forward.
\<close>

section \<open>Publication\<close>

text \<open>
  The contract a reader of the output relies on: what it sees changes only to
  the new contents, as long as the invariant of the writer holds.
\<close>

locale publication =
  fixes step :: "'s \<Rightarrow> 's \<Rightarrow> bool"
    and view :: "'s \<Rightarrow> 'v"
    and new :: 'v
    and inv :: "'s \<Rightarrow> bool"
  assumes inv_step: "inv s \<Longrightarrow> step s t \<Longrightarrow> inv t"
    and view_step: "inv s \<Longrightarrow> step s t \<Longrightarrow> view t = view s \<or> view t = new"
begin

lemma inv_reachable: "step\<^sup>*\<^sup>* s t \<Longrightarrow> inv s \<Longrightarrow> inv t"
  by (induction rule: rtranclp_induct) (auto dest: inv_step)

lemma view_reachable: "step\<^sup>*\<^sup>* s t \<Longrightarrow> inv s \<Longrightarrow> view t = view s \<or> view t = new"
  by (induction rule: rtranclp_induct) (metis inv_reachable view_step)+

text \<open>What has been published is never taken back.\<close>

lemma published_stays: "step\<^sup>*\<^sup>* s t \<Longrightarrow> inv s \<Longrightarrow> view s = new \<Longrightarrow> view t = new"
  using view_reachable by metis

end

section \<open>The steps\<close>

datatype phase =
    Making nat
  | Writing nat
  | Synced
  | Published

text \<open>The phases in the order of a run.\<close>

fun phase_key :: "phase \<Rightarrow> nat list" where
  "phase_key (Making n) = [0, n]"
| "phase_key (Writing n) = [1, n]"
| "phase_key Synced = [2]"
| "phase_key Published = [3]"

lemma phase_key_inject: "phase_key p = phase_key q \<Longrightarrow> p = q"
  by (cases p; cases q) auto

instantiation phase :: linorder
begin

definition less_eq_phase :: "phase \<Rightarrow> phase \<Rightarrow> bool" where
  "less_eq_phase p q \<longleftrightarrow> phase_key p \<le> phase_key q"

definition less_phase :: "phase \<Rightarrow> phase \<Rightarrow> bool" where
  "less_phase p q \<longleftrightarrow> phase_key p < phase_key q"

instance
  by standard (auto simp: less_eq_phase_def less_phase_def intro: phase_key_inject)

end

record spool =
  sp_fs :: fs
  sp_phase :: phase

inductive spool_step :: "bytes \<Rightarrow> path \<Rightarrow> str \<Rightarrow> spool \<Rightarrow> spool \<Rightarrow> bool"
  for payload q suffix where
  mkdir: "n < length (butlast q) \<Longrightarrow> make_dir fs (take (Suc n) (butlast q)) = Inr fs' \<Longrightarrow>
    spool_step payload q suffix \<lparr>sp_fs = fs, sp_phase = Making n\<rparr> \<lparr>sp_fs = fs', sp_phase = Making (Suc n)\<rparr>"
| create: "n = length (butlast q) \<Longrightarrow> node_at fs (temp_path q suffix) = None \<Longrightarrow>
    spool_step payload q suffix \<lparr>sp_fs = fs, sp_phase = Making n\<rparr>
      \<lparr>sp_fs = put_file (temp_path q suffix) [] fs, sp_phase = Writing 0\<rparr>"
| append: "n < m \<Longrightarrow> m \<le> length payload \<Longrightarrow>
    spool_step payload q suffix \<lparr>sp_fs = fs, sp_phase = Writing n\<rparr>
      \<lparr>sp_fs = put_file (temp_path q suffix) (take m payload) fs, sp_phase = Writing m\<rparr>"
| sync: "n = length payload \<Longrightarrow>
    spool_step payload q suffix \<lparr>sp_fs = fs, sp_phase = Writing n\<rparr> \<lparr>sp_fs = fs, sp_phase = Synced\<rparr>"
| publish: "replace_file (temp_path q suffix) q fs = Inr fs' \<Longrightarrow>
    spool_step payload q suffix \<lparr>sp_fs = fs, sp_phase = Synced\<rparr> \<lparr>sp_fs = fs', sp_phase = Published\<rparr>"

inductive_cases spool_stepE: "spool_step payload q suffix s t"
inductive_simps making_step: "spool_step payload q suffix \<lparr>sp_fs = fs, sp_phase = Making n\<rparr> t"
inductive_simps writing_step: "spool_step payload q suffix \<lparr>sp_fs = fs, sp_phase = Writing n\<rparr> t"
inductive_simps synced_step: "spool_step payload q suffix \<lparr>sp_fs = fs, sp_phase = Synced\<rparr> t"
inductive_simps published_step: "spool_step payload q suffix \<lparr>sp_fs = fs, sp_phase = Published\<rparr> t"

text \<open>The temporary file is not the output.\<close>

lemma temp_path_neq: "q \<noteq> [] \<Longrightarrow> temp_path q suffix \<noteq> q"
proof
  assume q: "q \<noteq> []" and eq: "temp_path q suffix = q"
  then have "last (temp_path q suffix) = last q" by simp
  then have "lit ''.'' @ last q @ lit ''.'' @ suffix = last q"
    using q by (simp add: temp_path_def path_name_def)
  then have "length (lit ''.'' @ last q @ lit ''.'' @ suffix) = length (last q)" by (rule arg_cong)
  then show False by simp
qed

lemma temp_path_neq_Nil [simp]: "temp_path q suffix \<noteq> []"
  by (simp add: temp_path_def)

text \<open>The replacement: the output has the file, the temporary name is gone, the rest is as before.\<close>

lemma replace_file_node_at:
  assumes "replace_file source target fs = Inr fs'" "source \<noteq> target" "source \<noteq> []" "target \<noteq> []"
  shows "node_at fs' p = (if p = target then node_at fs source
    else if p = source then None else node_at fs p)"
  using assms
  by (auto simp: replace_file_def node_at_def remove_node_def update_conv' delete_conv' split: option.splits if_splits)

lemma replace_file_ok:
  "node_at fs source = Some n \<Longrightarrow> node_at fs target \<noteq> Some Dir \<Longrightarrow> \<exists>fs'. replace_file source target fs = Inr fs'"
  by (simp add: replace_file_def)

section \<open>The invariant\<close>

text \<open>
  Relative to the file system the run started from: nodes other than the output
  and the temporary file are as they were or are directories made where nothing
  was, and the temporary file holds what the phase says.
\<close>

definition others_kept :: "fs \<Rightarrow> path \<Rightarrow> str \<Rightarrow> fs \<Rightarrow> bool" where
  "others_kept fs0 q suffix fs \<longleftrightarrow>
     (\<forall>p. p \<noteq> q \<and> p \<noteq> temp_path q suffix \<longrightarrow>
        node_at fs p = node_at fs0 p \<or> node_at fs0 p = None \<and> node_at fs p = Some Dir)"

fun temp_holds :: "fs \<Rightarrow> bytes \<Rightarrow> path \<Rightarrow> str \<Rightarrow> fs \<Rightarrow> phase \<Rightarrow> bool" where
  "temp_holds fs0 payload q suffix fs (Making n) \<longleftrightarrow>
     node_at fs (temp_path q suffix) = node_at fs0 (temp_path q suffix)"
| "temp_holds fs0 payload q suffix fs (Writing n) \<longleftrightarrow>
     n \<le> length payload \<and> node_at fs0 (temp_path q suffix) = None
     \<and> node_at fs (temp_path q suffix) = Some (File (take n payload))"
| "temp_holds fs0 payload q suffix fs Synced \<longleftrightarrow>
     node_at fs0 (temp_path q suffix) = None \<and> node_at fs (temp_path q suffix) = Some (File payload)"
| "temp_holds fs0 payload q suffix fs Published \<longleftrightarrow>
     node_at fs0 (temp_path q suffix) = None \<and> node_at fs (temp_path q suffix) = None
     \<and> node_at fs q = Some (File payload)"

definition spool_inv :: "fs \<Rightarrow> bytes \<Rightarrow> path \<Rightarrow> str \<Rightarrow> spool \<Rightarrow> bool" where
  "spool_inv fs0 payload q suffix s \<longleftrightarrow>
     canonical fs0 q \<and> q \<noteq> []
     \<and> others_kept fs0 q suffix (sp_fs s)
     \<and> temp_holds fs0 payload q suffix (sp_fs s) (sp_phase s)"

lemma spool_inv_start:
  "canonical fs q \<Longrightarrow> q \<noteq> [] \<Longrightarrow> spool_inv fs payload q suffix \<lparr>sp_fs = fs, sp_phase = Making 0\<rparr>"
  by (simp add: spool_inv_def others_kept_def)

text \<open>A directory on the way to the output is neither the output nor the temporary file.\<close>

lemma prefix_neq:
  assumes "q \<noteq> []"
  shows "take n (butlast q) \<noteq> q" "take n (butlast q) \<noteq> temp_path q suffix"
proof -
  have len: "length (take n (butlast q)) < length q" using assms by (cases q) auto
  then show "take n (butlast q) \<noteq> q" by (metis less_irrefl)
  have "length (temp_path q suffix) = length q" using assms by (cases q) (auto simp: temp_path_def)
  with len show "take n (butlast q) \<noteq> temp_path q suffix" by (metis less_irrefl)
qed

lemma others_kept_canonical:
  assumes "others_kept fs0 q suffix fs" "canonical fs0 q" "q \<noteq> []"
  shows "canonical fs (butlast q)"
proof (rule canonical_nodes [OF canonical_butlast [OF assms(2)]])
  fix n t assume "node_at fs (take n (butlast q)) = Some (Link t)"
  moreover have "node_at fs (take n (butlast q)) = node_at fs0 (take n (butlast q))
      \<or> node_at fs (take n (butlast q)) = Some Dir"
    using assms(1) prefix_neq [OF assms(3)] unfolding others_kept_def by blast
  ultimately show "node_at fs0 (take n (butlast q)) = Some (Link t)" by auto
qed

lemma others_kept_step:
  assumes "others_kept fs0 q suffix fs" "canonical fs0 q" "q \<noteq> []"
    "make_dir fs (take n (butlast q)) = Inr fs'"
  shows "others_kept fs0 q suffix fs'"
    "node_at fs' (temp_path q suffix) = node_at fs (temp_path q suffix)" "node_at fs' q = node_at fs q"
proof -
  have "canonical fs (take n (butlast q))"
    using others_kept_canonical [OF assms(1-3)] by (rule canonical_take)
  note made = make_dir_canonical [OF this assms(4)]
  show "node_at fs' (temp_path q suffix) = node_at fs (temp_path q suffix)" "node_at fs' q = node_at fs q"
    using made prefix_neq [OF assms(3)] by metis+
  show "others_kept fs0 q suffix fs'"
    unfolding others_kept_def
  proof (intro allI impI)
    fix p assume p: "p \<noteq> q \<and> p \<noteq> temp_path q suffix"
    then have "node_at fs p = node_at fs0 p \<or> node_at fs0 p = None \<and> node_at fs p = Some Dir"
      using assms(1) by (simp add: others_kept_def)
    then show "node_at fs' p = node_at fs0 p \<or> node_at fs0 p = None \<and> node_at fs' p = Some Dir"
      using made by (cases "p = take n (butlast q)") auto
  qed
qed

lemma spool_inv_step: "spool_inv fs0 payload q suffix s \<Longrightarrow> spool_step payload q suffix s t \<Longrightarrow> spool_inv fs0 payload q suffix t"
proof (erule spool_stepE)
  fix n fs fs'
  assume "spool_inv fs0 payload q suffix s" "s = \<lparr>sp_fs = fs, sp_phase = Making n\<rparr>"
    "t = \<lparr>sp_fs = fs', sp_phase = Making (Suc n)\<rparr>" "make_dir fs (take (Suc n) (butlast q)) = Inr fs'"
  then show "spool_inv fs0 payload q suffix t"
    using others_kept_step [of fs0 q suffix fs "Suc n" fs'] by (simp add: spool_inv_def)
next
  fix fs fs'
  assume inv: "spool_inv fs0 payload q suffix s" and s: "s = \<lparr>sp_fs = fs, sp_phase = Synced\<rparr>"
    and t: "t = \<lparr>sp_fs = fs', sp_phase = Published\<rparr>" and r: "replace_file (temp_path q suffix) q fs = Inr fs'"
  then have "q \<noteq> []" by (simp add: spool_inv_def)
  note nodes = replace_file_node_at [OF r temp_path_neq temp_path_neq_Nil, OF this this]
  show "spool_inv fs0 payload q suffix t"
    using inv nodes temp_path_neq [OF \<open>q \<noteq> []\<close>]
    by (auto simp: s t spool_inv_def others_kept_def)
qed (auto simp: spool_inv_def others_kept_def node_at_put_file)

lemma spool_view_step:
  "spool_inv fs0 payload q suffix s \<Longrightarrow> spool_step payload q suffix s t \<Longrightarrow>
   node_at (sp_fs t) q = node_at (sp_fs s) q \<or> node_at (sp_fs t) q = Some (File payload)"
proof (erule spool_stepE)
  fix n fs fs'
  assume "spool_inv fs0 payload q suffix s" "s = \<lparr>sp_fs = fs, sp_phase = Making n\<rparr>"
    "t = \<lparr>sp_fs = fs', sp_phase = Making (Suc n)\<rparr>" "make_dir fs (take (Suc n) (butlast q)) = Inr fs'"
  then show ?thesis
    using others_kept_step [of fs0 q suffix fs "Suc n" fs'] by (simp add: spool_inv_def)
next
  fix fs fs'
  assume inv: "spool_inv fs0 payload q suffix s" and s: "s = \<lparr>sp_fs = fs, sp_phase = Synced\<rparr>"
    and t: "t = \<lparr>sp_fs = fs', sp_phase = Published\<rparr>" and r: "replace_file (temp_path q suffix) q fs = Inr fs'"
  then have "q \<noteq> []" by (simp add: spool_inv_def)
  then show ?thesis
    using inv replace_file_node_at [OF r temp_path_neq temp_path_neq_Nil] by (simp add: s t spool_inv_def)
qed (auto simp: spool_inv_def node_at_put_file temp_path_neq [symmetric])

interpretation spooling: publication "spool_step payload q suffix" "\<lambda>s. node_at (sp_fs s) q"
    "Some (File payload)" "spool_inv fs0 payload q suffix"
  for payload q suffix fs0
  by unfold_locales (auto dest: spool_inv_step spool_view_step)

section \<open>The function and the steps\<close>

lemma make_dirs_steps:
  "k \<le> length (butlast q) \<Longrightarrow>
   efold (\<lambda>fs n. make_dir fs (take n (butlast q))) fs [1..<Suc k] = Inr fs' \<Longrightarrow>
   (spool_step payload q suffix)\<^sup>*\<^sup>* \<lparr>sp_fs = fs, sp_phase = Making 0\<rparr> \<lparr>sp_fs = fs', sp_phase = Making k\<rparr>"
proof (induction k arbitrary: fs')
  case 0
  then show ?case by simp
next
  case (Suc k)
  have upt: "[1..<Suc (Suc k)] = [1..<Suc k] @ [Suc k]" by simp
  from Suc.prems(2) obtain fs1 where 1: "efold (\<lambda>fs n. make_dir fs (take n (butlast q))) fs [1..<Suc k] = Inr fs1"
    "make_dir fs1 (take (Suc k) (butlast q)) = Inr fs'"
    unfolding upt efold_append by (auto simp: res_dest simp del: upt_Suc)
  have "(spool_step payload q suffix)\<^sup>*\<^sup>* \<lparr>sp_fs = fs, sp_phase = Making 0\<rparr> \<lparr>sp_fs = fs1, sp_phase = Making k\<rparr>"
    using Suc.IH 1(1) Suc.prems(1) by simp
  moreover have "spool_step payload q suffix \<lparr>sp_fs = fs1, sp_phase = Making k\<rparr> \<lparr>sp_fs = fs', sp_phase = Making (Suc k)\<rparr>"
    using Suc.prems(1) 1(2) by (intro mkdir) simp_all
  ultimately show ?case by (rule rtranclp.rtrancl_into_rtrancl)
qed

lemma make_dirs_kept:
  assumes "canonical fs q" "q \<noteq> []" "make_dirs fs (butlast q) = Inr fs'"
  shows "others_kept fs q suffix fs'" "node_at fs' (temp_path q suffix) = node_at fs (temp_path q suffix)"
    "node_at fs' q = node_at fs q" "0 < n \<Longrightarrow> n < length q \<Longrightarrow> node_at fs' (take n q) = Some Dir"
proof -
  have "(spool_step [] q suffix)\<^sup>*\<^sup>* \<lparr>sp_fs = fs, sp_phase = Making 0\<rparr> \<lparr>sp_fs = fs', sp_phase = Making (length (butlast q))\<rparr>"
    using make_dirs_steps [of "length (butlast q)"] assms(3) by (simp only: make_dirs_def order_refl)
  from spooling.inv_reachable [OF this spool_inv_start [OF assms(1,2)]]
  show "others_kept fs q suffix fs'" "node_at fs' (temp_path q suffix) = node_at fs (temp_path q suffix)"
    by (simp_all add: spool_inv_def)
  let ?f = "\<lambda>fs n. make_dir fs (take n (butlast q))"
  have "node_at fs' q = node_at fs q \<and> canonical fs' (butlast q)"
    using assms(3) unfolding make_dirs_def
  proof (rule efold_invariant [where I = "\<lambda>t. node_at t q = node_at fs q \<and> canonical t (butlast q)"])
    show "node_at fs q = node_at fs q \<and> canonical fs (butlast q)" using assms(1) by (simp add: canonical_butlast)
    fix s n s' assume I: "node_at s q = node_at fs q \<and> canonical s (butlast q)" and m: "?f s n = Inr s'"
    from I have "canonical s (take n (butlast q))" by (simp add: canonical_take)
    note made = make_dir_canonical [OF this m]
    have "canonical s' (butlast q)"
      by (rule canonical_nodes [OF I [THEN conjunct2]])
        (metis made node.distinct(5) option.inject)
    with made I prefix_neq(1) [OF assms(2)] show "node_at s' q = node_at fs q \<and> canonical s' (butlast q)" by metis
  qed
  then show "node_at fs' q = node_at fs q" by blast
  show "node_at fs' (take n q) = Some Dir" if "0 < n" "n < length q"
  proof -
    have "node_at fs' (take n (butlast q)) = Some Dir"
      using making_dirs [OF canonical_butlast [OF assms(1)] order_refl assms(3) [unfolded make_dirs_def]] that by simp
    then show ?thesis using that by (simp add: take_butlast)
  qed
qed

text \<open>Once its directories are made, the entry of a canonical path is the path.\<close>

lemma entry_of_made:
  assumes "canonical fs q" "make_dirs fs (butlast q) = Inr fs'"
  shows "entry_of fs' q = Inr q"
proof -
  have "list_all plain_name (butlast q)" using canonical_butlast [OF assms(1)] by (simp add: canonical_def)
  moreover have "node_at fs' (take n (butlast q)) = Some Dir" if "0 < n" "n \<le> length (butlast q)" for n
    using making_dirs [OF canonical_butlast [OF assms(1)] order_refl assms(2) [unfolded make_dirs_def]] that by simp
  ultimately have "locate fs' (butlast q) = Inr (butlast q)"
    by (intro locate_plain directories_canonical)
  moreover have "butlast q @ drop (length q - 1) q = q"
    by (cases q rule: rev_cases) simp_all
  ultimately show ?thesis by (simp add: entry_of_def)
qed

text \<open>\<open>atomic_spool\<close> on a path that resolves without a loop.\<close>

lemma atomic_spool_canonical:
  assumes "resolve fs output = Inr q" "canonical fs q"
  shows "atomic_spool fs payload output suffix =
    (case make_dirs fs (butlast q) of
       Inl e \<Rightarrow> (Inl e, fs)
     | Inr fs1 \<Rightarrow>
         if node_at fs1 (temp_path q suffix) \<noteq> None then (Inl FileExistsError, fs1)
         else
           (let fs2 = put_file (temp_path q suffix) payload (put_file (temp_path q suffix) [] fs1) in
            case replace_file (temp_path q suffix) q fs2 of
              Inl e \<Rightarrow> (Inl e, fs2)
            | Inr fs3 \<Rightarrow> (Inr q, fs3)))"
proof (cases "make_dirs fs (butlast q)")
  case (Inl e)
  with assms show ?thesis by (simp add: atomic_spool_def)
next
  case (Inr fs1)
  with assms entry_of_made [OF assms(2) Inr] show ?thesis
    by (simp add: atomic_spool_def spool_entry_def Let_def split: sum.split)
qed

lemma update_update: "AList.update k v (AList.update k v al) = AList.update k v al"
  by (induction al) auto

text \<open>The whole payload written by one call, or nothing for an empty payload.\<close>

lemma write_steps:
  "(spool_step payload q suffix)\<^sup>*\<^sup>*
     \<lparr>sp_fs = put_file (temp_path q suffix) [] fs, sp_phase = Writing 0\<rparr>
     \<lparr>sp_fs = put_file (temp_path q suffix) payload (put_file (temp_path q suffix) [] fs), sp_phase = Writing (length payload)\<rparr>"
proof (cases payload)
  case Nil
  then show ?thesis by (simp add: put_file_def update_update)
next
  case (Cons b bs)
  then have "spool_step payload q suffix
     \<lparr>sp_fs = put_file (temp_path q suffix) [] fs, sp_phase = Writing 0\<rparr>
     \<lparr>sp_fs = put_file (temp_path q suffix) (take (length payload) payload) (put_file (temp_path q suffix) [] fs), sp_phase = Writing (length payload)\<rparr>"
    by (intro append) simp_all
  then show ?thesis by simp
qed

text \<open>The outcome of \<open>atomic_spool\<close> is a state the steps reach, and a return is a publication.\<close>

lemma atomic_spool_steps:
  assumes q: "resolve fs output = Inr q" "canonical fs q" and run: "atomic_spool fs payload output suffix = (r, fs')"
  shows "\<exists>ph. (spool_step payload q suffix)\<^sup>*\<^sup>* \<lparr>sp_fs = fs, sp_phase = Making 0\<rparr> \<lparr>sp_fs = fs', sp_phase = ph\<rparr>
    \<and> (\<forall>q'. r = Inr q' \<longrightarrow> q' = q \<and> ph = Published)"
proof (cases "make_dirs fs (butlast q)")
  case (Inl e)
  with run show ?thesis by (auto simp: atomic_spool_canonical [OF q])
next
  case (Inr fs1)
  let ?t = "temp_path q suffix"
  let ?R = "(spool_step payload q suffix)\<^sup>*\<^sup>*"
  have dirs: "?R \<lparr>sp_fs = fs, sp_phase = Making 0\<rparr> \<lparr>sp_fs = fs1, sp_phase = Making (length (butlast q))\<rparr>"
    using make_dirs_steps [of "length (butlast q)"] Inr by (simp only: make_dirs_def order_refl)
  show ?thesis
  proof (cases "node_at fs1 ?t")
    case (Some n)
    with run Inr dirs show ?thesis by (auto simp: atomic_spool_canonical [OF q])
  next
    case None
    let ?fs2 = "put_file ?t payload (put_file ?t [] fs1)"
    have new: "spool_step payload q suffix \<lparr>sp_fs = fs1, sp_phase = Making (length (butlast q))\<rparr>
      \<lparr>sp_fs = put_file ?t [] fs1, sp_phase = Writing 0\<rparr>"
      by (rule create [OF refl None])
    have end_write: "spool_step payload q suffix \<lparr>sp_fs = ?fs2, sp_phase = Writing (length payload)\<rparr> \<lparr>sp_fs = ?fs2, sp_phase = Synced\<rparr>"
      by (rule sync [OF refl])
    have synced: "?R \<lparr>sp_fs = fs, sp_phase = Making 0\<rparr> \<lparr>sp_fs = ?fs2, sp_phase = Synced\<rparr>"
      using rtranclp.rtrancl_into_rtrancl [OF dirs new, THEN rtranclp_trans, OF write_steps]
      by (rule rtranclp.rtrancl_into_rtrancl) (rule end_write)
    show ?thesis
    proof (cases "replace_file ?t q ?fs2")
      case (Inl e)
      with run Inr None synced show ?thesis by (auto simp: atomic_spool_canonical [OF q] Let_def)
    next
      case fs3: (Inr fs3)
      then have "spool_step payload q suffix \<lparr>sp_fs = ?fs2, sp_phase = Synced\<rparr> \<lparr>sp_fs = fs3, sp_phase = Published\<rparr>"
        by (rule publish)
      with synced have "?R \<lparr>sp_fs = fs, sp_phase = Making 0\<rparr> \<lparr>sp_fs = fs3, sp_phase = Published\<rparr>" by simp
      moreover have "r = Inr q" "fs' = fs3" using run Inr None fs3 by (auto simp: atomic_spool_canonical [OF q] Let_def)
      ultimately show ?thesis by blast
    qed
  qed
qed

section \<open>Progress\<close>

text \<open>A call moves the run to a later phase, so no state comes back.\<close>

lemma phase_advances: "spool_step payload q suffix s t \<Longrightarrow> sp_phase s < sp_phase t"
  by (erule spool_stepE) (auto simp: less_phase_def)

lemma phases_advance: "(spool_step payload q suffix)\<^sup>+\<^sup>+ s t \<Longrightarrow> sp_phase s < sp_phase t"
  by (induction rule: tranclp_induct) (auto dest: phase_advances)

section \<open>Success\<close>

definition can_publish :: "fs \<Rightarrow> path \<Rightarrow> str \<Rightarrow> bool" where
  "can_publish fs q suffix \<longleftrightarrow>
     node_at fs q \<noteq> Some Dir \<and> node_at fs (temp_path q suffix) = None
     \<and> list_all (\<lambda>n. node_at fs (take n q) \<in> {None, Some Dir}) [1..<length q]"

text \<open>
  \<open>atomic_spool\<close> publishes exactly when the output is no directory, the
  temporary name is free, and no file is in the way of a directory.
\<close>

lemma atomic_spool_iff:
  assumes q: "resolve fs output = Inr q" and can: "canonical fs q"
  shows "(\<exists>fs'. atomic_spool fs payload output suffix = (Inr q, fs')) \<longleftrightarrow> can_publish fs q suffix"
proof (cases "q = []")
  case True
  then show ?thesis
    by (auto simp: can_publish_def node_at_def atomic_spool_canonical [OF q can] make_dirs_def Let_def replace_file_def
        split: option.splits)
next
  case False
  show ?thesis
  proof (cases "make_dirs fs (butlast q)")
    case (Inl e)
    have "\<not> list_all (\<lambda>n. node_at fs (take n q) \<in> {None, Some Dir}) [1..<length q]"
    proof
      assume "list_all (\<lambda>n. node_at fs (take n q) \<in> {None, Some Dir}) [1..<length q]"
      then have "node_at fs (take n (butlast q)) \<in> {None, Some Dir}" if "0 < n" "n \<le> length (butlast q)" for n
        using that by (simp add: list_all_iff take_butlast)
      from make_dirs_ok [OF canonical_butlast [OF can] this] Inl show False by auto
    qed
    then show ?thesis using Inl by (simp add: atomic_spool_canonical [OF q can] can_publish_def)
  next
    case (Inr fs1)
    note kept = make_dirs_kept [OF can False Inr]
    have dirs: "list_all (\<lambda>n. node_at fs (take n q) \<in> {None, Some Dir}) [1..<length q]"
      unfolding list_all_iff
    proof
      fix n assume "n \<in> set [1..<length q]"
      then have "0 < n" "n < length q" by auto
      then show "node_at fs (take n q) \<in> {None, Some Dir}"
        using kept(4) make_dirs_extends [OF Inr] unfolding extends_def by (metis insert_iff)
    qed
    show ?thesis
    proof (cases "node_at fs1 (temp_path q suffix)")
      case (Some n)
      then show ?thesis using Inr kept(2) by (auto simp: atomic_spool_canonical [OF q can] can_publish_def)
    next
      case None
      let ?fs2 = "put_file (temp_path q suffix) payload (put_file (temp_path q suffix) [] fs1)"
      have "node_at ?fs2 q = node_at fs q"
        using temp_path_neq [OF False, of suffix] kept(3) by (simp add: node_at_put_file)
      then show ?thesis
        using Inr None kept(2) dirs by (auto simp: atomic_spool_canonical [OF q can] can_publish_def Let_def replace_file_def node_at_put_file)
    qed
  qed
qed

end
