(* ===== verification/EmitProps.thy ===== *)
theory EmitProps
  imports EmitSpool
begin

text \<open>
  What \<open>scripts/emit-ocel.py\<close> guarantees: the two identity patterns as
  predicates, the admission of a receipt, the binding of the event's identity,
  the independence of the observation from the transport, and the atomic
  publication of the payload.
\<close>

section \<open>The identity patterns\<close>

definition repo_name :: "str \<Rightarrow> bool" where
  "repo_name s \<longleftrightarrow>
     (\<exists>a b. s = a @ [47] @ b \<and> a \<noteq> [] \<and> b \<noteq> [] \<and> (\<forall>c\<in>set a \<union> set b. c \<noteq> 47 \<and> \<not> is_py_space c))"

definition is_hex :: "nat \<Rightarrow> bool" where
  "is_hex c \<longleftrightarrow> 48 \<le> c \<and> c \<le> 57 \<or> 97 \<le> c \<and> c \<le> 102 \<or> 65 \<le> c \<and> c \<le> 70"

definition hex_sha :: "str \<Rightarrow> bool" where
  "hex_sha s \<longleftrightarrow> length s \<in> {40, 64} \<and> list_all is_hex s"

lemma hex_class_iff [simp]: "list_all (in_class hex_class) s \<longleftrightarrow> list_all is_hex s"
  by (simp add: hex_class_def span_item_def is_hex_def list_all_iff)

lemma matches_Many_exact:
  "list_all (in_class cls) w \<Longrightarrow> k \<le> length w \<Longrightarrow> after s = w @ rest \<Longrightarrow> matches (Many k cls) s (advance (length w) s)"
  by (rule matches.Many) simp_all

lemma SHA_RE_iff: "re_fullmatch SHA_RE s \<noteq> None \<longleftrightarrow> hex_sha s"
  unfolding re_fullmatch_iff SHA_RE_def
  by (auto simp: matches_exactly start_def hex_sha_def at_end_def advance_def)

lemma REPOSITORY_RE_iff: "re_fullmatch REPOSITORY_RE s \<noteq> None \<longleftrightarrow> repo_name s"
proof
  assume "re_fullmatch REPOSITORY_RE s \<noteq> None"
  then obtain t u v where t: "matches name_part (start s) t" "matches (literal ''/'') t u"
      "matches name_part u v" "after v = []"
    unfolding re_fullmatch_iff REPOSITORY_RE_def by (auto simp: start_def)
  from t(1,3) obtain a b where a: "moves (start s) a t" "Suc 0 \<le> length a" "list_all (in_class (none_of [char_item CHR ''/'', Space])) a"
    and b: "moves u b v" "Suc 0 \<le> length b" "list_all (in_class (none_of [char_item CHR ''/'', Space])) b"
    unfolding name_part_def by (metis One_nat_def matches_Many_moves)
  from t(2) obtain rest where "after t = lit ''/'' @ rest" "u = advance 1 t" by (auto simp: matches_literal)
  then have "after t = [47] @ rest" "after u = rest" by (simp_all add: lit_def)
  with a(1) b(1) t(4) have "s = a @ [47] @ b" by (simp add: moves_def start_def)
  moreover have "a \<noteq> []" "b \<noteq> []" using a(2) b(2) by auto
  moreover have "\<forall>c\<in>set a \<union> set b. c \<noteq> 47 \<and> \<not> is_py_space c"
    using a(3) b(3) by (auto simp: list_all_iff)
  ultimately show "repo_name s" unfolding repo_name_def by blast
next
  assume "repo_name s"
  then obtain a b where s: "s = a @ [47] @ b" "a \<noteq> []" "b \<noteq> []" "\<forall>c\<in>set a \<union> set b. c \<noteq> 47 \<and> \<not> is_py_space c"
    unfolding repo_name_def by blast
  then have cls: "list_all (in_class (none_of [char_item CHR ''/'', Space])) a" "list_all (in_class (none_of [char_item CHR ''/'', Space])) b"
    by (auto simp: list_all_iff)
  let ?t = "advance (length a) (start s)"
  have 1: "matches name_part (start s) ?t"
    unfolding name_part_def using cls(1) s(1,2) by (intro matches_Many_exact) (auto simp: start_def Suc_le_eq)
  have 2: "matches (literal ''/'') ?t (advance 1 ?t)"
    by (auto simp: matches_literal start_def s(1) lit_def)
  have 3: "matches name_part (advance 1 ?t) (advance (length b) (advance 1 ?t))"
    unfolding name_part_def using cls(2) s(1,3)
    by (intro matches_Many_exact [where rest = "[]"]) (auto simp: start_def Suc_le_eq)
  have "matches REPOSITORY_RE (start s) (advance (length b) (advance 1 ?t))"
    unfolding REPOSITORY_RE_def using 1 2 3 by (auto simp: start_def at_end_def s(1))
  then show "re_fullmatch REPOSITORY_RE s \<noteq> None"
    unfolding re_fullmatch_iff by (auto simp: start_def s(1))
qed

section \<open>Admission\<close>

definition receipt_admitted :: "bytes \<Rightarrow> str \<Rightarrow> str \<Rightarrow> bool" where
  "receipt_admitted raw commit claim \<longleftrightarrow>
     (\<exists>receipt codes v. loads_bytes raw = Inr (JObj receipt)
        \<and> fld receipt ''subject_sha'' = Some (JStr commit)
        \<and> fld receipt ''standing'' = Some (JStr claim)
        \<and> obj_field receipt ''exit_codes'' = Some codes
        \<and> fld codes ''mix_verify'' = Some v \<and> equals_zero v)"

lemma mix_verify_zero_iff:
  "mix_verify_zero receipt = Inr True \<longleftrightarrow>
     (\<exists>codes v. obj_field receipt ''exit_codes'' = Some codes \<and> fld codes ''mix_verify'' = Some v \<and> equals_zero v)"
  by (fastforce simp: mix_verify_zero_def res_dest get_or_def split: option.splits)

lemma Inr_and_true: "(\<exists>zero. m = Inr zero \<and> zero) \<longleftrightarrow> m = Inr True"
  by auto

lemma load_and_admit_iff:
  "(\<exists>receipt. load_and_admit_receipt fs p commit claim = Inr (receipt, raw, d)) \<longleftrightarrow>
     read_bytes fs p = Inr raw \<and> receipt_admitted raw commit claim \<and> d = sha256_bytes raw"
proof (cases "read_bytes fs p")
  case (Inl e)
  then show ?thesis by (simp add: load_and_admit_receipt_def is_file_def)
next
  case (Inr bs)
  have "(case loads_bytes bs of Inl JSONDecodeError \<Rightarrow> Inl (SystemExit (lit ''receipt is not valid JSON'')) | r \<Rightarrow> r) = Inr v
      \<longleftrightarrow> loads_bytes bs = Inr v" for v
    by (cases "loads_bytes bs") (auto split: exn.split)
  then show ?thesis
    using Inr by (auto simp: load_and_admit_receipt_def is_file_def res_dest receipt_admitted_def
        mix_verify_zero_iff Inr_and_true)
qed

section \<open>The encodings\<close>

text \<open>Without \<open>ensure_ascii\<close>, what can be encoded has no surrogate in any of its texts.\<close>

primrec json_texts :: "json \<Rightarrow> str list" where
  "json_texts JNull = []"
| "json_texts (JBool b) = []"
| "json_texts (JInt i) = []"
| "json_texts (JFloat f) = []"
| "json_texts (JStr s) = [s]"
| "json_texts (JArr xs) = concat (map json_texts xs)"
| "json_texts (JObj ps) = concat (map (\<lambda>p. fst p # snd p) (map (map_prod id json_texts) ps))"

lemma set_json_texts_sort: "set (json_texts (sort_json v)) = set (json_texts v)"
proof (induction v)
  case (JObj ps)
  have "set (json_texts (sort_json (JObj ps))) = (\<Union>p\<in>set ps. insert (fst p) (set (json_texts (sort_json (snd p)))))"
    by auto
  also have "\<dots> = (\<Union>p\<in>set ps. insert (fst p) (set (json_texts (snd p))))"
    using JObj.IH by (intro SUP_cong refl) (metis snds.intros)
  finally show ?case by auto
qed auto

lemma encode_string_text: "list_all is_scalar (encode_string False s) \<Longrightarrow> text_ok s"
proof -
  assume ok: "list_all is_scalar (encode_string False s)"
  have "is_scalar c" if "c \<in> set s" for c
  proof (rule ccontr)
    assume c: "\<not> is_scalar c"
    then have "encode_char False c = [c]" by (auto simp: encode_char_def is_scalar_def)
    with that ok c show False by (auto simp: encode_string_def list_all_iff)
  qed
  then show "text_ok s" by (simp add: text_ok_def list_all_iff)
qed

lemma dump_texts:
  "\<not> ensure_ascii cfg \<Longrightarrow> list_all is_scalar (dump cfg l v) \<Longrightarrow> list_all text_ok (json_texts v)"
  "\<not> ensure_ascii cfg \<Longrightarrow> list_all is_scalar (dump_items cfg l xs) \<Longrightarrow> list_all text_ok (concat (map json_texts xs))"
  "\<not> ensure_ascii cfg \<Longrightarrow> list_all is_scalar (dump_members cfg l ps) \<Longrightarrow>
     list_all text_ok (concat (map (\<lambda>p. fst p # snd p) (map (map_prod id json_texts) ps)))"
proof (induction cfg l v and cfg l xs and cfg l ps rule: dump_dump_items_dump_members.induct)
  case (5 cfg l s)
  then show ?case by (simp add: encode_string_text)
next
  case (11 cfg l p ps)
  then show ?case by (cases "ps = []") (simp_all add: encode_string_text)
qed (auto split: if_splits)

lemma utf8_encode_iff: "(\<exists>bs. utf8_encode s = Inr bs) \<longleftrightarrow> list_all is_scalar s"
  by (simp add: utf8_encode_def)

lemma dumps_encodes_texts:
  "\<not> ensure_ascii cfg \<Longrightarrow> utf8_encode (dumps cfg v) = Inr bs \<Longrightarrow> list_all text_ok (json_texts v)"
proof -
  assume "\<not> ensure_ascii cfg" "utf8_encode (dumps cfg v) = Inr bs"
  then have "list_all text_ok (json_texts (sort_json v))"
    using utf8_encode_iff [of "dumps cfg v"] dump_texts(1) by (auto simp: dumps_def)
  then show ?thesis using set_json_texts_sort [of v] by (simp add: list_all_iff)
qed

section \<open>The identity of the event\<close>

definition event_ids :: "json \<Rightarrow> str list" where
  "event_ids doc =
     (case the_obj doc of None \<Rightarrow> []
      | Some d \<Rightarrow> (case obj_field d ''events'' of None \<Rightarrow> [] | Some events \<Rightarrow> keys events))"

lemma canonical_digest_eq: "canonical_digest = canonical_hash"
  by (simp add: canonical_digest_def canonical_hash_def fun_eq_iff)

lemma build_ocel_event:
  "build_ocel now args d = Inr doc \<Longrightarrow>
   \<exists>digest. canonical_hash (identity_doc args d) = Inr digest \<and> event_ids doc = [lit ''verification:'' @ digest]"
  by (auto simp: build_ocel_def res_dest canonical_digest_eq Let_def event_ids_def obj_field_def)

text \<open>The fields of an identity, in a dictionary with nine distinct keys.\<close>

lemma identity_doc_ok:
  "canonical_hash (identity_doc args d) = Inr digest \<Longrightarrow> json_ok (identity_doc args d)"
proof -
  assume "canonical_hash (identity_doc args d) = Inr digest"
  then obtain bs where "utf8_encode (dumps compact_utf8 (identity_doc args d)) = Inr bs"
    by (auto simp: canonical_hash_def res_dest)
  then have "list_all text_ok (json_texts (identity_doc args d))"
    by (rule dumps_encodes_texts [rotated]) (simp add: compact_utf8_def)
  then show ?thesis by (simp add: identity_doc_def)
qed

lemma sort_json_texts_inject:
  assumes "sort_json (JObj ps) = sort_json (JObj qs)" "distinct (map fst ps)" "distinct (map fst qs)"
    "list_all (is_str \<circ> snd) ps" "list_all (is_str \<circ> snd) qs"
  shows "map_of ps = map_of qs"
proof -
  have str: "map (map_prod id sort_json) xs = xs" if "list_all (is_str \<circ> snd) xs" for xs :: "json dict"
    using that by (intro map_idI) (auto simp: list_all_iff elim!: is_str.elims)
  from assms(1) have "sort_key fst ps = sort_key fst qs"
    using str [OF assms(4)] str [OF assms(5)] by simp
  then have "set ps = set qs" by (metis set_sort)
  with assms(2,3) show ?thesis by (metis map_of_perm)
qed

lemma identity_doc_inject:
  "sort_json (identity_doc a d) = sort_json (identity_doc b e) \<Longrightarrow> identity_doc a d = identity_doc b e"
proof -
  assume eq: "sort_json (identity_doc a d) = sort_json (identity_doc b e)"
  define ps where "ps = (case identity_doc a d of JObj x \<Rightarrow> x)"
  define qs where "qs = (case identity_doc b e of JObj x \<Rightarrow> x)"
  have docs: "identity_doc a d = JObj ps" "identity_doc b e = JObj qs"
    by (simp_all add: ps_def qs_def identity_doc_def)
  have "map_of ps = map_of qs"
    using eq unfolding docs by (rule sort_json_texts_inject) (simp_all add: ps_def qs_def identity_doc_def)
  then have "map_of ps k = map_of qs k" for k by simp
  from this [of "lit ''activity''"] this [of "lit ''standing''"] this [of "lit ''authority_domain''"]
    this [of "lit ''agent_id''"] this [of "lit ''run_id''"] this [of "lit ''sequence''"]
    this [of "lit ''repo''"] this [of "lit ''sha''"] this [of "lit ''receipt_sha256''"]
  show ?thesis by (simp add: ps_def qs_def identity_doc_def)
qed

text \<open>What an observation is identified by.\<close>

definition identity_of :: "emit_args \<Rightarrow> str \<Rightarrow> str list" where
  "identity_of args d = [activity args, standing args, authority_domain args, agent_id args, run_id args,
     sequence_no args, repo args, sha args, d]"

lemma identity_doc_iff: "identity_doc a d = identity_doc b e \<longleftrightarrow> identity_of a d = identity_of b e"
  by (auto simp: identity_doc_def identity_of_def)

text \<open>C21: the identifier of the event is bound to the identity and to nothing else: two
  observations have one identifier exactly when activity, standing, authority,
  agent, run, sequence, repository, revision and receipt digest agree, whatever
  the clock says, unless the payloads of the two identities collide.\<close>

theorem event_identity_binds:
  assumes "build_ocel now args d = Inr doc" "build_ocel now' args' d' = Inr doc'"
  shows "event_ids doc = event_ids doc' \<longleftrightarrow>
    identity_of args d = identity_of args' d'
    \<or> sha256_collision (canonical_payload (identity_doc args d)) (canonical_payload (identity_doc args' d'))"
proof -
  obtain h where h: "canonical_hash (identity_doc args d) = Inr h" "event_ids doc = [lit ''verification:'' @ h]"
    using build_ocel_event [OF assms(1)] by blast
  obtain h' where h': "canonical_hash (identity_doc args' d') = Inr h'" "event_ids doc' = [lit ''verification:'' @ h']"
    using build_ocel_event [OF assms(2)] by blast
  have pay: "sha256_bytes (canonical_payload (identity_doc args d)) = h"
    "sha256_bytes (canonical_payload (identity_doc args' d')) = h'"
    using h(1) h'(1) by (auto simp: canonical_hash_def canonical_payload_def res_dest)
  show ?thesis
    unfolding identity_doc_iff [symmetric]
  proof
    assume "event_ids doc = event_ids doc'"
    then have "h = h'" using h(2) h'(2) by simp
    then show "identity_doc args d = identity_doc args' d'
      \<or> sha256_collision (canonical_payload (identity_doc args d)) (canonical_payload (identity_doc args' d'))"
      using canonical_hash_eq [OF h(1), of "identity_doc args' d'"] h'(1)
        identity_doc_ok [OF h(1)] identity_doc_ok [OF h'(1)] identity_doc_inject by blast
  next
    assume "identity_doc args d = identity_doc args' d'
      \<or> sha256_collision (canonical_payload (identity_doc args d)) (canonical_payload (identity_doc args' d'))"
    then have "h = h'" using h(1) h'(1) pay by (auto simp: sha256_collision_def)
    then show "event_ids doc = event_ids doc'" using h(2) h'(2) by simp
  qed
qed

section \<open>The payload\<close>

definition normal_args :: "emit_args \<Rightarrow> emit_args" where
  "normal_args args = args\<lparr>activity := strip (activity args), agent_id := strip (agent_id args),
     run_id := strip (run_id args), sequence_no := strip (sequence_no args),
     repo := strip (repo args), sha := lower (strip (sha args))\<rparr>"

definition args_admissible :: "emit_args \<Rightarrow> bool" where
  "args_admissible args \<longleftrightarrow>
     list_all (\<lambda>t. strip t \<noteq> []) [activity args, agent_id args, run_id args, sequence_no args]
     \<and> repo_name (strip (repo args)) \<and> hex_sha (lower (strip (sha args)))"

lemma hex_sha_nonempty: "hex_sha (lower s) \<Longrightarrow> s \<noteq> []"
  by (auto simp: hex_sha_def lower_def)

lemma repo_name_nonempty: "repo_name s \<Longrightarrow> s \<noteq> []"
  by (auto simp: repo_name_def)

lemma normalise_args_iff: "normalise_args args = Inr a \<longleftrightarrow> args_admissible args \<and> a = normal_args args"
  using SHA_RE_iff REPOSITORY_RE_iff
  by (auto simp: normalise_args_def require_nonempty_def Let_def args_admissible_def normal_args_def
      res_dest dest: hex_sha_nonempty repo_name_nonempty)

text \<open>The texts that go into the document as they are.\<close>

definition emit_texts :: "str \<Rightarrow> emit_args \<Rightarrow> str list" where
  "emit_texts now args = [activity args, standing args, authority_domain args, agent_id args, run_id args,
     sequence_no args, repo args, replace_all (lit ''+00:00'') (lit ''Z'') now]"

lemma hex_sha_text: "hex_sha s \<Longrightarrow> text_ok s"
  by (auto simp: hex_sha_def text_ok_def list_all_iff is_hex_def is_scalar_def)

lemma encode_json_ok: "layout_clean cfg \<Longrightarrow> json_ok v \<Longrightarrow> \<exists>bs. utf8_encode (dumps cfg v @ [10]) = Inr bs"
proof -
  assume "layout_clean cfg" "json_ok v"
  then have "list_all clean (dumps cfg v @ [10])" by (simp add: dumps_clean)
  then show ?thesis by (rule write_clean) blast
qed

lemma encode_document_texts: "encode_document doc = Inr payload \<Longrightarrow> list_all text_ok (json_texts doc)"
proof -
  assume "encode_document doc = Inr payload"
  then have "list_all is_scalar (dumps indented_utf8 doc @ [10])"
    unfolding encode_document_def by (subst utf8_encode_iff [symmetric]) blast
  then obtain bs where "utf8_encode (dumps indented_utf8 doc) = Inr bs" using utf8_encode_iff by auto
  then show ?thesis by (rule dumps_encodes_texts [rotated]) (simp add: indented_utf8_def)
qed

text \<open>The document can be built and encoded exactly when its texts hold no surrogate.\<close>

lemma document_ok:
  assumes "build_ocel now args d = Inr doc" "list_all text_ok (emit_texts now args)" "text_ok (sha args)" "text_ok d"
  shows "json_ok doc"
proof -
  from assms(1) obtain digest where digest: "canonical_digest (identity_doc args d) = Inr digest" "text_ok digest"
    by (auto simp: build_ocel_def res_dest canonical_digest_def)
  from assms digest show ?thesis
    by (auto simp: build_ocel_def res_dest Let_def emit_texts_def subject_id_def run_object_id_def
        receipt_object_id_def) (simp_all add: lit_def)
qed

lemma build_ocel_texts:
  assumes "build_ocel now args d = Inr doc" "list_all text_ok (json_texts doc)"
  shows "list_all text_ok (emit_texts now args)"
  using assms by (auto simp: build_ocel_def res_dest Let_def emit_texts_def)

lemma build_ocel_total:
  assumes "list_all text_ok (emit_texts now args)" "text_ok (sha args)" "text_ok d"
  obtains doc payload where "build_ocel now args d = Inr doc" "encode_document doc = Inr payload"
proof -
  have "json_ok (identity_doc args d)"
    using assms by (simp add: identity_doc_def emit_texts_def)
  then obtain bs where "utf8_encode (dumps compact_utf8 (identity_doc args d)) = Inr bs"
    using dumps_clean [of compact_utf8] write_clean by (metis layouts_clean(2))
  then obtain doc where doc: "build_ocel now args d = Inr doc"
    by (auto simp: build_ocel_def canonical_digest_def Let_def)
  then have "json_ok doc" using assms by (rule document_ok)
  then obtain payload where "encode_document doc = Inr payload"
    unfolding encode_document_def using encode_json_ok by (metis layouts_clean(4))
  with doc show thesis by (rule that)
qed

definition emit_admissible :: "world \<Rightarrow> emit_args \<Rightarrow> bool" where
  "emit_admissible w args \<longleftrightarrow>
     choices_ok args \<and> args_admissible args
     \<and> (\<exists>raw. read_bytes (w_fs w) (join_path (w_cwd w) (receipt_path args)) = Inr raw
          \<and> receipt_admitted raw (lower (strip (sha args))) (standing args))
     \<and> list_all text_ok (emit_texts (w_now w) (normal_args args))"

lemma normal_args_simps [simp]:
  "sha (normal_args args) = lower (strip (sha args))" "standing (normal_args args) = standing args"
  "receipt_path (normal_args args) = receipt_path args" "output_path (normal_args args) = output_path args"
  by (simp_all add: normal_args_def)

text \<open>What \<open>main\<close> writes, when it comes to writing.\<close>

lemma emit_payload_Inr:
  "emit_payload w args = Inr (a, d, payload) \<longleftrightarrow>
     emit_admissible w args \<and> a = normal_args args
     \<and> (\<exists>raw doc. read_bytes (w_fs w) (join_path (w_cwd w) (receipt_path args)) = Inr raw
          \<and> d = sha256_bytes raw \<and> build_ocel (w_now w) a d = Inr doc \<and> encode_document doc = Inr payload)"
proof
  assume "emit_payload w args = Inr (a, d, payload)"
  then obtain receipt raw doc where r: "choices_ok args" "normalise_args args = Inr a"
      "load_and_admit_receipt (w_fs w) (join_path (w_cwd w) (receipt_path a)) (sha a) (standing a) = Inr (receipt, raw, d)"
      "build_ocel (w_now w) a d = Inr doc" "encode_document doc = Inr payload"
    by (auto simp: emit_payload_def res_dest)
  then have a: "args_admissible args" "a = normal_args args" by (simp_all add: normalise_args_iff)
  moreover have raw: "read_bytes (w_fs w) (join_path (w_cwd w) (receipt_path args)) = Inr raw"
    "receipt_admitted raw (lower (strip (sha args))) (standing args)" "d = sha256_bytes raw"
    using r(3) load_and_admit_iff a(2) by (metis normal_args_simps(1-3))+
  moreover have "list_all text_ok (emit_texts (w_now w) a)"
    using r(4) encode_document_texts [OF r(5)] by (rule build_ocel_texts)
  ultimately show "emit_admissible w args \<and> a = normal_args args
     \<and> (\<exists>raw doc. read_bytes (w_fs w) (join_path (w_cwd w) (receipt_path args)) = Inr raw
          \<and> d = sha256_bytes raw \<and> build_ocel (w_now w) a d = Inr doc \<and> encode_document doc = Inr payload)"
    using r(1,4,5) unfolding emit_admissible_def by blast
next
  assume asm: "emit_admissible w args \<and> a = normal_args args
     \<and> (\<exists>raw doc. read_bytes (w_fs w) (join_path (w_cwd w) (receipt_path args)) = Inr raw
          \<and> d = sha256_bytes raw \<and> build_ocel (w_now w) a d = Inr doc \<and> encode_document doc = Inr payload)"
  then obtain raw doc where raw: "read_bytes (w_fs w) (join_path (w_cwd w) (receipt_path args)) = Inr raw"
      "d = sha256_bytes raw" "build_ocel (w_now w) a d = Inr doc" "encode_document doc = Inr payload"
    by blast
  with asm have "receipt_admitted raw (lower (strip (sha args))) (standing args)"
    unfolding emit_admissible_def by (metis sum.inject(2))
  then obtain receipt where "load_and_admit_receipt (w_fs w) (join_path (w_cwd w) (receipt_path args))
      (lower (strip (sha args))) (standing args) = Inr (receipt, raw, d)"
    using raw(1,2) load_and_admit_iff by metis
  moreover have "normalise_args args = Inr a" using asm by (simp add: normalise_args_iff emit_admissible_def)
  ultimately show "emit_payload w args = Inr (a, d, payload)"
    using raw asm by (simp add: emit_payload_def emit_admissible_def)
qed

lemma emit_payload_iff: "(\<exists>a d payload. emit_payload w args = Inr (a, d, payload)) \<longleftrightarrow> emit_admissible w args"
proof
  assume adm: "emit_admissible w args"
  then obtain raw where raw: "read_bytes (w_fs w) (join_path (w_cwd w) (receipt_path args)) = Inr raw"
    unfolding emit_admissible_def by blast
  have "text_ok (sha (normal_args args))"
    using adm by (simp add: emit_admissible_def args_admissible_def hex_sha_text)
  then obtain doc payload where "build_ocel (w_now w) (normal_args args) (sha256_bytes raw) = Inr doc"
      "encode_document doc = Inr payload"
    using adm build_ocel_total [of "w_now w" "normal_args args" "sha256_bytes raw"]
    by (auto simp: emit_admissible_def)
  with adm raw show "\<exists>a d payload. emit_payload w args = Inr (a, d, payload)"
    unfolding emit_payload_Inr by blast
qed (auto simp: emit_payload_Inr)

text \<open>C20: the relay fails closed, and only then: it stops before any write, with an exception and the
  file system untouched, exactly when the standing or the
  authority is none of the known ones, an argument is blank, the repository or
  the revision is no identity, a text cannot be encoded, or the receipt is not an
  admitted one (a JSON object about this revision and this standing that reports
  a zero exit of \<open>mix_verify\<close>).\<close>

theorem emit_fails_closed:
  "(\<exists>e. emit_payload w args = Inl e \<and> emit_main w args = (Inl e, w_fs w)) \<longleftrightarrow> \<not> emit_admissible w args"
proof (cases "emit_payload w args")
  case (Inl e)
  then have "\<not> emit_admissible w args" using emit_payload_iff [of w args] by auto
  with Inl show ?thesis by (simp add: emit_main_def)
next
  case (Inr r)
  then have "emit_admissible w args" using emit_payload_iff [of w args] by (cases r) auto
  with Inr show ?thesis by simp
qed

section \<open>Publication\<close>

text \<open>C22: on an output path whose links make no loop, no reader and no crash sees a torn observation: after any number of system calls of a
  spool run, the output is as it was or holds the whole payload, the temporary
  file holds what has been written so far (and is gone after publication), and
  no other file has changed.\<close>

theorem spool_never_torn:
  assumes "resolve fs output = Inr q" "loop_free fs output" "q \<noteq> []"
    and "(spool_step payload q suffix)\<^sup>*\<^sup>* \<lparr>sp_fs = fs, sp_phase = Making 0\<rparr> s"
  shows "(node_at (sp_fs s) q = node_at fs q \<or> node_at (sp_fs s) q = Some (File payload))
    \<and> temp_holds fs payload q suffix (sp_fs s) (sp_phase s) \<and> others_kept fs q suffix (sp_fs s)"
proof -
  have start: "spool_inv fs payload q suffix \<lparr>sp_fs = fs, sp_phase = Making 0\<rparr>"
    using resolve_canonical [OF assms(1,2)] assms(3) by (rule spool_inv_start)
  show ?thesis
    using spooling.view_reachable [OF assms(4) start] spooling.inv_reachable [OF assms(4) start]
    by (simp add: spool_inv_def)
qed

lemma atomic_spool_published:
  assumes "resolve fs output = Inr q" "canonical fs q" "q \<noteq> []" "atomic_spool fs payload output suffix = (Inr q', fs')"
  shows "q' = q \<and> node_at fs' q = Some (File payload) \<and> node_at fs' (temp_path q suffix) = None
    \<and> others_kept fs q suffix fs'"
proof -
  have start: "spool_inv fs payload q suffix \<lparr>sp_fs = fs, sp_phase = Making 0\<rparr>"
    using assms(2,3) by (rule spool_inv_start)
  from atomic_spool_steps [OF assms(1,2,4)]
  have "(spool_step payload q suffix)\<^sup>*\<^sup>* \<lparr>sp_fs = fs, sp_phase = Making 0\<rparr> \<lparr>sp_fs = fs', sp_phase = Published\<rparr>" "q' = q"
    by auto
  from this(2) spooling.inv_reachable [OF this(1) start] show ?thesis by (simp add: spool_inv_def)
qed

lemma atomic_spool_failed:
  assumes "resolve fs output = Inr q" "canonical fs q" "atomic_spool fs payload output suffix = (Inl e, fs')"
  shows "node_at fs' q = node_at fs q"
proof (cases "q = []")
  case True
  then show ?thesis by (simp add: node_at_def)
next
  case False
  show ?thesis
  proof (cases "make_dirs fs (butlast q)")
    case (Inl e)
    with assms(3) show ?thesis by (simp add: atomic_spool_canonical [OF assms(1,2)])
  next
    case (Inr fs1)
    note kept = make_dirs_kept(3) [OF assms(2) False Inr]
    show ?thesis
    proof (cases "node_at fs1 (temp_path q suffix)")
      case None
      let ?fs2 = "put_file (temp_path q suffix) payload (put_file (temp_path q suffix) [] fs1)"
      have "fs' = ?fs2"
        using assms(3) Inr None by (auto simp: atomic_spool_canonical [OF assms(1,2)] Let_def split: sum.splits)
      then show ?thesis using kept temp_path_neq [OF False, of suffix] by (simp add: node_at_put_file)
    next
      case (Some n)
      with assms(3) Inr kept show ?thesis by (auto simp: atomic_spool_canonical [OF assms(1,2)])
    qed
  qed
qed

text \<open>C23: on an output path whose links make no loop \<open>atomic_spool\<close> is a run of the system calls: what it leaves behind is a state they reach;
  when it returns, the run is complete, the output holds the payload and the
  temporary file is gone, and when it raises, the output is as it was.\<close>

theorem spool_refines_steps:
  assumes "resolve fs output = Inr q" "loop_free fs output" "q \<noteq> []"
    and "atomic_spool fs payload output suffix = (r, fs')"
  shows "\<exists>ph. (spool_step payload q suffix)\<^sup>*\<^sup>* \<lparr>sp_fs = fs, sp_phase = Making 0\<rparr> \<lparr>sp_fs = fs', sp_phase = ph\<rparr>
    \<and> (case r of
         Inr q' \<Rightarrow> q' = q \<and> ph = Published \<and> node_at fs' q = Some (File payload)
           \<and> node_at fs' (temp_path q suffix) = None
       | Inl e \<Rightarrow> node_at fs' q = node_at fs q)"
proof -
  have can: "canonical fs q" using assms(1,2) by (rule resolve_canonical)
  obtain ph where run: "(spool_step payload q suffix)\<^sup>*\<^sup>* \<lparr>sp_fs = fs, sp_phase = Making 0\<rparr> \<lparr>sp_fs = fs', sp_phase = ph\<rparr>"
    "\<forall>q'. r = Inr q' \<longrightarrow> q' = q \<and> ph = Published"
    using atomic_spool_steps [OF assms(1) can assms(4)] by blast
  show ?thesis
  proof (cases r)
    case (Inl e)
    have "node_at fs' q = node_at fs q" by (rule atomic_spool_failed [OF assms(1) can assms(4) [unfolded Inl]])
    with run(1) Inl show ?thesis by (intro exI [of _ ph]) simp
  next
    case (Inr q')
    with run(2) have "q' = q" "ph = Published" by simp_all
    with run(1) Inr atomic_spool_published [OF assms(1) can assms(3,4) [unfolded Inr]] show ?thesis
      by (intro exI [of _ Published]) simp
  qed
qed

text \<open>C25: on an output path whose links make no loop the spool succeeds exactly when the output is no directory, the temporary name is free and
  no file or link stands where a directory is needed; then the output holds the
  payload and other files are as before.\<close>

theorem spool_succeeds_iff:
  assumes "resolve fs output = Inr q" "loop_free fs output" "q \<noteq> []"
  shows "(\<exists>fs'. atomic_spool fs payload output suffix = (Inr q, fs')
      \<and> node_at fs' q = Some (File payload) \<and> others_kept fs q suffix fs')
    \<longleftrightarrow> can_publish fs q suffix"
  using resolve_canonical [OF assms(1,2)] atomic_spool_iff [OF assms(1)]
    atomic_spool_published [OF assms(1) _ assms(3)] by blast

text \<open>
  Whatever the links, a spool that returns has put the payload into a directory
  entry and its temporary file is gone; without a loop the entry is the path it returns.
\<close>

lemma atomic_spool_holds:
  assumes run: "atomic_spool fs payload output suffix = (Inr q, fs')"
  obtains target where "node_at fs' target = Some (File payload)" "node_at fs' (temp_path target suffix) = None"
    "loop_free fs output \<longrightarrow> target = q"
proof -
  from run have q: "resolve fs output = Inr q"
    by (cases "resolve fs output") (auto simp: atomic_spool_def split: sum.splits prod.splits)
  from run obtain fs1 target where made: "make_dirs fs (butlast q) = Inr fs1" "entry_of fs1 q = Inr target"
    and entry: "spool_entry fs1 payload target suffix = (Inr (), fs')"
    by (auto simp: atomic_spool_def q split: sum.splits prod.splits)
  let ?t = "temp_path target suffix"
  let ?fs2 = "put_file ?t payload (put_file ?t [] fs1)"
  from entry have r: "replace_file ?t target ?fs2 = Inr fs'"
    by (auto simp: spool_entry_def Let_def split: if_splits sum.splits)
  then have ne: "target \<noteq> []" by (auto simp: replace_file_def split: option.splits if_splits)
  note nodes = replace_file_node_at [OF r temp_path_neq [OF ne] temp_path_neq_Nil ne]
  show thesis
  proof (rule that)
    show "node_at fs' target = Some (File payload)" "node_at fs' ?t = None"
      using temp_path_neq [OF ne, of suffix] by (simp_all add: nodes node_at_put_file)
    show "loop_free fs output \<longrightarrow> target = q"
      using entry_of_made [OF resolve_canonical [OF q] made(1)] made(2) by simp
  qed
qed

section \<open>The transport\<close>

text \<open>The same world with another network configuration.\<close>

definition with_network :: "(str \<Rightarrow> str option) \<Rightarrow> endpoint \<Rightarrow> world \<Rightarrow> world" where
  "with_network env e w = w\<lparr>w_environ := (\<lambda>k. if k = lit ''OCEL_SPOOL_DIR'' then w_environ w k else env k),
     w_endpoint := e\<rparr>"

text \<open>C26: external transport never changes the observation: whatever ingest URL and token are
  configured and however the endpoint answers, the relay leaves the same file system.\<close>

theorem transport_changes_nothing:
  "snd (emit_main (with_network env e w) args) = snd (emit_main w args)"
proof -
  have "emit_payload (with_network env e w) args = emit_payload w args"
    by (simp add: emit_payload_def with_network_def)
  moreover have "spool_target (with_network env e w) a d = spool_target w a d" for a d
    by (simp add: spool_target_def with_network_def cong: option.case_cong)
  ultimately show ?thesis
    by (simp add: emit_main_def with_network_def split: sum.split prod.split)
qed

lemma post_if_configured_Inr:
  assumes "post_if_configured bad_host e env payload = Inr transport"
  shows "transport = lit ''spool''
   \<or> transport = lit ''spool+http'' \<and> (\<exists>request status. e request = Inr status \<and> 200 \<le> status \<and> status < 300
        \<and> req_body request = payload \<and> req_url request = strip (the (env (lit ''OCEL_INGEST_URL''))))"
proof (cases "env (lit ''OCEL_INGEST_URL'') = None \<or> strip (the (env (lit ''OCEL_INGEST_URL''))) = []")
  case True
  then have "strip (case env (lit ''OCEL_INGEST_URL'') of None \<Rightarrow> [] | Some v \<Rightarrow> v) = []"
    by (auto simp: strip_def split: option.split)
  then show ?thesis using assms by (simp add: post_if_configured_def)
next
  case False
  then obtain url where url: "env (lit ''OCEL_INGEST_URL'') = Some url" "strip url \<noteq> []" by auto
  define request where "request token = \<lparr>req_url = strip url, req_body = payload, req_headers = request_headers token\<rparr>"
    for token
  from assms url obtain token where "(case e (request token) of
        Inl message \<Rightarrow> Inl (SystemExit (lit ''OCEL ingest failed after local spool: '' @ message))
      | Inr status \<Rightarrow>
          if status < 200 \<or> 300 \<le> status
          then Inl (SystemExit (lit ''OCEL ingest returned HTTP '' @ dec_int status))
          else Inr (lit ''spool+http'')) = Inr transport"
    by (auto simp: post_if_configured_def Let_def res_dest request_def)
  then obtain status where "e (request token) = Inr status" "200 \<le> status" "status < 300" "transport = lit ''spool+http''"
    by (auto split: sum.splits if_splits)
  moreover have "req_body (request token) = payload" "req_url (request token) = strip url"
    by (simp_all add: request_def)
  ultimately show ?thesis using url(1) by auto
qed

text \<open>C27: a reported success is true: a directory entry, which is the output the report names when
  its links make no loop, holds the bytes whose digest the
  report states, the receipt digest is the one of the receipt's bytes, the temporary file
  is gone, and a reported delivery is an
  answer in the two hundreds to exactly these bytes sent to the configured URL.\<close>

theorem emit_report_true:
  assumes "emit_main w args = (Inr out, fs')"
  shows "\<exists>q target payload transport raw.
    out = dumps one_line (JObj
      [(lit ''status'', JStr (lit ''ALIVE'')), (lit ''transport'', JStr transport),
       (lit ''output'', JStr ([47] @ join_with [47] q)), (lit ''payload_sha256'', JStr (sha256_bytes payload)),
       (lit ''receipt_sha256'', JStr (sha256_bytes raw))]) @ [10]
    \<and> read_bytes (w_fs w) (join_path (w_cwd w) (receipt_path args)) = Inr raw
    \<and> node_at fs' target = Some (File payload) \<and> node_at fs' (temp_path target (w_suffix w)) = None
    \<and> (loop_free (w_fs w) (spool_target w (normal_args args) (sha256_bytes raw)) \<longrightarrow> target = q)
    \<and> (transport = lit ''spool''
       \<or> transport = lit ''spool+http'' \<and> (\<exists>request status. w_endpoint w request = Inr status
            \<and> 200 \<le> status \<and> status < 300 \<and> req_body request = payload
            \<and> req_url request = strip (the (w_environ w (lit ''OCEL_INGEST_URL'')))))"
proof -
  from assms obtain a d payload q transport where main: "emit_payload w args = Inr (a, d, payload)"
      "atomic_spool (w_fs w) payload (spool_target w a d) (w_suffix w) = (Inr q, fs')"
      "post_if_configured (w_bad_host w) (w_endpoint w) (w_environ w) payload = Inr transport"
      "out = dumps one_line (emit_report transport q payload d) @ [10]"
    by (auto simp: emit_main_def split: sum.splits prod.splits)
  from main(2) obtain target where spooled: "node_at fs' target = Some (File payload)"
      "node_at fs' (temp_path target (w_suffix w)) = None"
      "loop_free (w_fs w) (spool_target w a d) \<longrightarrow> target = q"
    by (rule atomic_spool_holds)
  obtain raw where raw: "read_bytes (w_fs w) (join_path (w_cwd w) (receipt_path args)) = Inr raw" "d = sha256_bytes raw"
      "a = normal_args args"
    using main(1) unfolding emit_payload_Inr by blast
  from spooled [unfolded raw(2,3)] post_if_configured_Inr [OF main(3)] raw main(4) [unfolded emit_report_def posix_path_def raw(2)]
  show ?thesis by blast
qed

section \<open>The payload reads back\<close>

lemma payload_loads:
  assumes "emit_payload w args = Inr (a, d, payload)"
  shows "\<exists>doc. build_ocel (w_now w) a d = Inr doc \<and> json_ok doc \<and> loads_bytes payload = Inr (sort_json doc)"
proof -
  from assms obtain raw doc where adm: "emit_admissible w args" "a = normal_args args" "d = sha256_bytes raw"
    and doc: "build_ocel (w_now w) a d = Inr doc" "encode_document doc = Inr payload"
    unfolding emit_payload_Inr by blast
  have "text_ok (sha a)" using adm by (simp add: emit_admissible_def args_admissible_def hex_sha_text)
  then have ok: "json_ok doc"
    using document_ok [OF doc(1)] adm by (simp add: emit_admissible_def)
  from doc(1) obtain m ms where obj: "doc = JObj (m # ms)"
    by (auto simp: build_ocel_def res_dest Let_def)
  have ne: "sort_key fst (map (map_prod id sort_json) (m # ms)) \<noteq> []" by simp
  then obtain r where chars: "dumps indented_utf8 doc @ [10] = 123 # 10 # r"
    by (simp add: obj dumps_def newline_at_def indented_utf8_def indented_def)
  have "loads_bytes payload = loads (dumps indented_utf8 doc @ [10])"
    using doc(2) unfolding encode_document_def by (rule loads_bytes_text [OF _ chars]) simp_all
  also have "\<dots> = Inr (sort_json doc)"
    unfolding dumps_def by (rule loads_dump_line) (simp_all add: json_ok_sort_json ok)
  finally show ?thesis using doc(1) ok by blast
qed

text \<open>C36: what the relay publishes is the observation: when it reports success, the file it wrote (the one its
  output path resolves to when the links make no loop) reads back, by \<open>json.loads\<close> on
  its bytes, as the observation built from the clock, the arguments and the digest
  of the receipt, with its keys sorted.\<close>

theorem published_observation_reads_back:
  assumes "emit_main w args = (Inr out, fs')"
  shows "\<exists>raw doc target bs.
    read_bytes (w_fs w) (join_path (w_cwd w) (receipt_path args)) = Inr raw
    \<and> build_ocel (w_now w) (normal_args args) (sha256_bytes raw) = Inr doc
    \<and> node_at fs' target = Some (File bs) \<and> loads_bytes bs = Inr (sort_json doc)
    \<and> (loop_free (w_fs w) (spool_target w (normal_args args) (sha256_bytes raw))
       \<longrightarrow> resolve (w_fs w) (spool_target w (normal_args args) (sha256_bytes raw)) = Inr target)"
proof -
  from assms obtain a d payload q where main: "emit_payload w args = Inr (a, d, payload)"
      "atomic_spool (w_fs w) payload (spool_target w a d) (w_suffix w) = (Inr q, fs')"
    by (auto simp: emit_main_def split: sum.splits prod.splits)
  from main(2) obtain target where spooled: "node_at fs' target = Some (File payload)"
      "loop_free (w_fs w) (spool_target w a d) \<longrightarrow> target = q"
    by (rule atomic_spool_holds)
  have "resolve (w_fs w) (spool_target w a d) = Inr q"
    using main(2) by (cases "resolve (w_fs w) (spool_target w a d)")
      (auto simp: atomic_spool_def split: sum.splits prod.splits)
  moreover obtain raw where raw: "read_bytes (w_fs w) (join_path (w_cwd w) (receipt_path args)) = Inr raw" "d = sha256_bytes raw"
      "a = normal_args args"
    using main(1) unfolding emit_payload_Inr by blast
  moreover obtain doc where "build_ocel (w_now w) a d = Inr doc" "loads_bytes payload = Inr (sort_json doc)"
    using payload_loads [OF main(1)] by blast
  ultimately show ?thesis using spooled by blast
qed

lemma replace_all_short: "length s < length old \<Longrightarrow> replace_all old new s = s"
proof (induction s)
  case (Cons c s)
  then have "\<not> starts_with old (c # s)" by (auto simp: starts_with_iff dest!: arg_cong [where f = length])
  with Cons show ?case by (subst replace_all.simps) simp
qed (simp add: replace_all.simps)

section \<open>A run of the relay\<close>

definition ex_sha :: str where
  "ex_sha = replicate 40 97"

definition ex_emit_receipt :: "json \<Rightarrow> json dict" where
  "ex_emit_receipt v =
     [(lit ''exit_codes'', JObj [(lit ''mix_verify'', v)]),
      (lit ''standing'', JStr (lit ''ALIVE'')), (lit ''subject_sha'', JStr ex_sha)]"

definition ex_receipt_bytes :: "json \<Rightarrow> bytes" where
  "ex_receipt_bytes v = map of_nat (dump compact 0 (JObj (ex_emit_receipt v)))"

definition ex_args :: emit_args where
  "ex_args = \<lparr>activity = lit ''verify'', standing = lit ''ALIVE'', authority_domain = lit ''VERIFY'',
     agent_id = lit ''agent'', run_id = lit ''7'', sequence_no = lit ''1'', repo = lit ''o/n'',
     sha = ex_sha, receipt_path = lit ''r'', output_path = Some (lit ''o'')\<rparr>"

definition ex_emit_world :: world where
  "ex_emit_world = \<lparr>w_fs = [([lit ''r''], File (ex_receipt_bytes (JInt 0)))], w_cwd = [], w_now = lit ''t'',
     w_suffix = lit ''x'', w_environ = (\<lambda>_. None), w_bad_host = (\<lambda>_. False), w_endpoint = (\<lambda>_. Inr 200)\<rparr>"

lemma ascii_encode: "list_all (\<lambda>c. c < 128) s \<Longrightarrow> utf8_encode s = Inr (map of_nat s)"
proof -
  assume s: "list_all (\<lambda>c. c < 128) s"
  then have "concat (map utf8_of_cp s) = s" "list_all is_scalar s"
    by (induction s) (simp_all add: utf8_of_cp_def is_scalar_def)
  then show ?thesis by (simp add: utf8_encode_def)
qed

lemma ex_receipt_loads:
  assumes "v \<in> {JInt 0, JBool False}"
  shows "loads_bytes (ex_receipt_bytes v) = Inr (JObj (ex_emit_receipt v))"
proof -
  have ok: "json_ok (JObj (ex_emit_receipt v))"
    using assms by (auto simp: ex_emit_receipt_def ex_sha_def text_ok_def is_scalar_def list_all_iff)
      (auto simp: lit_def)
  have "list_all (\<lambda>c. c < 128) (dump compact 0 (JObj (ex_emit_receipt v)))"
    using assms by (auto simp: ex_emit_receipt_def compact_def encode_string_def newline_at_def
        encode_char_def ex_sha_def lit_def dec_int_def list_all_iff)
  then have enc: "utf8_encode (dump compact 0 (JObj (ex_emit_receipt v))) = Inr (ex_receipt_bytes v)"
    unfolding ex_receipt_bytes_def by (rule ascii_encode)
  obtain r where chars: "dump compact 0 (JObj (ex_emit_receipt v)) = 123 # 34 # r"
    by (simp add: ex_emit_receipt_def compact_def encode_string_def newline_at_def)
  show ?thesis using loads_bytes_text [OF enc chars] loads_dump [OF layouts_ok(1) ok] by simp
qed

lemma ex_receipt_admitted:
  "v \<in> {JInt 0, JBool False} \<Longrightarrow> receipt_admitted (ex_receipt_bytes v) ex_sha (lit ''ALIVE'')"
  using ex_receipt_loads by (auto simp: receipt_admitted_def ex_emit_receipt_def)

text \<open>
  Python's \<open>False\<close> equals \<open>0\<close>: a receipt that reports \<open>false\<close> where the exit code
  belongs is admitted as a zero exit.
\<close>

theorem false_exit_admitted:
  "\<exists>raw receipt codes. loads_bytes raw = Inr (JObj receipt) \<and> obj_field receipt ''exit_codes'' = Some codes
     \<and> fld codes ''mix_verify'' = Some (JBool False) \<and> receipt_admitted raw ex_sha (lit ''ALIVE'')"
proof -
  have "obj_field (ex_emit_receipt (JBool False)) ''exit_codes'' = Some [(lit ''mix_verify'', JBool False)]"
    by (simp add: ex_emit_receipt_def)
  with ex_receipt_loads [of "JBool False"] ex_receipt_admitted [of "JBool False"] show ?thesis by fastforce
qed

lemma ex_strip: "strip (lit ''verify'') = lit ''verify''" "strip (lit ''agent'') = lit ''agent''"
  "strip (lit ''7'') = lit ''7''" "strip (lit ''1'') = lit ''1''" "strip (lit ''o/n'') = lit ''o/n''"
  "strip ex_sha = ex_sha" "lower ex_sha = ex_sha"
  by (simp_all add: strip_def is_py_space_def ex_sha_def lower_def lit_def)

lemma ex_normal_args [simp]: "normal_args ex_args = ex_args"
  by (simp add: normal_args_def ex_args_def ex_strip)

lemma ex_canonical: "canonical (w_fs ex_emit_world) [c]" if "plain_name c" for c
  using that by (simp add: canonical_def ex_emit_world_def link_target_def)

lemma ex_receipt_read: "read_bytes (w_fs ex_emit_world) (join_path (w_cwd ex_emit_world) (receipt_path ex_args)) = Inr (ex_receipt_bytes (JInt 0))"
proof -
  have "good_name (lit ''r'')" by (simp add: good_name_def plain_name_def lit_def)
  then have "join_path (w_cwd ex_emit_world) (receipt_path ex_args) = [lit ''r'']"
    by (simp add: join_good_name ex_args_def ex_emit_world_def)
  moreover have "canonical (w_fs ex_emit_world) [lit ''r'']" by (rule ex_canonical) (simp add: plain_name_def)
  moreover have "node_at (w_fs ex_emit_world) [lit ''r''] = Some (File (ex_receipt_bytes (JInt 0)))"
    by (simp add: ex_emit_world_def node_at_def)
  ultimately show ?thesis by (simp add: read_bytes_plain)
qed

lemma ex_admissible: "emit_admissible ex_emit_world ex_args"
proof -
  have "repo_name (lit ''o/n'')"
    unfolding repo_name_def by (intro exI [of _ "[111]"] exI [of _ "[110]"]) (simp add: lit_def is_py_space_def)
  moreover have "hex_sha ex_sha" by (simp add: hex_sha_def ex_sha_def is_hex_def list_all_iff)
  ultimately have "args_admissible ex_args"
    by (simp add: args_admissible_def ex_args_def ex_strip)
  moreover have "replace_all (lit ''+00:00'') (lit ''Z'') (lit ''t'') = lit ''t''"
    by (rule replace_all_short) simp
  then have "list_all text_ok (emit_texts (w_now ex_emit_world) ex_args)"
    by (simp add: emit_texts_def ex_args_def ex_emit_world_def)
  moreover have "receipt_admitted (ex_receipt_bytes (JInt 0)) (lower (strip (sha ex_args))) (standing ex_args)"
    using ex_receipt_admitted [of "JInt 0"] by (simp add: ex_args_def ex_strip)
  moreover have "choices_ok ex_args"
    by (simp add: choices_ok_def ex_args_def STANDINGS_def AUTHORITY_DOMAINS_def)
  ultimately show ?thesis
    unfolding emit_admissible_def using ex_receipt_read by simp
qed

lemma ex_emit_payload:
  obtains d payload where "emit_payload ex_emit_world ex_args = Inr (ex_args, d, payload)"
  using ex_admissible emit_payload_iff [of ex_emit_world ex_args] emit_payload_Inr [of ex_emit_world ex_args] by auto

lemma ex_target: "resolve (w_fs ex_emit_world) (spool_target ex_emit_world ex_args d) = Inr [lit ''o'']"
  "canonical (w_fs ex_emit_world) [lit ''o'']"
  "can_publish (w_fs ex_emit_world) [lit ''o''] (w_suffix ex_emit_world)"
proof -
  have "good_name (lit ''o'')" by (simp add: good_name_def plain_name_def lit_def)
  then have "spool_target ex_emit_world ex_args d = [lit ''o'']"
    by (simp add: spool_target_def join_good_name ex_args_def ex_emit_world_def)
  then show "resolve (w_fs ex_emit_world) (spool_target ex_emit_world ex_args d) = Inr [lit ''o'']"
    by (simp add: resolve_plain ex_canonical plain_name_def)
  show "canonical (w_fs ex_emit_world) [lit ''o'']" by (simp add: ex_canonical plain_name_def)
  show "can_publish (w_fs ex_emit_world) [lit ''o''] (w_suffix ex_emit_world)"
    by (simp add: can_publish_def temp_path_def path_name_def ex_emit_world_def node_at_def) (simp add: lit_def)
qed

lemma ex_emit_main:
  obtains out fs' where "emit_main ex_emit_world ex_args = (Inr out, fs')"
proof -
  obtain d payload where p: "emit_payload ex_emit_world ex_args = Inr (ex_args, d, payload)" by (rule ex_emit_payload)
  obtain fs' where "atomic_spool (w_fs ex_emit_world) payload (spool_target ex_emit_world ex_args d) (w_suffix ex_emit_world)
      = (Inr [lit ''o''], fs')"
    using atomic_spool_iff [OF ex_target(1,2)] ex_target(3) by blast
  moreover have "post_if_configured (w_bad_host ex_emit_world) (w_endpoint ex_emit_world) (w_environ ex_emit_world) payload = Inr (lit ''spool'')"
    by (simp add: post_if_configured_def ex_emit_world_def strip_def)
  ultimately show thesis using p that by (simp add: emit_main_def)
qed

lemma ex_builds: "\<exists>doc. build_ocel (lit t) ex_args (lit ''d'') = Inr doc" if "t \<in> {''t'', ''u''}"
proof -
  have "replace_all (lit ''+00:00'') (lit ''Z'') (lit t) = lit t"
    using that by (intro replace_all_short) auto
  then have "list_all text_ok (emit_texts (lit t) ex_args)" by (simp add: emit_texts_def ex_args_def)
  moreover have "text_ok (sha ex_args)"
    by (simp add: ex_args_def ex_sha_def text_ok_def is_scalar_def list_all_iff)
  ultimately show ?thesis using build_ocel_total [of "lit t" ex_args "lit ''d''"] by auto
qed

definition ex_spool_fs :: fs where
  "ex_spool_fs = w_fs ex_emit_world"

lemma ex_spool_target: "resolve ex_spool_fs [lit ''o''] = Inr [lit ''o'']" "loop_free ex_spool_fs [lit ''o'']"
  "can_publish ex_spool_fs [lit ''o''] []"
  by (simp_all add: ex_spool_fs_def resolve_plain loop_free_plain ex_canonical plain_name_def)
    (simp add: ex_spool_fs_def can_publish_def temp_path_def path_name_def ex_emit_world_def node_at_def lit_def)

lemma ex_spool_create:
  "spool_step [1] [lit ''o''] [] \<lparr>sp_fs = ex_spool_fs, sp_phase = Making 0\<rparr>
     \<lparr>sp_fs = put_file (temp_path [lit ''o''] []) [] ex_spool_fs, sp_phase = Writing 0\<rparr>"
  using ex_spool_target(3) by (intro create) (simp_all add: can_publish_def)

section \<open>The properties at the example\<close>

theorem event_identity_binds_witness:
  "\<exists>doc doc'. build_ocel (lit ''t'') ex_args (lit ''d'') = Inr doc \<and> build_ocel (lit ''u'') ex_args (lit ''d'') = Inr doc'
     \<and> event_ids doc = event_ids doc'"
  using event_identity_binds ex_builds [of "''t''"] ex_builds [of "''u''"] by blast

theorem spool_never_torn_witness:
  "\<exists>s. (spool_step [1] [lit ''o''] [])\<^sup>*\<^sup>* \<lparr>sp_fs = ex_spool_fs, sp_phase = Making 0\<rparr> s \<and> sp_phase s = Writing 0
     \<and> temp_holds ex_spool_fs [1] [lit ''o''] [] (sp_fs s) (Writing 0)"
  using spool_never_torn [OF ex_spool_target(1,2) _ r_into_rtranclp [of "spool_step [1] [lit ''o''] []", OF ex_spool_create]]
    r_into_rtranclp [of "spool_step [1] [lit ''o''] []", OF ex_spool_create]
  by (intro exI conjI) (assumption | simp)+

theorem spool_refines_steps_witness:
  "\<exists>fs'. (spool_step [1] [lit ''o''] [])\<^sup>*\<^sup>* \<lparr>sp_fs = ex_spool_fs, sp_phase = Making 0\<rparr> \<lparr>sp_fs = fs', sp_phase = Published\<rparr>
     \<and> node_at fs' [lit ''o''] = Some (File [1])"
proof -
  obtain fs' where "atomic_spool ex_spool_fs [1] [lit ''o''] [] = (Inr [lit ''o''], fs')"
    using atomic_spool_iff [OF ex_spool_target(1) resolve_canonical [OF ex_spool_target(1,2)]] ex_spool_target(3) by blast
  from spool_refines_steps [OF ex_spool_target(1,2) _ this] show ?thesis by auto
qed

theorem spool_succeeds_iff_witness:
  "\<exists>fs'. atomic_spool ex_spool_fs [1] [lit ''o''] [] = (Inr [lit ''o''], fs') \<and> node_at fs' [lit ''o''] = Some (File [1])"
  using spool_succeeds_iff [OF ex_spool_target(1,2), of "[1]" "[]"] ex_spool_target(3) by blast

theorem emit_report_true_witness:
  "\<exists>out fs' q payload. emit_main ex_emit_world ex_args = (Inr out, fs') \<and> node_at fs' q = Some (File payload)"
proof -
  obtain out fs' where run: "emit_main ex_emit_world ex_args = (Inr out, fs')" by (rule ex_emit_main)
  from run emit_report_true [OF run] show ?thesis by blast
qed

theorem published_observation_reads_back_witness:
  "\<exists>out fs' target bs doc. emit_main ex_emit_world ex_args = (Inr out, fs')
     \<and> node_at fs' target = Some (File bs) \<and> loads_bytes bs = Inr (sort_json doc)"
proof -
  obtain out fs' where run: "emit_main ex_emit_world ex_args = (Inr out, fs')" by (rule ex_emit_main)
  from run published_observation_reads_back [OF run] show ?thesis by blast
qed

end
