(* ===== verification/SubjectCourts.thy ===== *)
theory SubjectCourts
  imports EvidenceFiles PyRegex
begin

text \<open>
  The consumer courts \<open>qualification/epistemic_consumer_r54/verify.py\<close> and
  \<open>verification/r79-tcps-ready-set/verify.py\<close>: the classification of a subject by
  a cascade of checks, the mutation of the subject by a case, and the run over
  the cases. The contract of a cascade is a locale with both classifications as
  instances.
\<close>

section \<open>Python values\<close>

text \<open>\<open>for x in v\<close> over a document.\<close>

fun iter_json :: "json \<Rightarrow> json list res" where
  "iter_json (JArr xs) = Inr xs"
| "iter_json (JObj ps) = Inr (map (JStr \<circ> fst) ps)"
| "iter_json (JStr s) = Inr (map (\<lambda>c. JStr [c]) s)"
| "iter_json _ = Inl TypeError"

text \<open>\<open>repr\<close> and \<open>str\<close> of a document.\<close>

fun float_text :: "pyfloat \<Rightarrow> str" where
  "float_text FNan = lit ''nan''"
| "float_text (FInf neg) = (if neg then lit ''-inf'' else lit ''inf'')"
| "float_text f = repr_float f"

primrec py_repr :: "(nat \<Rightarrow> bool) \<Rightarrow> json \<Rightarrow> str" where
  "py_repr printable JNull = lit ''None''"
| "py_repr printable (JBool b) = (if b then lit ''True'' else lit ''False'')"
| "py_repr printable (JInt i) = dec_int i"
| "py_repr printable (JFloat f) = float_text f"
| "py_repr printable (JStr s) = repr_str printable s"
| "py_repr printable (JArr xs) = [91] @ join_with (lit '', '') (map (py_repr printable) xs) @ [93]"
| "py_repr printable (JObj ps) =
     [123] @ join_with (lit '', '')
       (map (\<lambda>p. repr_str printable (fst p) @ lit '': '' @ snd p) (map (map_prod id (py_repr printable)) ps)) @ [125]"

definition py_str :: "(nat \<Rightarrow> bool) \<Rightarrow> json \<Rightarrow> str" where
  "py_str printable v = (case v of JStr s \<Rightarrow> s | _ \<Rightarrow> py_repr printable v)"

text \<open>A value as a member of a set: numbers that are equal are one member, containers cannot be members.\<close>

fun set_member :: "json \<Rightarrow> json res" where
  "set_member (JArr xs) = Inl TypeError"
| "set_member (JObj ps) = Inl TypeError"
| "set_member (JBool b) = Inr (JInt (if b then 1 else 0))"
| "set_member (JFloat (FFin neg m e)) =
     Inr (if 0 \<le> e then JInt ((if neg then - 1 else 1) * int m * 2 ^ nat e)
          else if 2 ^ nat (- e) dvd m then JInt ((if neg then - 1 else 1) * int (m div 2 ^ nat (- e)))
          else JFloat (FFin neg m e))"
| "set_member v = Inr v"

section \<open>Checks\<close>

definition HEX40 :: rx where
  "HEX40 = sequence [TextStart, exactly 40 (one_of [span_item CHR ''0'' CHR ''9'', span_item CHR ''a'' CHR ''f'']), TextEnd]"

definition states :: "json dict \<Rightarrow> string \<Rightarrow> string \<Rightarrow> bool" where
  "states s k v \<longleftrightarrow> fld s k = Some (JStr (lit v))"

text \<open>\<open>HEX40.fullmatch(s.get(k, ""))\<close>\<close>

definition hex40_field :: "json dict \<Rightarrow> string \<Rightarrow> bool res" where
  "hex40_field s k =
     ebind (of_option TypeError (the_str (get_or s (lit k) (JStr [])))) (\<lambda>t. Inr (re_fullmatch HEX40 t \<noteq> None))"

text \<open>\<open>s.get("authority", "").split("|")\<close>\<close>

definition authority_of :: "json dict \<Rightarrow> str list res" where
  "authority_of s =
     ebind (of_option AttributeError (the_str (get_or s (lit ''authority'') (JStr [])))) (\<lambda>t. Inr (split_on 124 t))"

definition refused :: "string \<Rightarrow> str" where
  "refused reason = lit ''REFUSED['' @ lit reason @ lit '']''"

section \<open>The R54 court\<close>

definition r54_classify :: "json dict \<Rightarrow> str res" where
  "r54_classify s =
     (if \<not> states s ''consumer_repo'' ''seanchatmangpt/ex4pm'' then Inr (refused ''FOREIGN_CONSUMER'')
      else if \<not> states s ''producer_repo'' ''seanchatmangpt/ggen-marketplace'' then Inr (refused ''FOREIGN_PRODUCER'')
      else if \<not> states s ''producer_pack'' ''epistemic-sensor-factory-pack'' then Inr (refused ''FOREIGN_PACK'')
      else
        ebind (hex40_field s ''consumer_base'') (\<lambda>ok. if \<not> ok then Inr (refused ''MALFORMED_CONSUMER_BASE'') else
        ebind (hex40_field s ''producer_head'') (\<lambda>ok. if \<not> ok then Inr (refused ''MALFORMED_PRODUCER_HEAD'') else
        if fld s ''consequential_do'' \<noteq> Some (JBool False) then Inr (refused ''DO_FORBIDDEN'') else
        ebind (authority_of s) (\<lambda>authority.
        if lit ''VERIFY'' \<notin> set authority \<or> lit ''DO'' \<in> set authority then Inr (refused ''AUTHORITY_FENCE'')
        else if \<not> truthy (get_or s (lit ''evidence_root'') JNull) then Inr (refused ''MISSING_EVIDENCE_ROOT'')
        else if \<not> states s ''standing'' ''ADMITTED'' then Inr (refused ''SUBJECT_NOT_ADMITTED'')
        else Inr (lit ''ALIVE'')))))"

text \<open>\<open>s.pop(key, None)\<close>, for a key of any kind: an empty dictionary does not hash the key.\<close>

definition pop_key :: "json dict \<Rightarrow> json \<Rightarrow> json dict res" where
  "pop_key s k =
     (if s = [] then Inr []
      else ebind (set_member k) (\<lambda>k. Inr (case k of JStr name \<Rightarrow> AList.delete name s | _ \<Rightarrow> s)))"

definition mutate :: "json dict \<Rightarrow> json dict \<Rightarrow> json dict res" where
  "mutate base case_doc =
     ebind (of_option AttributeError (the_obj (get_or case_doc (lit ''set'') (JObj [])))) (\<lambda>sets.
     ebind (iter_json (get_or case_doc (lit ''delete'') (JArr []))) (\<lambda>deletes.
     efold pop_key (fold (\<lambda>(k, v) s. AList.update k v s) sets base) deletes))"

record court_run =
  seen :: "json list"
  complaints :: "str list"
  printed :: str

text \<open>
  \<open>print(line)\<close>. The line is encoded when it is printed; \<open>enc\<close> has the code points
  beyond ASCII that the encoding of standard output has (for UTF-8 all but the surrogates).
\<close>

definition sayable :: "(nat \<Rightarrow> bool) \<Rightarrow> str \<Rightarrow> bool" where
  "sayable enc line \<longleftrightarrow> list_all (\<lambda>c. c < 128 \<or> enc c) line"

definition say :: "(nat \<Rightarrow> bool) \<Rightarrow> str \<Rightarrow> court_run \<Rightarrow> court_run res" where
  "say enc line st =
     (if sayable enc line then Inr (st\<lparr>printed := printed st @ line @ [10]\<rparr>) else Inl UnicodeError)"

lemma sayable_simps [simp]:
  "sayable enc []" "sayable enc (a @ b) \<longleftrightarrow> sayable enc a \<and> sayable enc b"
  "sayable enc (c # s) \<longleftrightarrow> (c < 128 \<or> enc c) \<and> sayable enc s"
  by (simp_all add: sayable_def)

text \<open>Texts in ASCII can always be printed.\<close>

lemma sayable_ascii: "list_all ascii_char s \<Longrightarrow> sayable enc s"
  by (auto simp: sayable_def list_all_iff ascii_char_def)

lemma sayable_lit: "list_all (\<lambda>c. of_char c < (128 :: nat)) s \<Longrightarrow> sayable enc (lit s)"
  by (simp add: sayable_def lit_def list_all_iff)

lemma sayable_dec [simp]: "sayable enc (dec_nat n)" "sayable enc (dec_int i)"
  by (simp_all add: sayable_ascii dec_nat_ascii dec_int_def)

lemma sayable_digest [simp]: "sayable enc (sha256_bytes bs)"
  using sha256_hex_lower [of _ bs]
  by (fastforce simp: sayable_def sha256_bytes_def list_all_iff is_hex_lower_def)

lemma sayable_refused [simp]: "list_all (\<lambda>c. of_char c < (128 :: nat)) s \<Longrightarrow> sayable enc (refused s)"
  by (simp add: refused_def sayable_lit)

lemma sayable_float [simp]: "sayable enc (float_text f)"
  by (cases f) (simp_all only: float_text.simps sayable_ascii [OF repr_float_ascii], simp_all add: sayable_lit)

text \<open>Of the members of a set only a text can fail to be printed.\<close>

lemma sayable_member:
  assumes "set_member v = Inr m"
  shows "sayable enc (py_str printable v) \<longleftrightarrow> (\<forall>s. v = JStr s \<longrightarrow> sayable enc s)"
proof (cases v)
  case (JArr xs)
  with assms show ?thesis by simp
next
  case (JObj ps)
  with assms show ?thesis by simp
qed (simp_all add: py_str_def sayable_lit)

lemma say_Inr [simp]:
  "say enc line st = Inr st' \<longleftrightarrow> sayable enc line \<and> st' = st\<lparr>printed := printed st @ line @ [10]\<rparr>"
  by (auto simp: say_def)

definition complain :: "str \<Rightarrow> court_run \<Rightarrow> court_run" where
  "complain message st = st\<lparr>complaints := complaints st @ [message]\<rparr>"

text \<open>
  The body of the loop over the case files. A subject that is no object ends in
  an exception of \<open>mutate\<close> or \<open>classify\<close>.
\<close>

definition r54_case :: "(nat \<Rightarrow> bool) \<Rightarrow> (nat \<Rightarrow> bool) \<Rightarrow> json \<Rightarrow> court_run \<Rightarrow> json \<Rightarrow> court_run res" where
  "r54_case enc printable subject st v =
     ebind (of_option TypeError (the_obj v)) (\<lambda>case_doc.
     ebind (of_option (KeyError (lit ''id'')) (fld case_doc ''id'')) (\<lambda>cid.
     ebind (set_member cid) (\<lambda>member.
     let st = (if member \<in> set (seen st) then complain (lit ''duplicate:'' @ py_str printable cid) st else st);
         st = st\<lparr>seen := member # seen st\<rparr> in
     ebind (of_option AttributeError (the_obj subject)) (\<lambda>base.
     ebind (mutate base case_doc) (\<lambda>s.
     ebind (r54_classify s) (\<lambda>actual.
     ebind (of_option (KeyError (lit ''expected'')) (fld case_doc ''expected'')) (\<lambda>expected.
     ebind (say enc (py_str printable cid @ [61] @ actual) st) (\<lambda>st.
     Inr (if expected \<noteq> JStr actual
          then complain (py_str printable cid @ [58] @ actual @ lit ''!='' @ py_str printable expected) st
          else st)))))))))"

text \<open>\<open>sorted(directory.glob("*.json"))\<close>: the names in the directory, hidden ones included.\<close>

definition glob_suffix :: "fs \<Rightarrow> path \<Rightarrow> str \<Rightarrow> str list" where
  "glob_suffix fs dir suffix =
     (case locate fs dir of
        Inl e \<Rightarrow> []
      | Inr d \<Rightarrow>
          sorted_set (map last
            (filter (\<lambda>p. p \<noteq> [] \<and> butlast p = d \<and> starts_with (rev suffix) (rev (last p))) (map fst fs))))"

definition subject_digest :: "json \<Rightarrow> str res" where
  "subject_digest subject = ebind (utf8_encode (dumps compact subject)) (\<lambda>bs. Inr (sha256_bytes bs))"

definition load_json_path :: "fs \<Rightarrow> path \<Rightarrow> json res" where
  "load_json_path fs p = ebind (read_path_text fs p) loads"

text \<open>The program: the subject is read on import, \<open>git\<close> is the output of \<open>git rev-parse HEAD\<close>.\<close>

definition r54_main :: "(nat \<Rightarrow> bool) \<Rightarrow> (nat \<Rightarrow> bool) \<Rightarrow> fs \<Rightarrow> path \<Rightarrow> str res \<Rightarrow> (nat \<times> str) res" where
  "r54_main enc printable fs here git =
     ebind (load_json_path fs (here @ [lit ''subject.json''])) (\<lambda>subject.
     let cases = glob_suffix fs (here @ [lit ''cases'']) (lit ''.json'') in
     if length cases < 25
       then Inr (1, lit ''REFUSED[INSUFFICIENT_CASES]='' @ dec_nat (length cases) @ [10])
     else
       ebind (efold (\<lambda>st name. ebind (load_json_path fs (here @ [lit ''cases'', name])) (r54_case enc printable subject st))
                \<lparr>seen = [], complaints = [], printed = []\<rparr> cases) (\<lambda>st.
       ebind git (\<lambda>head.
       ebind (subject_digest subject) (\<lambda>digest.
       ebind (say enc (lit ''EXACT_HEAD='' @ strip head) st) (\<lambda>st.
       ebind (say enc (lit ''SUBJECT_DIGEST='' @ digest) st) (\<lambda>st.
       ebind (say enc (lit ''CASE_COUNT='' @ dec_nat (length cases)) st) (\<lambda>st.
       if complaints st \<noteq> []
         then ebind (say enc (lit ''REFUSED[R54_COURT]='' @ join_with (lit '','') (complaints st)) st)
           (\<lambda>st. Inr (1, printed st))
       else ebind (say enc (lit ''R54_EPISTEMIC_CONSUMER=ALIVE'') st) (\<lambda>st. Inr (0, printed st)))))))))"

section \<open>The R79 court\<close>

definition r79_classify :: "json dict \<Rightarrow> str res" where
  "r79_classify s =
     (if \<not> states s ''consumer_repo'' ''seanchatmangpt/ex4pm'' then Inr (refused ''FOREIGN_CONSUMER'')
      else if \<not> states s ''producer_repo'' ''seanchatmangpt/ggen-marketplace'' then Inr (refused ''FOREIGN_PRODUCER'')
      else if \<not> states s ''producer_pack'' ''portfolio-epistemic-observability-pack'' then Inr (refused ''FOREIGN_PACK'')
      else if \<not> states s ''producer_capability'' ''R78_TCPS_READY_SET_CAPITAL'' then Inr (refused ''FOREIGN_CAPABILITY'')
      else
        ebind (hex40_field s ''consumer_base'') (\<lambda>ok. if \<not> ok then Inr (refused ''MALFORMED_CONSUMER_BASE'') else
        ebind (hex40_field s ''producer_head'') (\<lambda>ok. if \<not> ok then Inr (refused ''MALFORMED_PRODUCER_HEAD'') else
        if \<not> states s ''prior_consumer_standing'' ''MERGED_ALIVE'' then Inr (refused ''PRIOR_STANDING'')
        else if \<not> states s ''allocation_law'' ''legality-before-priority'' then Inr (refused ''ALLOCATION_LAW'')
        else
        ebind (authority_of s) (\<lambda>authority.
        if lit ''VERIFY'' \<notin> set authority \<or> lit ''DO'' \<in> set authority then Inr (refused ''AUTHORITY_FENCE'')
        else if fld s ''consequential_do'' \<noteq> Some (JBool False) then Inr (refused ''DO_FORBIDDEN'')
        else if \<not> states s ''standing'' ''ADMITTED'' then Inr (refused ''SUBJECT_NOT_ADMITTED'')
        else Inr (lit ''ALIVE'')))))"

text \<open>
  \<open>candidate.update(v)\<close>: a dictionary, or pairs; a key that is no string is one
  no check looks up.
\<close>

definition update_pair :: "json dict \<Rightarrow> json \<Rightarrow> json dict res" where
  "update_pair s item =
     ebind (iter_json item) (\<lambda>kv.
     case kv of
       [k, v] \<Rightarrow> ebind (set_member k) (\<lambda>k. Inr (case k of JStr name \<Rightarrow> AList.update name v s | _ \<Rightarrow> s))
     | _ \<Rightarrow> Inl (ValueError (lit ''dictionary update sequence element'')))"

definition dict_update :: "json dict \<Rightarrow> json \<Rightarrow> json dict res" where
  "dict_update s v =
     (case v of
        JObj sets \<Rightarrow> Inr (fold (\<lambda>(k, v) s. AList.update k v s) sets s)
      | _ \<Rightarrow> ebind (iter_json v) (efold update_pair s))"

text \<open>The body of the loop; concatenation raises on a value that is no string.\<close>

definition r79_case :: "(nat \<Rightarrow> bool) \<Rightarrow> json dict \<Rightarrow> court_run \<Rightarrow> json \<Rightarrow> court_run res" where
  "r79_case enc subject st v =
     ebind (of_option AttributeError (the_obj v)) (\<lambda>case_doc.
     ebind (dict_update subject (get_or case_doc (lit ''set'') (JObj []))) (\<lambda>candidate.
     ebind (r79_classify candidate) (\<lambda>actual.
     ebind (of_option (KeyError (lit ''id'')) (fld case_doc ''id'')) (\<lambda>cid.
     ebind (of_option TypeError (the_str cid)) (\<lambda>cid.
     ebind (say enc (cid @ [61] @ actual) st) (\<lambda>st.
     ebind (of_option (KeyError (lit ''expected'')) (fld case_doc ''expected'')) (\<lambda>expected.
     if expected = JStr actual then Inr st
     else
       ebind (of_option TypeError (the_str expected)) (\<lambda>expected.
       Inr (complain (cid @ [58] @ actual @ lit ''!='' @ expected) st)))))))))"

definition r79_main :: "(nat \<Rightarrow> bool) \<Rightarrow> fs \<Rightarrow> path \<Rightarrow> (nat \<times> str) res" where
  "r79_main enc fs here =
     ebind (load_json_path fs (here @ [lit ''subject.json''])) (\<lambda>subject_doc.
     ebind (load_json_path fs (here @ [lit ''cases.json''])) (\<lambda>cases_doc.
     ebind (of_option AttributeError (the_obj subject_doc)) (\<lambda>subject.
     ebind (r79_classify subject) (\<lambda>standing.
     let st = \<lparr>seen = [], complaints = [], printed = []\<rparr>;
         st = (if standing \<noteq> lit ''ALIVE'' then complain (lit ''baseline='' @ standing) st else st) in
     ebind (iter_json cases_doc) (\<lambda>cases.
     ebind (efold (r79_case enc subject) st cases) (\<lambda>st.
     ebind (subject_digest subject_doc) (\<lambda>digest.
     ebind (say enc (lit ''R79_CONSUMER='' @ standing) st) (\<lambda>st.
     ebind (say enc (lit ''SUBJECT_DIGEST='' @ digest) st) (\<lambda>st.
     ebind (say enc (lit ''CASE_COUNT='' @ dec_nat (length cases)) st) (\<lambda>st.
     if complaints st \<noteq> []
       then ebind (say enc (lit ''REFUSED[R79_COURT]='' @ join_with (lit '','') (complaints st)) st)
         (\<lambda>st. Inr (1, printed st))
     else Inr (0, printed st)))))))))))"

end
