(* ===== verification/CourtProps.thy ===== *)
theory CourtProps
  imports SubjectCourts
begin

text \<open>
  The properties of the consumer courts: what makes a subject ALIVE, that a
  refusal names the first check that fails, and when a run over the cases ends
  with exit code 0.
\<close>

section \<open>Cascades of checks\<close>

primrec run_checks :: "'v \<Rightarrow> ('v \<times> ('s \<Rightarrow> 'e + bool)) list \<Rightarrow> 's \<Rightarrow> 'e + 'v" where
  "run_checks pass [] s = Inr pass"
| "run_checks pass (c # cs) s = ebind (snd c s) (\<lambda>ok. if ok then run_checks pass cs s else Inr (fst c))"

definition first_failure :: "'v \<Rightarrow> ('v \<times> ('s \<Rightarrow> 'e + bool)) list \<Rightarrow> 's \<Rightarrow> 'v \<Rightarrow> bool" where
  "first_failure pass checks s v \<longleftrightarrow>
     v = pass \<and> (\<forall>c\<in>set checks. snd c s = Inr True)
     \<or> (\<exists>as ok bs. checks = as @ (v, ok) # bs \<and> (\<forall>c\<in>set as. snd c s = Inr True) \<and> ok s = Inr False)"

text \<open>
  A classification is a cascade when it runs its checks in order, each with a
  verdict of its own, and none with the verdict of a pass.
\<close>

locale cascade =
  fixes classify :: "'s \<Rightarrow> 'e + 'v"
    and checks :: "('v \<times> ('s \<Rightarrow> 'e + bool)) list"
    and pass :: 'v
  assumes classify_runs: "classify s = run_checks pass checks s"
    and verdicts: "distinct (pass # map fst checks)"
begin

lemma run_checks_pass: "pass \<notin> fst ` set cs \<Longrightarrow> run_checks pass cs s = Inr pass \<longleftrightarrow> (\<forall>c\<in>set cs. snd c s = Inr True)"
  by (induction cs) (auto simp: ebind_Inr_iff)

lemma passes_iff: "classify s = Inr pass \<longleftrightarrow> (\<forall>c\<in>set checks. snd c s = Inr True)"
  using verdicts run_checks_pass [of checks] by (simp add: classify_runs)

lemma run_checks_refuse:
  "v \<noteq> pass \<Longrightarrow> run_checks pass cs s = Inr v \<longleftrightarrow>
     (\<exists>as ok bs. cs = as @ (v, ok) # bs \<and> (\<forall>c\<in>set as. snd c s = Inr True) \<and> ok s = Inr False)"
proof (induction cs)
  case Nil
  then show ?case by simp
next
  case (Cons c cs)
  show ?case
  proof (cases "snd c s = Inr True")
    case True
    then have "run_checks pass (c # cs) s = Inr v \<longleftrightarrow> run_checks pass cs s = Inr v" by simp
    also have "\<dots> \<longleftrightarrow> (\<exists>as ok bs. cs = as @ (v, ok) # bs \<and> (\<forall>c\<in>set as. snd c s = Inr True) \<and> ok s = Inr False)"
      by (rule Cons.IH [OF Cons.prems])
    also have "\<dots> \<longleftrightarrow> (\<exists>as ok bs. c # cs = as @ (v, ok) # bs \<and> (\<forall>c\<in>set as. snd c s = Inr True) \<and> ok s = Inr False)"
      (is "?l \<longleftrightarrow> ?r")
    proof
      assume ?l
      then obtain as ok bs where "cs = as @ (v, ok) # bs" "\<forall>c\<in>set as. snd c s = Inr True" "ok s = Inr False" by blast
      with True have "c # cs = (c # as) @ (v, ok) # bs \<and> (\<forall>c\<in>set (c # as). snd c s = Inr True) \<and> ok s = Inr False" by simp
      then show ?r by blast
    next
      assume ?r
      then obtain as ok bs where split: "c # cs = as @ (v, ok) # bs" "\<forall>c\<in>set as. snd c s = Inr True" "ok s = Inr False"
        by blast
      with True obtain as' where "as = c # as'" by (cases as) auto
      with split have "cs = as' @ (v, ok) # bs" "\<forall>c\<in>set as'. snd c s = Inr True" by simp_all
      with split(3) show ?l by blast
    qed
    finally show ?thesis .
  next
    case False
    then have "run_checks pass (c # cs) s = Inr v \<longleftrightarrow> snd c s = Inr False \<and> v = fst c"
      by (auto simp: ebind_Inr_iff)
    also have "\<dots> \<longleftrightarrow> (\<exists>as ok bs. c # cs = as @ (v, ok) # bs \<and> (\<forall>c\<in>set as. snd c s = Inr True) \<and> ok s = Inr False)"
      (is "?l \<longleftrightarrow> ?r")
    proof
      assume ?l
      then have "c # cs = [] @ (v, snd c) # cs \<and> (\<forall>c\<in>set []. snd c s = Inr True) \<and> snd c s = Inr False" by simp
      then show ?r by blast
    next
      assume ?r
      then obtain as ok bs where "c # cs = as @ (v, ok) # bs" "\<forall>c\<in>set as. snd c s = Inr True" "ok s = Inr False"
        by blast
      with False show ?l by (cases as) auto
    qed
    finally show ?thesis .
  qed
qed

lemma refuses_iff:
  "v \<noteq> pass \<Longrightarrow> classify s = Inr v \<longleftrightarrow>
     (\<exists>as ok bs. checks = as @ (v, ok) # bs \<and> (\<forall>c\<in>set as. snd c s = Inr True) \<and> ok s = Inr False)"
  unfolding classify_runs by (rule run_checks_refuse)

text \<open>The verdict is the first failing check's, or a pass when none fails.\<close>

lemma verdict_iff: "classify s = Inr v \<longleftrightarrow> first_failure pass checks s v"
  using passes_iff [of s] refuses_iff [of v s] verdicts
  by (cases "v = pass") (auto simp: first_failure_def)

lemma verdict_cases: "classify s = Inr v \<Longrightarrow> v = pass \<or> v \<in> fst ` set checks"
  by (cases "v = pass") (auto simp: refuses_iff)

end

section \<open>The two cascades\<close>

abbreviation total_check :: "('s \<Rightarrow> bool) \<Rightarrow> 's \<Rightarrow> bool res" where
  "total_check p \<equiv> (\<lambda>s. Inr (p s))"

definition fence_check :: "json dict \<Rightarrow> bool res" where
  "fence_check s =
     ebind (authority_of s) (\<lambda>authority. Inr (\<not> (lit ''VERIFY'' \<notin> set authority \<or> lit ''DO'' \<in> set authority)))"

definition do_forbidden :: "json dict \<Rightarrow> bool" where
  "do_forbidden s \<longleftrightarrow> fld s ''consequential_do'' = Some (JBool False)"

definition r54_checks :: "(str \<times> (json dict \<Rightarrow> bool res)) list" where
  "r54_checks =
     [(refused ''FOREIGN_CONSUMER'', total_check (\<lambda>s. states s ''consumer_repo'' ''seanchatmangpt/ex4pm'')),
      (refused ''FOREIGN_PRODUCER'', total_check (\<lambda>s. states s ''producer_repo'' ''seanchatmangpt/ggen-marketplace'')),
      (refused ''FOREIGN_PACK'', total_check (\<lambda>s. states s ''producer_pack'' ''epistemic-sensor-factory-pack'')),
      (refused ''MALFORMED_CONSUMER_BASE'', \<lambda>s. hex40_field s ''consumer_base''),
      (refused ''MALFORMED_PRODUCER_HEAD'', \<lambda>s. hex40_field s ''producer_head''),
      (refused ''DO_FORBIDDEN'', total_check do_forbidden),
      (refused ''AUTHORITY_FENCE'', fence_check),
      (refused ''MISSING_EVIDENCE_ROOT'', total_check (\<lambda>s. truthy (get_or s (lit ''evidence_root'') JNull))),
      (refused ''SUBJECT_NOT_ADMITTED'', total_check (\<lambda>s. states s ''standing'' ''ADMITTED''))]"

definition r79_checks :: "(str \<times> (json dict \<Rightarrow> bool res)) list" where
  "r79_checks =
     [(refused ''FOREIGN_CONSUMER'', total_check (\<lambda>s. states s ''consumer_repo'' ''seanchatmangpt/ex4pm'')),
      (refused ''FOREIGN_PRODUCER'', total_check (\<lambda>s. states s ''producer_repo'' ''seanchatmangpt/ggen-marketplace'')),
      (refused ''FOREIGN_PACK'', total_check (\<lambda>s. states s ''producer_pack'' ''portfolio-epistemic-observability-pack'')),
      (refused ''FOREIGN_CAPABILITY'', total_check (\<lambda>s. states s ''producer_capability'' ''R78_TCPS_READY_SET_CAPITAL'')),
      (refused ''MALFORMED_CONSUMER_BASE'', \<lambda>s. hex40_field s ''consumer_base''),
      (refused ''MALFORMED_PRODUCER_HEAD'', \<lambda>s. hex40_field s ''producer_head''),
      (refused ''PRIOR_STANDING'', total_check (\<lambda>s. states s ''prior_consumer_standing'' ''MERGED_ALIVE'')),
      (refused ''ALLOCATION_LAW'', total_check (\<lambda>s. states s ''allocation_law'' ''legality-before-priority'')),
      (refused ''AUTHORITY_FENCE'', fence_check),
      (refused ''DO_FORBIDDEN'', total_check do_forbidden),
      (refused ''SUBJECT_NOT_ADMITTED'', total_check (\<lambda>s. states s ''standing'' ''ADMITTED''))]"

lemma refused_inject [simp]: "refused a = refused b \<longleftrightarrow> a = b" "refused a \<noteq> lit ''ALIVE''" "lit ''ALIVE'' \<noteq> refused a"
  by (simp_all add: refused_def) (simp_all add: lit_def)

lemma if_swap: "(if \<not> p then x else y) = (if p then y else x)"
  by simp

lemmas cascade_simps = ebind_assoc fence_check_def do_forbidden_def if_swap run_checks.simps ebind.simps fst_conv snd_conv

interpretation r54: cascade r54_classify r54_checks "lit ''ALIVE''"
proof
  show "r54_classify s = run_checks (lit ''ALIVE'') r54_checks s" for s
    by (simp only: r54_classify_def r54_checks_def cascade_simps)
  show "distinct (lit ''ALIVE'' # map fst r54_checks)"
    by (simp add: r54_checks_def)
qed

interpretation r79: cascade r79_classify r79_checks "lit ''ALIVE''"
proof
  show "r79_classify s = run_checks (lit ''ALIVE'') r79_checks s" for s
    by (simp only: r79_classify_def r79_checks_def cascade_simps)
  show "distinct (lit ''ALIVE'' # map fst r79_checks)"
    by (simp add: r79_checks_def)
qed

section \<open>Subjects\<close>

text \<open>Forty lower-case hexadecimal digits in a field.\<close>

definition exact_commit :: "json dict \<Rightarrow> string \<Rightarrow> bool" where
  "exact_commit s k \<longleftrightarrow>
     (\<exists>t. fld s k = Some (JStr t) \<and> length t = 40 \<and> list_all is_hex_lower t)"

lemma HEX40_iff: "re_fullmatch HEX40 s \<noteq> None \<longleftrightarrow> length s = 40 \<and> list_all is_hex_lower s"
  unfolding re_fullmatch_iff HEX40_def
  by (auto simp: matches_exactly start_def at_end_def advance_def span_item_def is_hex_lower_def list_all_iff)

lemma hex40_field_iff: "hex40_field s k = Inr True \<longleftrightarrow> exact_commit s k"
  using HEX40_iff by (auto simp: hex40_field_def exact_commit_def get_or_def res_dest split: option.splits)

definition verify_only :: "json dict \<Rightarrow> bool" where
  "verify_only s \<longleftrightarrow>
     (\<exists>t. fld s ''authority'' = Some (JStr t) \<and> lit ''VERIFY'' \<in> set (split_on 124 t)
        \<and> lit ''DO'' \<notin> set (split_on 124 t))"

lemma fence_check_iff: "fence_check s = Inr True \<longleftrightarrow> verify_only s"
proof -
  have "split_on 124 [] = [[]]" by (simp add: split_on_def)
  then show ?thesis
    by (auto simp: fence_check_def authority_of_def verify_only_def get_or_def res_dest split: option.splits)
qed

text \<open>The R54 court finds a subject ALIVE exactly when all of its law holds: consumer,
  producer and pack are the known ones, both revisions are forty hexadecimal
  digits, \<open>consequential_do\<close> is \<open>false\<close> itself, the authority holds VERIFY and not DO,
  there is an evidence root, and the standing is ADMITTED.\<close>

theorem r54_alive_iff:
  "r54_classify s = Inr (lit ''ALIVE'') \<longleftrightarrow>
     states s ''consumer_repo'' ''seanchatmangpt/ex4pm''
     \<and> states s ''producer_repo'' ''seanchatmangpt/ggen-marketplace''
     \<and> states s ''producer_pack'' ''epistemic-sensor-factory-pack''
     \<and> exact_commit s ''consumer_base'' \<and> exact_commit s ''producer_head''
     \<and> do_forbidden s \<and> verify_only s
     \<and> truthy (get_or s (lit ''evidence_root'') JNull) \<and> states s ''standing'' ''ADMITTED''"
  unfolding r54.passes_iff
  by (simp add: r54_checks_def hex40_field_iff fence_check_iff)

text \<open>C32: a refusal of the R79 court names the first law the subject breaks: the verdict is
  the one of a check that fails while all checks before it pass.\<close>

theorem r79_refusal_names_first_failure:
  "r79_classify s = Inr (refused reason) \<longleftrightarrow>
     (\<exists>as ok bs. r79_checks = as @ (refused reason, ok) # bs \<and> list_all (\<lambda>c. snd c s = Inr True) as
        \<and> ok s = Inr False)"
  using r79.refuses_iff [of "refused reason" s] by (simp add: list_all_iff)

lemma r79_alive_iff:
  "r79_classify s = Inr (lit ''ALIVE'') \<longleftrightarrow> list_all (\<lambda>c. snd c s = Inr True) r79_checks"
  by (simp add: r79.passes_iff list_all_iff)

section \<open>The R54 run\<close>

definition case_member :: "json \<Rightarrow> json res" where
  "case_member v =
     ebind (of_option TypeError (the_obj v)) (\<lambda>d.
     ebind (of_option (KeyError (lit ''id'')) (fld d ''id'')) set_member)"

text \<open>
  What a case asks for: the subject with the fields of \<open>set\<close>, without the keys of
  \<open>delete\<close>, which win over \<open>set\<close>.
\<close>

definition with_sets :: "json dict \<Rightarrow> json dict \<Rightarrow> str \<Rightarrow> json option" where
  "with_sets base sets k = (case map_of (rev sets) k of None \<Rightarrow> map_of base k | v \<Rightarrow> v)"

text \<open>
  A key to delete must be hashable, unless what stands before it in the list has
  emptied the subject.
\<close>

definition poppable :: "(str \<Rightarrow> json option) \<Rightarrow> json list \<Rightarrow> bool" where
  "poppable held deletes \<longleftrightarrow>
     (\<forall>as k bs. deletes = as @ k # bs \<longrightarrow>
        (\<exists>m. set_member k = Inr m) \<or> (\<forall>name. held name \<noteq> None \<longrightarrow> JStr name \<in> set as))"

definition mutated :: "json dict \<Rightarrow> json dict \<Rightarrow> json dict \<Rightarrow> bool" where
  "mutated base d s \<longleftrightarrow>
     (\<exists>sets deletes. get_or d (lit ''set'') (JObj []) = JObj sets
        \<and> iter_json (get_or d (lit ''delete'') (JArr [])) = Inr deletes
        \<and> poppable (with_sets base sets) deletes
        \<and> (\<forall>k. map_of s k = (if JStr k \<in> set deletes then None else with_sets base sets k)))"

lemma fold_update_lookup:
  "map_of (fold (\<lambda>(k, v) s. AList.update k v s) sets base) k = with_sets base sets k"
  unfolding with_sets_def
proof (induction sets arbitrary: base)
  case (Cons p sets)
  then show ?case by (cases p) (auto simp: update_conv' map_add_def split: option.splits)
qed simp

lemma set_member_str: "set_member v = Inr (JStr k) \<longleftrightarrow> v = JStr k"
  by (cases v rule: set_member.cases) auto

lemma pop_key_lookup:
  "(\<exists>t. pop_key s k = Inr t) \<longleftrightarrow> (\<exists>m. set_member k = Inr m) \<or> (\<forall>name. map_of s name = None)"
  "pop_key s k = Inr t \<Longrightarrow> map_of t name = (if k = JStr name then None else map_of s name)"
proof -
  have "(\<forall>name. map_of s name = None) \<longleftrightarrow> s = []" by (cases s) auto
  then show "(\<exists>t. pop_key s k = Inr t) \<longleftrightarrow> (\<exists>m. set_member k = Inr m) \<or> (\<forall>name. map_of s name = None)"
    by (auto simp: pop_key_def ebind_Inr_iff)
  show "map_of t name = (if k = JStr name then None else map_of s name)" if pop: "pop_key s k = Inr t"
  proof (cases "s = []")
    case False
    with pop obtain m where "set_member k = Inr m" "t = (case m of JStr name \<Rightarrow> AList.delete name s | _ \<Rightarrow> s)"
      by (auto simp: pop_key_def ebind_Inr_iff)
    with set_member_str [of k name] show ?thesis by (cases m) (auto simp: delete_conv')
  qed (use pop in \<open>simp add: pop_key_def\<close>)
qed

lemma poppable_Cons:
  "poppable held (x # xs) \<longleftrightarrow>
     ((\<exists>m. set_member x = Inr m) \<or> (\<forall>name. held name = None))
     \<and> poppable (\<lambda>name. if x = JStr name then None else held name) xs"
proof -
  have split: "(\<forall>as k bs. x # xs = as @ k # bs \<longrightarrow> P as k) \<longleftrightarrow> P [] x \<and> (\<forall>as k bs. xs = as @ k # bs \<longrightarrow> P (x # as) k)"
    for P :: "json list \<Rightarrow> json \<Rightarrow> bool"
    by (auto simp: Cons_eq_append_conv)
  have later: "(\<forall>name. held name \<noteq> None \<longrightarrow> JStr name \<in> set (x # as))
      \<longleftrightarrow> (\<forall>name. (if x = JStr name then None else held name) \<noteq> None \<longrightarrow> JStr name \<in> set as)" for as
    by auto
  show ?thesis unfolding poppable_def split later by simp
qed

lemma pop_keys_lookup:
  "(\<exists>s. efold pop_key base deletes = Inr s) \<longleftrightarrow> poppable (map_of base) deletes"
  "efold pop_key base deletes = Inr s \<Longrightarrow> map_of s k = (if JStr k \<in> set deletes then None else map_of base k)"
proof (induction deletes arbitrary: base)
  case Nil
  {
    case 1
    show ?case by (simp add: poppable_def)
  next
    case 2
    then show ?case by simp
  }
next
  case (Cons x xs)
  {
    case 1
    have rest: "poppable (map_of t) xs \<longleftrightarrow> poppable (\<lambda>name. if x = JStr name then None else map_of base name) xs"
      if "pop_key base x = Inr t" for t
      by (rule arg_cong [where f = "\<lambda>f. poppable f xs"]) (rule ext, rule pop_key_lookup(2) [OF that])
    have "(\<exists>s. efold pop_key base (x # xs) = Inr s) \<longleftrightarrow> (\<exists>t. pop_key base x = Inr t \<and> poppable (map_of t) xs)"
      using Cons.IH(1) by (auto simp: ebind_Inr_iff)
    also have "\<dots> \<longleftrightarrow> poppable (map_of base) (x # xs)"
      unfolding poppable_Cons using rest pop_key_lookup(1) [of base x] by blast
    finally show ?case .
  next
    case 2
    then obtain t where t: "pop_key base x = Inr t" "efold pop_key t xs = Inr s"
      by (auto simp: ebind_Inr_iff)
    from Cons.IH(2) [OF t(2)] pop_key_lookup(2) [OF t(1), of k] show ?case by auto
  }
qed

lemma mutate_mutated: "mutate base d = Inr s \<Longrightarrow> mutated base d s"
proof -
  assume "mutate base d = Inr s"
  then obtain sets deletes where "get_or d (lit ''set'') (JObj []) = JObj sets"
      "iter_json (get_or d (lit ''delete'') (JArr [])) = Inr deletes"
      and pop: "efold pop_key (fold (\<lambda>(k, v) s. AList.update k v s) sets base) deletes = Inr s"
    by (auto simp: mutate_def res_dest)
  moreover have "map_of (fold (\<lambda>(k, v) s. AList.update k v s) sets base) = with_sets base sets"
    by (rule ext) (rule fold_update_lookup)
  ultimately show ?thesis
    unfolding mutated_def using pop_keys_lookup(1) pop_keys_lookup(2) [OF pop] by metis
qed

lemma mutated_mutate: "mutated base d t \<Longrightarrow> \<exists>s. mutate base d = Inr s \<and> map_of s = map_of t"
proof -
  assume m: "mutated base d t"
  then obtain sets deletes where sd: "get_or d (lit ''set'') (JObj []) = JObj sets"
      "iter_json (get_or d (lit ''delete'') (JArr [])) = Inr deletes"
      "poppable (with_sets base sets) deletes"
      and t: "\<And>k. map_of t k = (if JStr k \<in> set deletes then None else with_sets base sets k)"
    unfolding mutated_def by blast
  have laid: "map_of (fold (\<lambda>(k, v) s. AList.update k v s) sets base) = with_sets base sets"
    by (rule ext) (rule fold_update_lookup)
  with sd(3) obtain s where s: "efold pop_key (fold (\<lambda>(k, v) s. AList.update k v s) sets base) deletes = Inr s"
    using pop_keys_lookup(1) by metis
  have "map_of s k = map_of t k" for k
    unfolding t pop_keys_lookup(2) [OF s] laid ..
  with s sd show ?thesis by (auto simp: mutate_def)
qed

lemma r54_classify_cong: "map_of s = map_of t \<Longrightarrow> r54_classify s = r54_classify t"
proof -
  assume eq: "map_of s = map_of t"
  then have fields: "get_or s = get_or t" "states s = states t" by (simp_all add: fun_eq_iff get_or_def states_def)
  then have texts: "hex40_field s = hex40_field t" "authority_of s = authority_of t"
    by (simp_all add: fun_eq_iff hex40_field_def authority_of_def)
  show ?thesis unfolding r54_classify_def eq fields texts ..
qed

lemma sayable_verdict [simp]: "r54_classify s = Inr v \<Longrightarrow> sayable enc v" "r79_classify s = Inr v \<Longrightarrow> sayable enc v"
  by (auto dest!: r54.verdict_cases r79.verdict_cases simp: r54_checks_def r79_checks_def sayable_lit)

text \<open>
  The court's verdict on the mutated subject is the one the case expects, and the
  case has an identifier that can be printed: numbers and constants always can.
\<close>

definition r54_as_expected :: "(nat \<Rightarrow> bool) \<Rightarrow> json \<Rightarrow> json \<Rightarrow> bool" where
  "r54_as_expected enc subject v \<longleftrightarrow>
     (\<exists>base d s actual cid. subject = JObj base \<and> v = JObj d \<and> mutated base d s
        \<and> first_failure (lit ''ALIVE'') r54_checks s actual \<and> fld d ''expected'' = Some (JStr actual)
        \<and> fld d ''id'' = Some cid \<and> (\<forall>t. cid = JStr t \<longrightarrow> sayable enc t))"

lemma r54_as_expected_iff:
  "r54_as_expected enc subject v \<longleftrightarrow>
     (\<exists>base d s actual cid. subject = JObj base \<and> v = JObj d \<and> mutate base d = Inr s
        \<and> r54_classify s = Inr actual \<and> fld d ''expected'' = Some (JStr actual)
        \<and> fld d ''id'' = Some cid \<and> (\<forall>t. cid = JStr t \<longrightarrow> sayable enc t))"
  (is "?l \<longleftrightarrow> ?r")
proof
  assume ?l
  then obtain base d s actual cid where parts: "subject = JObj base" "v = JObj d" "mutated base d s"
      "r54_classify s = Inr actual" "fld d ''expected'' = Some (JStr actual)"
      "fld d ''id'' = Some cid" "\<forall>t. cid = JStr t \<longrightarrow> sayable enc t"
    unfolding r54_as_expected_def r54.verdict_iff by blast
  obtain t where "mutate base d = Inr t" "map_of t = map_of s" using mutated_mutate [OF parts(3)] by blast
  with parts r54_classify_cong [of t s] show ?r by auto
next
  assume ?r
  with mutate_mutated show ?l unfolding r54_as_expected_def r54.verdict_iff [symmetric] by blast
qed

lemma r54_case_good:
  "(\<exists>t. r54_case enc printable subject st v = Inr t \<and> complaints t = [] \<and> seen t = ms) \<longleftrightarrow>
     complaints st = [] \<and> r54_as_expected enc subject v
     \<and> (\<exists>m. case_member v = Inr m \<and> m \<notin> set (seen st) \<and> ms = m # seen st)"
  (is "?l \<longleftrightarrow> ?r")
proof
  assume ?l
  then obtain t where t: "r54_case enc printable subject st v = Inr t" "complaints t = []" "seen t = ms" by blast
  then obtain d cid m base s actual expected where parts: "v = JObj d" "fld d ''id'' = Some cid" "set_member cid = Inr m"
      "subject = JObj base" "mutate base d = Inr s" "r54_classify s = Inr actual" "fld d ''expected'' = Some expected"
      "sayable enc (py_str printable cid)"
    by (auto simp: r54_case_def Let_def res_dest)
  with t have "expected = JStr actual" "m \<notin> set (seen st)" "complaints st = []" "ms = m # seen st"
    by (auto simp: r54_case_def Let_def res_dest complain_def split: if_splits)
  with parts show ?r by (auto simp: r54_as_expected_iff case_member_def sayable_member)
next
  assume ?r
  then obtain base d s actual m cid where "complaints st = []" "subject = JObj base" "v = JObj d" "mutate base d = Inr s"
      "r54_classify s = Inr actual" "fld d ''expected'' = Some (JStr actual)"
      "fld d ''id'' = Some cid" "\<forall>t. cid = JStr t \<longrightarrow> sayable enc t"
      "case_member v = Inr m" "m \<notin> set (seen st)" "ms = m # seen st"
    by (auto simp: r54_as_expected_iff)
  moreover from this have m: "set_member cid = Inr m"
    by (auto simp: case_member_def res_dest)
  moreover have "sayable enc (py_str printable cid)" using calculation(8) sayable_member [OF m] by blast
  ultimately have "r54_case enc printable subject st v
      = Inr (st\<lparr>seen := m # seen st, printed := printed st @ (py_str printable cid @ [61] @ actual) @ [10]\<rparr>)"
    by (simp add: r54_case_def say_def)
  with \<open>complaints st = []\<close> \<open>ms = m # seen st\<close> show ?l by simp
qed

lemma r54_loop:
  "(\<exists>t. efold (\<lambda>st n. ebind (load n) (r54_case enc printable subject st)) st names = Inr t \<and> complaints t = []) \<longleftrightarrow>
     complaints st = []
     \<and> (\<exists>docs ms. emap load names = Inr docs \<and> list_all (r54_as_expected enc subject) docs
          \<and> emap case_member docs = Inr ms \<and> distinct ms \<and> set ms \<inter> set (seen st) = {})"
proof (induction names arbitrary: st)
  case Nil
  then show ?case by simp
next
  case (Cons n names)
  define rest where "rest = (\<lambda>old. \<exists>docs ms. emap load names = Inr docs \<and> list_all (r54_as_expected enc subject) docs
          \<and> emap case_member docs = Inr ms \<and> distinct ms \<and> set ms \<inter> set old = {})"
  let ?loop = "efold (\<lambda>st n. ebind (load n) (r54_case enc printable subject st))"
  have "(\<exists>t. ?loop st (n # names) = Inr t \<and> complaints t = [])
      \<longleftrightarrow> (\<exists>v s'. load n = Inr v \<and> r54_case enc printable subject st v = Inr s' \<and> (\<exists>t. ?loop s' names = Inr t \<and> complaints t = []))"
    by (auto simp: ebind_Inr_iff)
  also have "\<dots> \<longleftrightarrow> (\<exists>v ms0. load n = Inr v
      \<and> (\<exists>s'. r54_case enc printable subject st v = Inr s' \<and> complaints s' = [] \<and> seen s' = ms0) \<and> rest ms0)"
    unfolding Cons.IH rest_def by blast
  also have "\<dots> \<longleftrightarrow> complaints st = [] \<and> (\<exists>v m. load n = Inr v \<and> r54_as_expected enc subject v \<and> case_member v = Inr m
      \<and> m \<notin> set (seen st) \<and> rest (m # seen st))"
    unfolding r54_case_good by blast
  also have "\<dots> \<longleftrightarrow> complaints st = []
     \<and> (\<exists>docs ms. emap load (n # names) = Inr docs \<and> list_all (r54_as_expected enc subject) docs
          \<and> emap case_member docs = Inr ms \<and> distinct ms \<and> set ms \<inter> set (seen st) = {})"
    (is "_ \<and> ?l \<longleftrightarrow> _ \<and> ?r")
  proof -
    have "?l \<longleftrightarrow> ?r"
    proof
      assume ?l
      then obtain v m docs ms where parts: "load n = Inr v" "r54_as_expected enc subject v" "case_member v = Inr m"
          "m \<notin> set (seen st)" "emap load names = Inr docs" "list_all (r54_as_expected enc subject) docs"
          "emap case_member docs = Inr ms" "distinct ms" "set ms \<inter> set (m # seen st) = {}"
        unfolding rest_def by blast
      then have "emap load (n # names) = Inr (v # docs)" "emap case_member (v # docs) = Inr (m # ms)" by simp_all
      moreover have "distinct (m # ms)" "set (m # ms) \<inter> set (seen st) = {}" using parts(4,8,9) by auto
      moreover have "list_all (r54_as_expected enc subject) (v # docs)" using parts(2,6) by simp
      ultimately show ?r by blast
    next
      assume ?r
      then obtain v docs m ms where "load n = Inr v" "emap load names = Inr docs" "list_all (r54_as_expected enc subject) (v # docs)"
          "case_member v = Inr m" "emap case_member docs = Inr ms" "distinct (m # ms)" "set (m # ms) \<inter> set (seen st) = {}"
        by (auto simp: ebind_Inr_iff)
      then show ?l unfolding rest_def by auto
    qed
    then show ?thesis by blast
  qed
  finally show ?case .
qed

lemma subject_digest_total: "\<exists>bs. subject_digest subject = Inr (sha256_bytes bs)"
proof -
  have "list_all clean (dumps compact subject)"
    unfolding dumps_def by (rule dump_ascii(1)) (simp, simp add: compact_def)
  then obtain bs where "utf8_encode (dumps compact subject) = Inr bs" by (rule write_clean)
  then show ?thesis by (auto simp: subject_digest_def)
qed

text \<open>An exit code 0 is not the one of a refusal, and every line before it has been printed.\<close>

lemma court_exit_iff:
  "(\<exists>out. (if n < bound then Inr (1, few)
      else ebind loop (\<lambda>st. ebind git (\<lambda>head.
        ebind (say enc (a head) st) (\<lambda>st. ebind (say enc b st) (\<lambda>st. ebind (say enc c st) (\<lambda>st.
        if complaints st \<noteq> [] then ebind (say enc (bad st) st) (\<lambda>st. Inr (1, printed st))
        else ebind (say enc d st) (\<lambda>st. Inr (0, printed st)))))))) = Inr (0 :: nat, out))
   \<longleftrightarrow> (bound :: nat) \<le> n \<and> (\<exists>t. loop = Inr t \<and> complaints t = [])
     \<and> (\<exists>head. git = Inr head \<and> sayable enc (a head)) \<and> sayable enc b \<and> sayable enc c \<and> sayable enc d"
  by (cases loop; cases git) (auto simp: ebind_Inr_iff split: if_splits)

text \<open>The case files of the court, in order, as documents.\<close>

definition r54_documents :: "fs \<Rightarrow> path \<Rightarrow> json list res" where
  "r54_documents fs here =
     emap (\<lambda>name. load_json_path fs (here @ [lit ''cases'', name]))
       (glob_suffix fs (here @ [lit ''cases'']) (lit ''.json''))"

text \<open>C31: the R54 run ends with exit code 0 exactly when the subject and every case file can be
  read, there are at least 25 cases, no two cases share an identifier (numbers
  that are equal count as one), for each case the verdict on the mutated subject is
  the expected one, \<open>git\<close> answers, and standard output can encode its answer and every
  identifier (an identifier with a lone surrogate ends the run on a UTF-8 output).\<close>

theorem r54_run_alive_iff:
  "(\<exists>out. r54_main enc printable fs here git = Inr (0, out)) \<longleftrightarrow>
     (\<exists>subject docs ms head. load_json_path fs (here @ [lit ''subject.json'']) = Inr subject
        \<and> r54_documents fs here = Inr docs \<and> 25 \<le> length docs
        \<and> emap case_member docs = Inr ms \<and> distinct ms
        \<and> list_all (r54_as_expected enc subject) docs \<and> git = Inr head \<and> sayable enc (strip head))"
proof (cases "load_json_path fs (here @ [lit ''subject.json''])")
  case (Inl e)
  then show ?thesis by (simp add: r54_main_def)
next
  case (Inr subject)
  note subject = Inr
  define cases where "cases = glob_suffix fs (here @ [lit ''cases'']) (lit ''.json'')"
  let ?load = "\<lambda>name. load_json_path fs (here @ [lit ''cases'', name])"
  let ?loop = "efold (\<lambda>st name. ebind (?load name) (r54_case enc printable subject st))
      \<lparr>seen = [], complaints = [], printed = []\<rparr> cases"
  obtain bs where digest: "subject_digest subject = Inr (sha256_bytes bs)" using subject_digest_total by blast
  have "(\<exists>out. r54_main enc printable fs here git = Inr (0, out)) \<longleftrightarrow>
      25 \<le> length cases \<and> (\<exists>t. ?loop = Inr t \<and> complaints t = []) \<and> (\<exists>head. git = Inr head \<and> sayable enc (strip head))"
    unfolding r54_main_def cases_def [symmetric] Let_def subject ebind.simps digest court_exit_iff
    by (simp add: sayable_lit)
  also have "\<dots> \<longleftrightarrow> 25 \<le> length cases
      \<and> (\<exists>docs ms. r54_documents fs here = Inr docs \<and> list_all (r54_as_expected enc subject) docs
          \<and> emap case_member docs = Inr ms \<and> distinct ms) \<and> (\<exists>head. git = Inr head \<and> sayable enc (strip head))"
    unfolding r54_loop by (simp add: r54_documents_def cases_def)
  also have "\<dots> \<longleftrightarrow> (\<exists>docs ms head. r54_documents fs here = Inr docs \<and> 25 \<le> length docs
        \<and> emap case_member docs = Inr ms \<and> distinct ms \<and> list_all (r54_as_expected enc subject) docs
        \<and> git = Inr head \<and> sayable enc (strip head))"
    unfolding r54_documents_def cases_def [symmetric]
    by (cases "emap ?load cases") (auto simp: emap_Inr_length)
  finally show ?thesis using Inr by auto
qed

section \<open>The R79 run\<close>

text \<open>
  The subject after \<open>update\<close> with an object, or with a list of pairs: the last
  value of a key wins over the subject's. Keys that are no text are never looked up.
\<close>

definition update_item :: "json \<Rightarrow> json \<times> json \<Rightarrow> bool" where
  "update_item kv p \<longleftrightarrow> iter_json kv = Inr [fst p, snd p] \<and> (\<exists>m. set_member (fst p) = Inr m)"

definition overlaid :: "json dict \<Rightarrow> (json \<times> json) list \<Rightarrow> json dict \<Rightarrow> bool" where
  "overlaid base pairs s \<longleftrightarrow>
     (\<forall>k. map_of s k = (case map_of (rev pairs) (JStr k) of None \<Rightarrow> map_of base k | v \<Rightarrow> v))"

definition updated :: "json dict \<Rightarrow> json \<Rightarrow> json dict \<Rightarrow> bool" where
  "updated base u s \<longleftrightarrow>
     (case u of
        JObj sets \<Rightarrow> overlaid base (map (map_prod JStr id) sets) s
      | _ \<Rightarrow> \<exists>kvs pairs. iter_json u = Inr kvs \<and> list_all2 update_item kvs pairs \<and> overlaid base pairs s)"

definition add_item :: "json \<times> json \<Rightarrow> json dict \<Rightarrow> json dict" where
  "add_item p s = (case fst p of JStr name \<Rightarrow> AList.update name (snd p) s | _ \<Rightarrow> s)"

lemma overlaid_fold: "overlaid base pairs (fold add_item pairs base)"
proof (induction pairs arbitrary: base)
  case (Cons p pairs)
  have "map_of (add_item p base) k = (if fst p = JStr k then Some (snd p) else map_of base k)" for k
    by (auto simp: add_item_def update_conv' split: json.splits)
  with Cons show ?case
    by (cases p) (auto simp: overlaid_def map_add_def split: option.splits)
qed (simp add: overlaid_def)

lemma overlaid_unique: "overlaid base pairs s \<Longrightarrow> overlaid base pairs t \<Longrightarrow> map_of s = map_of t"
  by (simp add: overlaid_def fun_eq_iff)

lemma update_pair_iff: "update_pair s kv = Inr t \<longleftrightarrow> (\<exists>p. update_item kv p \<and> t = add_item p s)"
proof (cases "iter_json kv")
  case (Inr kvs)
  show ?thesis
  proof (cases "\<exists>k v. kvs = [k, v]")
    case True
    then obtain k v where kvs: "kvs = [k, v]" by blast
    have "(case m of JStr name \<Rightarrow> AList.update name v s | _ \<Rightarrow> s) = add_item (k, v) s" if "set_member k = Inr m" for m
      using that set_member_str [of k] by (cases m; cases k) (auto simp: add_item_def)
    with Inr kvs show ?thesis by (auto simp: update_pair_def update_item_def res_dest)
  next
    case False
    with Inr show ?thesis by (auto simp: update_pair_def update_item_def split: list.splits)
  qed
qed (simp add: update_pair_def update_item_def)

lemma dict_update_iff: "dict_update base u = Inr s \<Longrightarrow> updated base u s"
  "updated base u t \<Longrightarrow> \<exists>s. dict_update base u = Inr s \<and> map_of s = map_of t"
proof -
  have obj: "fold (\<lambda>(k, v) s. AList.update k v s) sets base = fold add_item (map (map_prod JStr id) sets) base" for sets
    by (induction sets arbitrary: base) (auto simp: add_item_def)
  have arr: "efold update_pair base kvs = Inr s \<longleftrightarrow> (\<exists>pairs. list_all2 update_item kvs pairs \<and> s = fold add_item pairs base)"
    for kvs s by (rule efold_collect_iff) (rule update_pair_iff)
  show "updated base u s" if "dict_update base u = Inr s"
    using that overlaid_fold arr
    by (cases u) (auto simp: dict_update_def updated_def obj ebind_Inr_iff)
  show "\<exists>s. dict_update base u = Inr s \<and> map_of s = map_of t" if "updated base u t"
  proof (cases "\<exists>sets. u = JObj sets")
    case True
    then obtain sets where "u = JObj sets" by blast
    with that overlaid_unique [OF overlaid_fold] show ?thesis by (auto simp: dict_update_def updated_def obj)
  next
    case False
    with that obtain kvs pairs where "iter_json u = Inr kvs" "list_all2 update_item kvs pairs" "overlaid base pairs t"
      by (auto simp: updated_def split: json.splits)
    moreover from this have "efold update_pair base kvs = Inr (fold add_item pairs base)" using arr by blast
    moreover have "dict_update base u = ebind (iter_json u) (efold update_pair base)"
      using False by (simp add: dict_update_def split: json.split)
    ultimately show ?thesis using overlaid_unique [OF overlaid_fold] by auto
  qed
qed

lemma r79_classify_cong: "map_of s = map_of t \<Longrightarrow> r79_classify s = r79_classify t"
proof -
  assume eq: "map_of s = map_of t"
  then have fields: "get_or s = get_or t" "states s = states t" by (simp_all add: fun_eq_iff get_or_def states_def)
  then have texts: "hex40_field s = hex40_field t" "authority_of s = authority_of t"
    by (simp_all add: fun_eq_iff hex40_field_def authority_of_def)
  show ?thesis unfolding r79_classify_def eq fields texts ..
qed

definition r79_as_expected :: "(nat \<Rightarrow> bool) \<Rightarrow> json dict \<Rightarrow> json \<Rightarrow> bool" where
  "r79_as_expected enc subject v \<longleftrightarrow>
     (\<exists>d s actual cid. v = JObj d \<and> updated subject (get_or d (lit ''set'') (JObj [])) s
        \<and> first_failure (lit ''ALIVE'') r79_checks s actual \<and> fld d ''expected'' = Some (JStr actual)
        \<and> fld d ''id'' = Some (JStr cid) \<and> sayable enc cid)"

lemma r79_as_expected_iff:
  "r79_as_expected enc subject v \<longleftrightarrow>
     (\<exists>d candidate actual cid. v = JObj d
        \<and> dict_update subject (get_or d (lit ''set'') (JObj [])) = Inr candidate
        \<and> r79_classify candidate = Inr actual \<and> fld d ''expected'' = Some (JStr actual)
        \<and> fld d ''id'' = Some (JStr cid) \<and> sayable enc cid)"
proof -
  have "(\<exists>s. updated base u s \<and> r79_classify s = Inr actual)
      \<longleftrightarrow> (\<exists>s. dict_update base u = Inr s \<and> r79_classify s = Inr actual)" for base u actual
    using dict_update_iff [of base u] r79_classify_cong by metis
  then show ?thesis unfolding r79_as_expected_def r79.verdict_iff [symmetric] by blast
qed

lemma r79_case_good:
  "(\<exists>t. r79_case enc subject st v = Inr t \<and> complaints t = [])
     \<longleftrightarrow> complaints st = [] \<and> r79_as_expected enc subject v"
proof
  assume "\<exists>t. r79_case enc subject st v = Inr t \<and> complaints t = []"
  then show "complaints st = [] \<and> r79_as_expected enc subject v"
    by (auto simp: r79_case_def r79_as_expected_iff Let_def res_dest complain_def split: if_splits)
next
  assume "complaints st = [] \<and> r79_as_expected enc subject v"
  then show "\<exists>t. r79_case enc subject st v = Inr t \<and> complaints t = []"
    by (auto simp: r79_case_def r79_as_expected_iff say_def)
qed

text \<open>The state the R79 loop starts from, and its end.\<close>

definition r79_start :: "str \<Rightarrow> court_run" where
  "r79_start standing =
     (if standing \<noteq> lit ''ALIVE'' then complain (lit ''baseline='' @ standing) \<lparr>seen = [], complaints = [], printed = []\<rparr>
      else \<lparr>seen = [], complaints = [], printed = []\<rparr>)"

lemma r79_start_complaints [simp]: "complaints (r79_start standing) = [] \<longleftrightarrow> standing = lit ''ALIVE''"
  by (simp add: r79_start_def complain_def)

lemma r79_exit_iff:
  "(\<exists>out. ebind (say enc a st) (\<lambda>st. ebind (say enc b st) (\<lambda>st. ebind (say enc c st) (\<lambda>st.
      if complaints st \<noteq> [] then ebind (say enc (bad st) st) (\<lambda>st. Inr (1, printed st))
      else Inr (0, printed st)))) = Inr (0 :: nat, out))
   \<longleftrightarrow> complaints st = [] \<and> sayable enc a \<and> sayable enc b \<and> sayable enc c"
  by (auto simp: ebind_Inr_iff split: if_splits)

lemma r79_main_zero:
  "(\<exists>out. r79_main enc fs here = Inr (0, out)) \<longleftrightarrow>
     (\<exists>subject cases_doc docs standing t. load_json_path fs (here @ [lit ''subject.json'']) = Inr (JObj subject)
        \<and> load_json_path fs (here @ [lit ''cases.json'']) = Inr cases_doc \<and> iter_json cases_doc = Inr docs
        \<and> r79_classify subject = Inr standing
        \<and> efold (r79_case enc subject) (r79_start standing) docs = Inr t \<and> complaints t = [])"
  (is "?l \<longleftrightarrow> ?r")
proof
  assume ?l
  then show ?r
    unfolding r79_main_def Let_def r79_start_def [symmetric] ebind_Inr_iff of_option_Inr_iff the_obj_Some say_Inr
    by (auto simp: ebind_Inr_iff split: if_splits)
next
  assume ?r
  then obtain subject cases_doc docs standing t where parts:
      "load_json_path fs (here @ [lit ''subject.json'']) = Inr (JObj subject)"
      "load_json_path fs (here @ [lit ''cases.json'']) = Inr cases_doc" "iter_json cases_doc = Inr docs"
      "r79_classify subject = Inr standing"
      "efold (r79_case enc subject) (r79_start standing) docs = Inr t" and none: "complaints t = []" by blast
  obtain bs where "subject_digest (JObj subject) = Inr (sha256_bytes bs)" using subject_digest_total by blast
  with parts have "(\<exists>out. r79_main enc fs here = Inr (0, out)) \<longleftrightarrow>
      complaints t = [] \<and> sayable enc (lit ''R79_CONSUMER='' @ standing)
      \<and> sayable enc (lit ''SUBJECT_DIGEST='' @ sha256_bytes bs) \<and> sayable enc (lit ''CASE_COUNT='' @ dec_nat (length docs))"
    unfolding r79_main_def Let_def r79_start_def [symmetric] by (simp add: r79_exit_iff del: sayable_simps)
  with none sayable_verdict(2) [OF parts(4)] show ?l by (simp add: sayable_lit)
qed

text \<open>C33: the R79 run ends with exit code 0 exactly when subject and cases can be read, the
  subject itself is ALIVE, and every case has a textual identifier that standard
  output can encode and the verdict on the updated subject that it expects.\<close>

theorem r79_run_alive_iff:
  "(\<exists>out. r79_main enc fs here = Inr (0, out)) \<longleftrightarrow>
     (\<exists>subject cases_doc docs. load_json_path fs (here @ [lit ''subject.json'']) = Inr (JObj subject)
        \<and> load_json_path fs (here @ [lit ''cases.json'']) = Inr cases_doc \<and> iter_json cases_doc = Inr docs
        \<and> list_all (\<lambda>c. snd c subject = Inr True) r79_checks
        \<and> list_all (r79_as_expected enc subject) docs)"
proof -
  have "(\<exists>standing t. r79_classify subject = Inr standing
        \<and> efold (r79_case enc subject) (r79_start standing) docs = Inr t \<and> complaints t = [])
      \<longleftrightarrow> r79_classify subject = Inr (lit ''ALIVE'') \<and> list_all (r79_as_expected enc subject) docs" for subject docs
    using efold_good [of "r79_case enc subject" "\<lambda>t. complaints t = []" "r79_as_expected enc subject",
        OF r79_case_good] by auto
  then show ?thesis unfolding r79_main_zero r79_alive_iff [symmetric] by blast
qed

section \<open>The subjects of the repository\<close>

text \<open>The two \<open>subject.json\<close> files, as documents: both courts find their subject ALIVE, and refuse it
  with the authority to DO.\<close>

definition r54_subject :: "json dict" where
  "r54_subject = map (\<lambda>(k, v). (lit k, v))
     [(''schema'', JStr (lit ''ggen.epistemic-consumer-subject/1'')),
      (''consumer_repo'', JStr (lit ''seanchatmangpt/ex4pm'')),
      (''consumer_base'', JStr (lit ''a2795bcb1f0c49cbaaac91749edf7ef7c68d3a23'')),
      (''producer_repo'', JStr (lit ''seanchatmangpt/ggen-marketplace'')),
      (''producer_head'', JStr (lit ''0f3349afe3fe12a26932974b8e6a47399b1e94ab'')),
      (''producer_pack'', JStr (lit ''epistemic-sensor-factory-pack'')),
      (''producer_target_token'', JStr (lit ''esf:ex4pmTarget'')),
      (''authority'', JStr (lit ''OBSERVE|VERIFY|CONSTRUCT'')),
      (''consequential_do'', JBool False),
      (''evidence_root'', JStr (lit ''ex4pm-r54-independent-root'')),
      (''standing'', JStr (lit ''ADMITTED''))]"

definition r79_subject :: "json dict" where
  "r79_subject = map (\<lambda>(k, v). (lit k, v))
     [(''schema'', JStr (lit ''ggen.tcps-ready-set-consumer/v1'')),
      (''consumer_repo'', JStr (lit ''seanchatmangpt/ex4pm'')),
      (''consumer_base'', JStr (lit ''e2e36755f87c9a5297ed1d2727929f6a7031caf2'')),
      (''producer_repo'', JStr (lit ''seanchatmangpt/ggen-marketplace'')),
      (''producer_head'', JStr (lit ''aef231ceb3e27150366a11b547dd115720230880'')),
      (''producer_pack'', JStr (lit ''portfolio-epistemic-observability-pack'')),
      (''producer_capability'', JStr (lit ''R78_TCPS_READY_SET_CAPITAL'')),
      (''prior_consumer_standing'', JStr (lit ''MERGED_ALIVE'')),
      (''allocation_law'', JStr (lit ''legality-before-priority'')),
      (''authority'', JStr (lit ''VERIFY|CONSTRUCT'')),
      (''consequential_do'', JBool False),
      (''standing'', JStr (lit ''ADMITTED''))]"

lemma split_authority:
  "split_on 124 (lit ''OBSERVE|VERIFY|CONSTRUCT'') = map lit [''OBSERVE'', ''VERIFY'', ''CONSTRUCT'']"
  "split_on 124 (lit ''OBSERVE|VERIFY|DO'') = map lit [''OBSERVE'', ''VERIFY'', ''DO'']"
  "split_on 124 (lit ''VERIFY|CONSTRUCT'') = map lit [''VERIFY'', ''CONSTRUCT'']"
  by (simp_all add: split_on_def lit_def)

lemma exact_commit_lit:
  "fld s k = Some (JStr (lit t)) \<Longrightarrow> length t = 40 \<Longrightarrow> list_all (is_hex_lower \<circ> of_char) t \<Longrightarrow> exact_commit s k"
  by (simp add: exact_commit_def lit_def list.pred_map comp_def)

lemma r54_subject_alive: "r54_classify r54_subject = Inr (lit ''ALIVE'')"
  unfolding r54.passes_iff
  by (simp add: r54_checks_def hex40_field_iff fence_check_iff)
    (simp add: r54_subject_def states_def do_forbidden_def verify_only_def get_or_def split_authority
      exact_commit_lit is_hex_lower_def)

lemma r79_subject_alive: "r79_classify r79_subject = Inr (lit ''ALIVE'')"
  unfolding r79.passes_iff
  by (simp add: r79_checks_def hex40_field_iff fence_check_iff)
    (simp add: r79_subject_def states_def do_forbidden_def verify_only_def get_or_def split_authority
      exact_commit_lit is_hex_lower_def)

text \<open>The case \<open>authority-do\<close> of the R54 court.\<close>

lemma r54_authority_do:
  "ebind (mutate r54_subject [(lit ''set'', JObj [(lit ''authority'', JStr (lit ''OBSERVE|VERIFY|DO''))])]) r54_classify
     = Inr (refused ''AUTHORITY_FENCE'')"
proof -
  have m: "mutate r54_subject [(lit ''set'', JObj [(lit ''authority'', JStr (lit ''OBSERVE|VERIFY|DO''))])]
      = Inr (AList.update (lit ''authority'') (JStr (lit ''OBSERVE|VERIFY|DO'')) r54_subject)"
    by (simp add: mutate_def get_or_def)
  let ?s = "AList.update (lit ''authority'') (JStr (lit ''OBSERVE|VERIFY|DO'')) r54_subject"
  have "hex40_field ?s ''consumer_base'' = Inr True" "hex40_field ?s ''producer_head'' = Inr True"
    unfolding hex40_field_iff
    by (simp_all add: r54_subject_def exact_commit_lit is_hex_lower_def update_conv')
  moreover have "authority_of ?s = Inr (map lit [''OBSERVE'', ''VERIFY'', ''DO''])"
    by (simp add: authority_of_def get_or_def update_conv' split_authority)
  ultimately show ?thesis
    by (simp add: m r54_classify_def) (simp add: r54_subject_def states_def update_conv')
qed

end
