(* ===== verification/ConsumerCourt.thy ===== *)
theory ConsumerCourt
  imports SubjectCourts
begin

text \<open>
  \<open>verification/r58-consumer/run_court.py\<close>: the contract of the subject, the census
  of the queries, the court over them, and the receipt every outcome leaves. The
  RDF library is a parameter: \<open>parse\<close> reads a Turtle document into a graph, and
  \<open>ask\<close> is the truth value of a query's \<open>askAnswer\<close>; either may raise.
\<close>

section \<open>The subject contract\<close>

definition EXPECTED_CONSUMER :: string where
  "EXPECTED_CONSUMER = ''e12fccb42a67bc4496cac91c86bff2b856cc463d''"

definition EXPECTED_PRODUCER :: string where
  "EXPECTED_PRODUCER = ''8bd29043a2818a5fb6a4de65cc403eff8e495b58''"

text \<open>\<open>re.fullmatch(r"[0-9a-f]{40}", subject.get(k, ""))\<close>\<close>

definition r58_sha :: rx where
  "r58_sha = exactly 40 (one_of [span_item CHR ''0'' CHR ''9'', span_item CHR ''a'' CHR ''f''])"

definition sha_shaped :: "json dict \<Rightarrow> string \<Rightarrow> bool res" where
  "sha_shaped subject k =
     ebind (of_option TypeError (the_str (get_or subject (lit k) (JStr [])))) (\<lambda>t. Inr (re_fullmatch r58_sha t \<noteq> None))"

text \<open>\<open>all(...)\<close> stops at the first field without the shape.\<close>

definition sha_shape :: "json dict \<Rightarrow> bool res" where
  "sha_shape subject =
     ebind (sha_shaped subject ''consumer_base'') (\<lambda>ok.
     if ok then sha_shaped subject ''producer_base'' else Inr False)"

definition subject_checks :: "json dict \<Rightarrow> (string \<times> bool) list res" where
  "subject_checks subject =
     ebind (sha_shape subject) (\<lambda>shape. Inr
       [(''schema'', states subject ''schema'' ''ggen.epistemic-consumer-subject/2''),
        (''consumer_repo'', states subject ''consumer_repo'' ''seanchatmangpt/ex4pm''),
        (''consumer_base'', states subject ''consumer_base'' EXPECTED_CONSUMER),
        (''producer_base'', states subject ''producer_base'' EXPECTED_PRODUCER),
        (''target'', states subject ''producer_target_token'' ''esf:ex4pmTarget''),
        (''no_do'', fld subject ''consequential_do'' = Some (JBool False)),
        (''sha_shape'', shape)])"

definition upper :: "str \<Rightarrow> str" where
  "upper = map (\<lambda>c. if 97 \<le> c \<and> c \<le> 122 then c - 32 else c)"

definition pass_line :: "str \<Rightarrow> bool \<Rightarrow> str" where
  "pass_line label ok = label @ [61] @ (if ok then lit ''PASS'' else lit ''FAIL'') @ [10]"

definition subject_lines :: "(string \<times> bool) list \<Rightarrow> str" where
  "subject_lines checks = concat (map (\<lambda>(name, ok). pass_line (lit ''SUBJECT_'' @ upper (lit name)) ok) checks)"

section \<open>Receipts\<close>

definition receipt_path_of :: "path \<Rightarrow> path" where
  "receipt_path_of here = here @ [lit ''last-receipt.json'']"

definition refused_receipt :: "string \<Rightarrow> str list \<Rightarrow> json" where
  "refused_receipt reason details =
     JObj [(lit ''schema'', JStr (lit ''ex4pm.r58-consumer-receipt/1'')),
           (lit ''standing'', JStr (lit ''REFUSED'')),
           (lit ''reason'', JStr (lit reason)),
           (lit ''details'', JArr (map JStr details)),
           (lit ''consequential_do'', JBool False)]"

definition write_receipt :: "fs \<Rightarrow> path \<Rightarrow> json \<Rightarrow> fs res" where
  "write_receipt fs here receipt =
     ebind (write_text (dumps indented receipt @ [10])) (write_file fs (receipt_path_of here))"

text \<open>The outcome: the exit code, what has been printed, the file system.\<close>

type_synonym court_outcome = "nat \<times> str \<times> fs"

definition put :: "(nat \<Rightarrow> bool) \<Rightarrow> str \<Rightarrow> str \<Rightarrow> str res" where
  "put enc out text = (if sayable enc text then Inr (out @ text) else Inl UnicodeError)"

lemma put_Inr [simp]: "put enc out text = Inr out' \<longleftrightarrow> sayable enc text \<and> out' = out @ text"
  by (auto simp: put_def)

definition refuse :: "(nat \<Rightarrow> bool) \<Rightarrow> fs \<Rightarrow> path \<Rightarrow> str \<Rightarrow> string \<Rightarrow> str list \<Rightarrow> court_outcome res" where
  "refuse enc fs here out reason details =
     ebind (write_receipt fs here (refused_receipt reason details)) (\<lambda>fs.
     ebind (put enc out (lit ''REFUSED['' @ lit reason @ lit '']='' @ join_with (lit '','') details @ [10])) (\<lambda>out.
     Inr (1, out, fs)))"

definition alive_receipt :: "nat \<Rightarrow> str \<Rightarrow> json" where
  "alive_receipt executed digest =
     JObj [(lit ''schema'', JStr (lit ''ex4pm.r58-consumer-receipt/1'')),
           (lit ''standing'', JStr (lit ''ALIVE'')),
           (lit ''consumer_repo'', JStr (lit ''seanchatmangpt/ex4pm'')),
           (lit ''consumer_base'', JStr (lit EXPECTED_CONSUMER)),
           (lit ''producer_repo'', JStr (lit ''seanchatmangpt/ggen-marketplace'')),
           (lit ''producer_base'', JStr (lit EXPECTED_PRODUCER)),
           (lit ''producer_target_token'', JStr (lit ''esf:ex4pmTarget'')),
           (lit ''courts_executed'', JInt (int executed)),
           (lit ''subject_adapter_digest_sha256'', JStr digest),
           (lit ''consequential_do'', JBool False),
           (lit ''authority'', JArr (map (JStr \<circ> lit) [''OBSERVE'', ''VERIFY'', ''CONSTRUCT'']))]"

section \<open>The court\<close>

text \<open>\<open>path.stem\<close>\<close>

definition stem :: "str \<Rightarrow> str" where
  "stem name =
     (let suffix = takeWhile (\<lambda>c. c \<noteq> 46) (rev name); n = length name - length suffix in
      if 1 < n \<and> suffix \<noteq> [] then take (n - 1) name else name)"

definition run_query ::
  "(nat \<Rightarrow> bool) \<Rightarrow> ('g \<Rightarrow> str \<Rightarrow> bool res) \<Rightarrow> fs \<Rightarrow> path \<Rightarrow> 'g \<Rightarrow> str list \<times> str \<Rightarrow> str \<Rightarrow> (str list \<times> str) res" where
  "run_query enc ask fs here graph st name =
     ebind (read_path_text fs (here @ [lit ''queries'', name])) (\<lambda>query.
     ebind (ask graph query) (\<lambda>passed.
     ebind (put enc (snd st) (pass_line (lit ''COURT_'' @ stem name) passed)) (\<lambda>out.
     Inr (if passed then fst st else fst st @ [name], out))))"

definition r58_queries :: "fs \<Rightarrow> path \<Rightarrow> str list" where
  "r58_queries fs here = glob_suffix fs (here @ [lit ''queries'']) (lit ''.rq'')"

definition r58_main ::
  "(nat \<Rightarrow> bool) \<Rightarrow> (bytes \<Rightarrow> 'g res) \<Rightarrow> ('g \<Rightarrow> str \<Rightarrow> bool res) \<Rightarrow> fs \<Rightarrow> path \<Rightarrow> court_outcome res" where
  "r58_main enc parse ask fs here =
     ebind (load_json_path fs (here @ [lit ''subject.json''])) (\<lambda>subject_doc.
     ebind (of_option AttributeError (the_obj subject_doc)) (\<lambda>subject.
     ebind (subject_checks subject) (\<lambda>checks.
     let out = subject_lines checks; failures = map fst (filter (\<lambda>c. \<not> snd c) checks) in
     if failures \<noteq> [] then refuse enc fs here out ''R58_SUBJECT_CONTRACT'' (map lit failures)
     else
       ebind (ebind (read_bytes fs (here @ [lit ''adapter.ttl''])) parse) (\<lambda>graph.
       let queries = r58_queries fs here in
       if length queries \<noteq> 20 then
         refuse enc fs here out ''R58_QUERY_CENSUS''
           [lit ''expected=20'', lit ''observed='' @ dec_nat (length queries)]
       else
         ebind (efold (run_query enc ask fs here graph) ([], out) queries) (\<lambda>(failures, out).
         if failures \<noteq> [] then refuse enc fs here out ''R58_CONSUMER_COURT'' failures
         else
           ebind (read_bytes fs (here @ [lit ''subject.json''])) (\<lambda>subject_bytes.
           ebind (read_bytes fs (here @ [lit ''adapter.ttl''])) (\<lambda>adapter_bytes.
           let digest = sha256_bytes (subject_bytes @ [10] @ adapter_bytes) in
           ebind (write_receipt fs here (alive_receipt (length queries) digest)) (\<lambda>fs.
           Inr (0, out @ lit ''R58_CONSUMER_COURT=ALIVE'' @ [10], fs)))))))))"

section \<open>Receipts are written and read back\<close>

lemma write_receipt_ok:
  assumes "write_receipt fs here receipt = Inr fs'" "json_ok receipt" "resolve fs (receipt_path_of here) = Inr q"
  shows "\<exists>bs. ebind (read_text bs) loads = Inr (sort_json receipt)
    \<and> (\<forall>p. node_at fs' p = (if p = q then Some (File bs) else node_at fs p))"
proof -
  from assms(1) obtain bs where bs: "write_text (dumps indented receipt @ [10]) = Inr bs"
      "write_file fs (receipt_path_of here) bs = Inr fs'"
    by (auto simp: write_receipt_def res_dest)
  have "ebind (read_text bs) loads = Inr (sort_json receipt)"
    using bs(1) by (intro dumps_line_read_back [where cfg = indented]) (simp_all add: assms(2))
  with write_file_node_at [OF bs(2) assms(3)] show ?thesis by blast
qed

lemma refused_receipt_ok: "list_all text_ok details \<Longrightarrow> json_ok (refused_receipt reason details)"
  by (simp add: refused_receipt_def list_all_iff)

lemma alive_receipt_ok: "json_ok (alive_receipt n (sha256_bytes bs))"
  by (simp add: alive_receipt_def)

lemma object_fields: "distinct (map fst ps) \<Longrightarrow> \<exists>r. sort_json (JObj ps) = JObj r \<and> (\<forall>k. map_of r k = map_option sort_json (map_of ps k))"
  using sort_json_fld [of ps] by (metis sort_json.simps(7))

lemma refused_receipt_fields:
  "\<exists>r. sort_json (refused_receipt reason details) = JObj r
     \<and> fld r ''standing'' = Some (JStr (lit ''REFUSED'')) \<and> fld r ''consequential_do'' = Some (JBool False)"
proof -
  define ps where "ps = (case refused_receipt reason details of JObj d \<Rightarrow> d)"
  have doc: "refused_receipt reason details = JObj ps" by (simp add: ps_def refused_receipt_def)
  have "distinct (map fst ps)" by (simp add: ps_def refused_receipt_def)
  then obtain r where "sort_json (JObj ps) = JObj r" "\<And>k. map_of r k = map_option sort_json (map_of ps k)"
    using object_fields by blast
  then show ?thesis unfolding doc by (intro exI [of _ r]) (simp add: ps_def refused_receipt_def)
qed

lemma alive_receipt_fields:
  "\<exists>r. sort_json (alive_receipt n digest) = JObj r
     \<and> fld r ''standing'' = Some (JStr (lit ''ALIVE'')) \<and> fld r ''consequential_do'' = Some (JBool False)
     \<and> fld r ''subject_adapter_digest_sha256'' = Some (JStr digest)"
proof -
  define ps where "ps = (case alive_receipt n digest of JObj d \<Rightarrow> d)"
  have doc: "alive_receipt n digest = JObj ps" by (simp add: ps_def alive_receipt_def)
  have "distinct (map fst ps)" by (simp add: ps_def alive_receipt_def)
  then obtain r where "sort_json (JObj ps) = JObj r" "\<And>k. map_of r k = map_option sort_json (map_of ps k)"
    using object_fields by blast
  then show ?thesis unfolding doc by (intro exI [of _ r]) (simp add: ps_def alive_receipt_def)
qed

text \<open>The receipt of a refusal has none of the identities that \<open>receipt.schema.json\<close> requires of every receipt.\<close>

lemma refused_receipt_incomplete:
  "\<exists>r. refused_receipt reason details = JObj r
     \<and> list_all (\<lambda>k. map_of r (lit k) = None)
         [''consumer_repo'', ''consumer_base'', ''producer_repo'', ''producer_base'', ''courts_executed'']"
  by (simp add: refused_receipt_def)

text \<open>What the loop over the queries collects.\<close>

lemma run_queries:
  "efold (run_query enc ask fs here graph) (failures, out) names = Inr (failures', out') \<Longrightarrow>
   \<exists>answers. list_all2 (\<lambda>n passed. \<exists>q. read_path_text fs (here @ [lit ''queries'', n]) = Inr q \<and> ask graph q = Inr passed)
       names answers
     \<and> failures' = failures @ map fst (filter (\<lambda>p. \<not> snd p) (zip names answers))"
proof (induction names arbitrary: failures out)
  case Nil
  then show ?case by simp
next
  case (Cons n names)
  from Cons.prems obtain q passed where q: "read_path_text fs (here @ [lit ''queries'', n]) = Inr q" "ask graph q = Inr passed"
    and rest: "efold (run_query enc ask fs here graph) (if passed then failures else failures @ [n],
        out @ pass_line (lit ''COURT_'' @ stem n) passed) names = Inr (failures', out')"
    by (simp add: ebind_Inr_iff) (auto simp: run_query_def [of enc ask fs here graph "(failures, out)"] res_dest cong: if_cong)
  from Cons.IH [OF rest] obtain answers where
    "list_all2 (\<lambda>n passed. \<exists>q. read_path_text fs (here @ [lit ''queries'', n]) = Inr q \<and> ask graph q = Inr passed) names answers"
    "failures' = (if passed then failures else failures @ [n]) @ map fst (filter (\<lambda>p. \<not> snd p) (zip names answers))"
    by blast
  with q show ?case by (intro exI [of _ "passed # answers"]) auto
qed

lemma refuse_iff:
  "refuse enc fs here out reason details = Inr (code, out', fs') \<longleftrightarrow>
     code = 1 \<and> write_receipt fs here (refused_receipt reason details) = Inr fs'
     \<and> sayable enc (lit ''REFUSED['' @ lit reason @ lit '']='' @ join_with (lit '','') details @ [10])
     \<and> out' = out @ lit ''REFUSED['' @ lit reason @ lit '']='' @ join_with (lit '','') details @ [10]"
  by (auto simp: refuse_def res_dest simp del: sayable_simps)

text \<open>Every outcome comes with a receipt.\<close>

lemma r58_outcome:
  assumes "r58_main enc parse ask fs here = Inr (code, out, fs')"
  shows "(code = 1 \<and> (\<exists>reason details. write_receipt fs here (refused_receipt reason details) = Inr fs'
            \<and> (list_all text_ok (r58_queries fs here) \<longrightarrow> list_all text_ok details)))
    \<or> (code = 0 \<and> (\<exists>subject adapter. read_bytes fs (here @ [lit ''subject.json'']) = Inr subject
            \<and> read_bytes fs (here @ [lit ''adapter.ttl'']) = Inr adapter
            \<and> write_receipt fs here (alive_receipt 20 (sha256_bytes (subject @ [10] @ adapter))) = Inr fs'))"
proof -
  from assms obtain subject checks where s: "load_json_path fs (here @ [lit ''subject.json'']) = Inr (JObj subject)"
      "subject_checks subject = Inr checks"
    by (auto simp: r58_main_def res_dest)
  let ?failures = "map fst (filter (\<lambda>c. \<not> snd c) checks)"
  show ?thesis
  proof (cases "?failures = []")
    case False
    with assms s have "refuse enc fs here (subject_lines checks) ''R58_SUBJECT_CONTRACT'' (map lit ?failures) = Inr (code, out, fs')"
      by (simp add: r58_main_def)
    then have "code = 1" "write_receipt fs here (refused_receipt ''R58_SUBJECT_CONTRACT'' (map lit ?failures)) = Inr fs'"
      unfolding refuse_iff by blast+
    moreover have "list_all text_ok (map lit ?failures)" by (simp add: list_all_iff)
    ultimately show ?thesis by blast
  next
    case True
    with assms s obtain graph where graph: "ebind (read_bytes fs (here @ [lit ''adapter.ttl''])) parse = Inr graph"
      by (auto simp: r58_main_def Let_def res_dest)
    show ?thesis
    proof (cases "length (r58_queries fs here) = 20")
      case False
      let ?details = "[lit ''expected=20'', lit ''observed='' @ dec_nat (length (r58_queries fs here))]"
      from False assms s True graph have "refuse enc fs here (subject_lines checks) ''R58_QUERY_CENSUS'' ?details = Inr (code, out, fs')"
        by (simp add: r58_main_def)
      then have "code = 1" "write_receipt fs here (refused_receipt ''R58_QUERY_CENSUS'' ?details) = Inr fs'"
        unfolding refuse_iff by blast+
      moreover have "list_all text_ok ?details" by simp
      ultimately show ?thesis by blast
    next
      case twenty: True
      with assms s True graph obtain fails out1 where loop:
          "efold (run_query enc ask fs here graph) ([], subject_lines checks) (r58_queries fs here) = Inr (fails, out1)"
        by (auto simp: r58_main_def Let_def res_dest)
      show ?thesis
      proof (cases "fails = []")
        case False
        with assms s True graph twenty loop have "refuse enc fs here out1 ''R58_CONSUMER_COURT'' fails = Inr (code, out, fs')"
          by (simp add: r58_main_def)
        then have "code = 1" "write_receipt fs here (refused_receipt ''R58_CONSUMER_COURT'' fails) = Inr fs'"
          unfolding refuse_iff by blast+
        moreover have "set fails \<subseteq> set (r58_queries fs here)"
          using run_queries [OF loop] by (auto elim!: in_set_zipE)
        then have "list_all text_ok (r58_queries fs here) \<longrightarrow> list_all text_ok fails" by (auto simp: list_all_iff)
        ultimately show ?thesis by blast
      next
        case none: True
        from assms s True graph twenty loop none show ?thesis
          by (auto simp: r58_main_def Let_def res_dest)
      qed
    qed
  qed
qed

section \<open>Properties\<close>

text \<open>C34: every outcome of the R58 court leaves a truthful receipt: the exit code is 0 or 1, the
  receipt reads back with the standing of that code and \<open>consequential_do\<close> false,
  the receipt of an ALIVE court states the digest of subject and adapter, and
  no other file has changed.\<close>

theorem r58_receipt_truthful:
  assumes "r58_main enc parse ask fs here = Inr (code, out, fs')"
    and "resolve fs (receipt_path_of here) = Inr q" "list_all text_ok (r58_queries fs here)"
  shows "code \<in> {0, 1} \<and> (\<exists>bs receipt. node_at fs' q = Some (File bs) \<and> ebind (read_text bs) loads = Inr (JObj receipt)
      \<and> fld receipt ''standing'' = Some (JStr (if code = 0 then lit ''ALIVE'' else lit ''REFUSED''))
      \<and> fld receipt ''consequential_do'' = Some (JBool False)
      \<and> (code = 1 \<or> (\<exists>subject adapter. read_bytes fs (here @ [lit ''subject.json'']) = Inr subject
           \<and> read_bytes fs (here @ [lit ''adapter.ttl'']) = Inr adapter
           \<and> fld receipt ''subject_adapter_digest_sha256'' = Some (JStr (sha256_bytes (subject @ [10] @ adapter))))))
    \<and> (\<forall>p. p = q \<or> node_at fs' p = node_at fs p)"
  using r58_outcome [OF assms(1)]
proof (elim disjE conjE exE)
  fix reason details
  assume c: "code = 1" and w: "write_receipt fs here (refused_receipt reason details) = Inr fs'"
    and "list_all text_ok (r58_queries fs here) \<longrightarrow> list_all text_ok details"
  with assms(3) have "json_ok (refused_receipt reason details)" by (simp add: refused_receipt_ok)
  from write_receipt_ok [OF w this assms(2)] obtain bs where bs:
      "ebind (read_text bs) loads = Inr (sort_json (refused_receipt reason details))"
      "\<And>p. node_at fs' p = (if p = q then Some (File bs) else node_at fs p)" by blast
  obtain r where r: "sort_json (refused_receipt reason details) = JObj r"
      "fld r ''standing'' = Some (JStr (lit ''REFUSED''))" "fld r ''consequential_do'' = Some (JBool False)"
    using refused_receipt_fields [of _ _] by blast
  with bs c show ?thesis by (auto intro!: exI [of _ bs])
next
  fix subject adapter
  assume c: "code = 0" and io: "read_bytes fs (here @ [lit ''subject.json'']) = Inr subject"
      "read_bytes fs (here @ [lit ''adapter.ttl'']) = Inr adapter"
    and w: "write_receipt fs here (alive_receipt 20 (sha256_bytes (subject @ [10] @ adapter))) = Inr fs'"
  from write_receipt_ok [OF w alive_receipt_ok assms(2)] obtain bs where bs:
      "ebind (read_text bs) loads = Inr (sort_json (alive_receipt 20 (sha256_bytes (subject @ [10] @ adapter))))"
      "\<And>p. node_at fs' p = (if p = q then Some (File bs) else node_at fs p)" by blast
  obtain r where r: "sort_json (alive_receipt 20 (sha256_bytes (subject @ [10] @ adapter))) = JObj r"
      "fld r ''standing'' = Some (JStr (lit ''ALIVE''))" "fld r ''consequential_do'' = Some (JBool False)"
      "fld r ''subject_adapter_digest_sha256'' = Some (JStr (sha256_bytes (subject @ [10] @ adapter)))"
    using alive_receipt_fields [of _ _] by blast
  with bs c io show ?thesis by (auto intro!: exI [of _ bs])
qed

text \<open>A world whose subject is an empty object: the contract is refused.\<close>

definition ex_r58_fs :: fs where
  "ex_r58_fs = [([lit ''subject.json''], File [123, 125])]"

lemma ex_r58_names: "plain_name (lit ''subject.json'')" "plain_name (lit ''last-receipt.json'')" "plain_name (lit ''queries'')"
  by (simp_all add: plain_name_def)

lemma ex_r58_canonical: "plain_name c \<Longrightarrow> canonical ex_r58_fs [c]"
  by (simp add: canonical_def ex_r58_fs_def link_target_def)

lemma no_sha: "re_fullmatch r58_sha [] = None"
  using re_fullmatch_iff [of r58_sha "[]"] by (auto simp: r58_sha_def matches_exactly start_def)

lemma sayable_join: "sayable enc sep \<Longrightarrow> list_all (sayable enc) xs \<Longrightarrow> sayable enc (join_with sep xs)"
  by (induction xs) simp_all

lemma sayable_checks: "subject_checks subject = Inr checks \<Longrightarrow> list_all (\<lambda>c. sayable enc (lit (fst c))) checks"
  by (auto simp: subject_checks_def res_dest sayable_lit)

lemma ex_r58_run: "\<exists>out fs'. r58_main enc parse ask ex_r58_fs [] = Inr (1, out, fs')"
proof -
  have bytes: "read_bytes ex_r58_fs [lit ''subject.json''] = Inr [123, 125]"
    using ex_r58_canonical [OF ex_r58_names(1)] by (rule read_bytes_plain) (simp_all add: ex_r58_fs_def node_at_def)
  have "utf8_encode (dump compact 0 (JObj [])) = Inr [123, 125]"
    by (simp add: utf8_encode_def is_scalar_def utf8_of_cp_def lit_def)
  then have "read_text [123, 125] = Inr (dump compact 0 (JObj []))"
    using read_write_text [of "dump compact 0 (JObj [])"] by (simp add: write_text_def lit_def)
  then have "load_json_path ex_r58_fs [lit ''subject.json''] = Inr (JObj [])"
    using bytes loads_dump [OF layouts_ok(1), of "JObj []"] by (simp add: load_json_path_def read_path_text_def)
  moreover obtain checks where checks: "subject_checks [] = Inr checks" "map fst (filter (\<lambda>c. \<not> snd c) checks) \<noteq> []"
    by (auto simp: subject_checks_def sha_shape_def sha_shaped_def get_or_def states_def no_sha)
  moreover obtain bs where "write_text (dumps indented (refused_receipt ''R58_SUBJECT_CONTRACT''
      (map lit (map fst (filter (\<lambda>c. \<not> snd c) checks)))) @ [10]) = Inr bs"
    by (rule dumps_ascii_writes [OF layouts_clean(3)]) (simp add: indented_def)
  moreover have "write_file ex_r58_fs [lit ''last-receipt.json''] bs = Inr (put_file [lit ''last-receipt.json''] bs ex_r58_fs)"
    using ex_r58_canonical [OF ex_r58_names(2)] by (rule write_file_plain) (simp_all add: ex_r58_fs_def node_at_def)
  moreover have "sayable enc (join_with (lit '','') (map lit (map fst (filter (\<lambda>c. \<not> snd c) checks))))"
    using sayable_checks [OF checks(1), of enc] by (intro sayable_join) (auto simp: list_all_iff sayable_lit)
  ultimately show ?thesis
    by (simp add: r58_main_def refuse_def write_receipt_def receipt_path_of_def put_def sayable_lit)
qed

theorem r58_receipt_truthful_witness:
  "\<exists>out fs' bs receipt. r58_main is_scalar Inr (\<lambda>g q. Inr True) ex_r58_fs [] = Inr (1, out, fs')
     \<and> node_at fs' [lit ''last-receipt.json''] = Some (File bs) \<and> ebind (read_text bs) loads = Inr (JObj receipt)
     \<and> fld receipt ''standing'' = Some (JStr (lit ''REFUSED''))"
proof -
  obtain out fs' where run: "r58_main is_scalar Inr (\<lambda>g q. Inr True) ex_r58_fs [] = Inr (1, out, fs')"
    using ex_r58_run by blast
  have "resolve ex_r58_fs (receipt_path_of []) = Inr [lit ''last-receipt.json'']"
    by (simp add: receipt_path_of_def resolve_plain ex_r58_canonical ex_r58_names)
  moreover have "r58_queries ex_r58_fs [] = []"
    by (simp add: r58_queries_def glob_suffix_def locate_plain ex_r58_canonical ex_r58_names)
      (simp add: ex_r58_fs_def sorted_set_def)
  ultimately show ?thesis using r58_receipt_truthful [OF run] run by auto
qed

end
