(* ===== verification/ArgParse.thy ===== *)
theory ArgParse
  imports PyJson
begin

text \<open>
  The command lines of the programs: \<open>argparse.ArgumentParser\<close> of Python 3.12 for
  what the programs declare, which is positionals and long options of one value
  each, with \<open>required\<close>, \<open>default\<close>, \<open>type=int\<close> or \<open>type=Path\<close>, and \<open>choices\<close>. Options
  may be abbreviated, take their value after \<open>=\<close> or as the next argument, and
  stand between the positionals; \<open>--\<close> ends them; \<open>-h\<close> prints the help and exits 0,
  and every error exits 2. The texts of help and usage are not modelled.
\<close>

section \<open>Parsers\<close>

text \<open>
  \<open>EmptyArg\<close> is the empty list that 3.12 leaves for a positional when it takes the
  only argument to be the separator \<open>--\<close>.
\<close>

datatype arg_value = Missing | TextArg str | IntArg int | EmptyArg

datatype conversion = AsText | AsInt

record arg_spec =
  flag :: "str option"
  dest :: str
  required :: bool
  preset :: arg_value
  conversion :: conversion
  choices :: "str list option"

type_synonym parser = "arg_spec list"

type_synonym namespace = "arg_value dict"

text \<open>\<open>option_string.lstrip("-").replace("-", "_")\<close>\<close>

definition dest_of :: "str \<Rightarrow> str" where
  "dest_of name = map (\<lambda>c. if c = 45 then 95 else c) (dropWhile (\<lambda>c. c = 45) name)"

definition positional :: "string \<Rightarrow> arg_spec" where
  "positional name = \<lparr>flag = None, dest = lit name, required = True, preset = Missing,
     conversion = AsText, choices = None\<rparr>"

definition optional :: "string \<Rightarrow> arg_value \<Rightarrow> arg_spec" where
  "optional name value = \<lparr>flag = Some (lit name), dest = dest_of (lit name), required = False,
     preset = value, conversion = AsText, choices = None\<rparr>"

definition mandatory :: "string \<Rightarrow> arg_spec" where
  "mandatory name = (optional name Missing)\<lparr>required := True\<rparr>"

datatype parse_exit = HelpExit | UsageExit

section \<open>The arguments as tokens\<close>

datatype action = HelpAction | StoreAction arg_spec

definition flag_action :: "arg_spec \<Rightarrow> (str \<times> action) option" where
  "flag_action s = map_option (\<lambda>f. (f, StoreAction s)) (flag s)"

definition actions :: "parser \<Rightarrow> action dict" where
  "actions P = [(lit ''-h'', HelpAction), (lit ''--help'', HelpAction)] @ List.map_filter flag_action P"

text \<open>
  An option token has its name, whether \<open>=\<close> was there, and the value in the same
  argument.
\<close>

datatype token = Plain | Dashes | Unknown | Opt action str bool "str option"

definition is_opt :: "token \<Rightarrow> bool" where
  "is_opt t \<longleftrightarrow> t \<noteq> Plain \<and> t \<noteq> Dashes"

lemma is_opt_simps [simp]: "\<not> is_opt Plain" "\<not> is_opt Dashes" "is_opt Unknown" "is_opt (Opt a n e v)"
  by (simp_all add: is_opt_def)

definition partition_eq :: "str \<Rightarrow> str \<times> str option" where
  "partition_eq s =
     (takeWhile (\<lambda>c. c \<noteq> 61) s, if 61 \<in> set s then Some (tl (dropWhile (\<lambda>c. c \<noteq> 61) s)) else None)"

definition option_tuples :: "parser \<Rightarrow> str \<Rightarrow> token list" where
  "option_tuples P s =
     (if s ! 1 = 45 then
        (let (name, value) = partition_eq s in
         [Opt a n (value \<noteq> None) value. (n, a) \<leftarrow> actions P, starts_with name n])
      else
        [if n = take 2 s then Opt a n False (Some (drop 2 s)) else Opt a n False None.
           (n, a) \<leftarrow> actions P, n = take 2 s \<or> starts_with s n])"

text \<open>The pattern \<open>^-\d+$|^-\d*\.\d+$\<close>; the dollar also matches before a final line feed.\<close>

definition negative_number :: "str \<Rightarrow> bool" where
  "negative_number s \<longleftrightarrow>
     (let t = (if s \<noteq> [] \<and> last s = 10 then butlast s else s);
          d = tl t; r = dropWhile is_digit d in
      t \<noteq> [] \<and> hd t = 45 \<and> d \<noteq> []
      \<and> (r = [] \<or> hd r = 46 \<and> tl r \<noteq> [] \<and> list_all is_digit (tl r)))"

text \<open>\<open>_parse_optional\<close>; an ambiguous abbreviation is an error.\<close>

definition classify_arg :: "parser \<Rightarrow> str \<Rightarrow> parse_exit + token" where
  "classify_arg P s =
     (if s = [] \<or> hd s \<noteq> 45 then Inr Plain
      else case map_of (actions P) s of
        Some a \<Rightarrow> Inr (Opt a s False None)
      | None \<Rightarrow>
          if length s = 1 then Inr Plain
          else
            (let (name, value) = partition_eq s in
             case (if value = None then None else map_of (actions P) name) of
               Some a \<Rightarrow> Inr (Opt a name True value)
             | None \<Rightarrow>
                 (case option_tuples P s of
                    [] \<Rightarrow> Inr (if negative_number s \<or> 32 \<in> set s then Plain else Unknown)
                  | [t] \<Rightarrow> Inr t
                  | _ \<Rightarrow> Inl UsageExit)))"

fun arg_tokens :: "parser \<Rightarrow> str list \<Rightarrow> parse_exit + token list" where
  "arg_tokens P [] = Inr []"
| "arg_tokens P (a # argv) =
     (if a = lit ''--'' then Inr (Dashes # map (\<lambda>_. Plain) argv)
      else ebind (classify_arg P a) (\<lambda>t. ebind (arg_tokens P argv) (\<lambda>ts. Inr (t # ts))))"

section \<open>Storing values\<close>

record parse_state =
  namespace :: namespace
  seen_dests :: "str list"
  extras :: "str list"
  pending :: "arg_spec list"

definition convert_arg :: "arg_spec \<Rightarrow> str \<Rightarrow> parse_exit + arg_value" where
  "convert_arg s v =
     (case conversion s of
        AsInt \<Rightarrow> (case int_of_str v of Inl _ \<Rightarrow> Inl UsageExit | Inr n \<Rightarrow> Inr (IntArg n))
      | AsText \<Rightarrow>
          (case choices s of
             None \<Rightarrow> Inr (TextArg v)
           | Some cs \<Rightarrow> if v \<in> set cs then Inr (TextArg v) else Inl UsageExit))"

definition store_arg :: "arg_spec \<Rightarrow> arg_value \<Rightarrow> parse_state \<Rightarrow> parse_state" where
  "store_arg s v st = st\<lparr>namespace := AList.update (dest s) v (namespace st), seen_dests := dest s # seen_dests st\<rparr>"

definition take_arg :: "arg_spec \<Rightarrow> str \<Rightarrow> parse_state \<Rightarrow> parse_exit + parse_state" where
  "take_arg s v st = ebind (convert_arg s v) (\<lambda>x. Inr (store_arg s x st))"

section \<open>Positionals\<close>

text \<open>
  The pattern \<open>(-*A-*)\<close> of a positional at the front of the tokens: how many it
  takes, if it matches.
\<close>

definition match_positional :: "token list \<Rightarrow> nat option" where
  "match_positional ts =
     (let a = length (takeWhile (\<lambda>t. t = Dashes) ts); r = drop a ts in
      if r \<noteq> [] \<and> hd r = Plain
      then Some (a + 1 + length (takeWhile (\<lambda>t. t = Dashes) (tl r))) else None)"

text \<open>\<open>_get_values\<close> of a positional: the first separator goes.\<close>

definition take_positional :: "arg_spec \<Rightarrow> str list \<Rightarrow> parse_state \<Rightarrow> parse_exit + parse_state" where
  "take_positional s args st =
     (case remove1 (lit ''--'') args of
        [v] \<Rightarrow> take_arg s v st
      | _ \<Rightarrow> Inr (store_arg s EmptyArg st))"

text \<open>As many positionals as match, in order.\<close>

fun consume_positionals ::
  "arg_spec list \<Rightarrow> parse_state \<Rightarrow> (str \<times> token) list \<Rightarrow> parse_exit + (parse_state \<times> (str \<times> token) list)" where
  "consume_positionals [] st rem = Inr (st\<lparr>pending := []\<rparr>, rem)"
| "consume_positionals (s # ss) st rem =
     (case match_positional (map snd rem) of
        None \<Rightarrow> Inr (st\<lparr>pending := s # ss\<rparr>, rem)
      | Some n \<Rightarrow>
          ebind (take_positional s (map fst (take n rem)) st) (\<lambda>st.
          consume_positionals ss st (drop n rem)))"

section \<open>Options\<close>

text \<open>
  The rest of an argument that began with \<open>-h\<close>: further letters are taken for
  flags, and \<open>-h\<close> is the only one.
\<close>

fun help_tail :: "str \<Rightarrow> parse_exit" where
  "help_tail [] = UsageExit"
| "help_tail (c # e) =
     (if c = 45 then UsageExit
      else if c = 104 then (if e = [] then HelpExit else if hd e = 61 then UsageExit else help_tail e)
      else HelpExit)"

definition help_exit :: "str \<Rightarrow> bool \<Rightarrow> str option \<Rightarrow> parse_exit" where
  "help_exit name eq value =
     (case value of
        None \<Rightarrow> HelpExit
      | Some e \<Rightarrow> if name ! 1 = 45 \<or> eq then UsageExit else help_tail e)"

definition consume_optional ::
  "str \<Rightarrow> token \<Rightarrow> parse_state \<Rightarrow> (str \<times> token) list \<Rightarrow> parse_exit + (parse_state \<times> (str \<times> token) list)" where
  "consume_optional arg t st rem =
     (case t of
        Opt HelpAction name eq value \<Rightarrow> Inl (help_exit name eq value)
      | Opt (StoreAction s) name eq value \<Rightarrow>
          (case value of
             Some v \<Rightarrow> ebind (take_arg s v st) (\<lambda>st. Inr (st, rem))
           | None \<Rightarrow>
               (case rem of
                  (v, Plain) # rem' \<Rightarrow> ebind (take_arg s v st) (\<lambda>st. Inr (st, rem'))
                | _ \<Rightarrow> Inl UsageExit))
      | _ \<Rightarrow> Inr (st\<lparr>extras := extras st @ [arg]\<rparr>, rem))"

lemma consume_optional_shorter:
  "consume_optional arg t st rem = Inr (st', rem') \<Longrightarrow> length rem' \<le> length rem"
  by (auto simp: consume_optional_def ebind_Inr_iff
      split: token.splits action.splits option.splits list.splits prod.splits)

section \<open>The parser's loop\<close>

lemma dropWhile_shorter: "dropWhile p xs = y # ys \<Longrightarrow> length ys < length xs"
  by (metis length_Cons length_dropWhile_le less_eq_Suc_le)

definition add_extras :: "str list \<Rightarrow> parse_state \<Rightarrow> parse_state" where
  "add_extras xs st = st\<lparr>extras := extras st @ xs\<rparr>"

text \<open>
  Positionals before the next option are consumed first (directly at an option
  none matches); what they leave before it is surplus. Each round consumes an
  argument, so the loop ends.
\<close>

function parse_loop :: "parse_state \<Rightarrow> (str \<times> token) list \<Rightarrow> parse_exit + parse_state" where
  "parse_loop st rem =
     (case dropWhile (\<lambda>p. \<not> is_opt (snd p)) rem of
        [] \<Rightarrow> ebind (consume_positionals (pending st) st rem) (\<lambda>(st, rem). Inr (add_extras (map fst rem) st))
      | (arg, t) # rest \<Rightarrow>
          ebind (consume_positionals (pending st) st rem) (\<lambda>(st', rem').
          if length rem' < length rem then parse_loop st' rem'
          else
            ebind (consume_optional arg t
                     (add_extras (map fst (takeWhile (\<lambda>p. \<not> is_opt (snd p)) rem)) st') rest)
              (\<lambda>(st'', rest'). parse_loop st'' rest')))"
  by pat_completeness auto
termination
  by (relation "measure (\<lambda>(st, rem). length rem)")
    (auto dest!: consume_optional_shorter dropWhile_shorter)

declare parse_loop.simps [simp del]

definition parse_start :: "parser \<Rightarrow> parse_state" where
  "parse_start P = \<lparr>namespace = map (\<lambda>s. (dest s, preset s)) P, seen_dests = [], extras = [],
     pending = filter (\<lambda>s. flag s = None) P\<rparr>"

text \<open>\<open>parser.parse_args()\<close> on \<open>sys.argv[1:]\<close>\<close>

definition parse_args :: "parser \<Rightarrow> str list \<Rightarrow> parse_exit + namespace" where
  "parse_args P argv =
     ebind (arg_tokens P argv) (\<lambda>ts.
     ebind (parse_loop (parse_start P) (zip argv ts)) (\<lambda>st.
     if list_ex (\<lambda>s. required s \<and> dest s \<notin> set (seen_dests st)) P \<or> extras st \<noteq> []
     then Inl UsageExit else Inr (namespace st)))"

section \<open>What a namespace holds\<close>

text \<open>A value of the declared kind: an integer, or text among the choices if there are any.\<close>

definition conforms :: "arg_spec \<Rightarrow> arg_value \<Rightarrow> bool" where
  "conforms s v \<longleftrightarrow>
     (case conversion s of
        AsInt \<Rightarrow> \<exists>n. v = IntArg n
      | AsText \<Rightarrow> \<exists>x. v = TextArg x \<and> (\<forall>cs. choices s = Some cs \<longrightarrow> x \<in> set cs))
     \<or> flag s = None \<and> v = EmptyArg"

lemma convert_arg_conforms: "convert_arg s x = Inr v \<Longrightarrow> conforms s v"
  by (auto simp: convert_arg_def conforms_def split: conversion.splits sum.splits option.splits if_splits)

text \<open>The invariant of the loop: the keys stay, and only what was seen has left its default.\<close>

definition typed_state :: "parser \<Rightarrow> parse_state \<Rightarrow> bool" where
  "typed_state P st \<longleftrightarrow> map fst (namespace st) = map dest P \<and> set (pending st) \<subseteq> {s \<in> set P. flag s = None}
     \<and> (\<forall>s\<in>set P. \<exists>v. map_of (namespace st) (dest s) = Some v
          \<and> (conforms s v \<or> dest s \<notin> set (seen_dests st) \<and> v = preset s))"

lemma typed_store:
  assumes "distinct (map dest P)" "typed_state P st" "s \<in> set P" "conforms s v"
  shows "typed_state P (store_arg s v st)"
proof -
  have keys: "map fst (namespace st) = map dest P" using assms(2) by (simp add: typed_state_def)
  moreover have "dest s \<in> set (map dest P)" using assms(3) by simp
  ultimately have "map fst (AList.update (dest s) v (namespace st)) = map dest P"
    by (simp add: update_keys)
  moreover have "s' = s" if "s' \<in> set P" "dest s' = dest s" for s'
    using assms(1,3) that by (simp add: distinct_map inj_on_def)
  ultimately show ?thesis
    using assms(2-4) unfolding typed_state_def store_arg_def by (force simp: update_conv')
qed

lemma typed_pending: "typed_state P st \<Longrightarrow> set ss \<subseteq> {s \<in> set P. flag s = None} \<Longrightarrow> typed_state P (st\<lparr>pending := ss\<rparr>)"
  by (simp add: typed_state_def)

lemma typed_extras [simp]: "typed_state P (add_extras xs st) \<longleftrightarrow> typed_state P st"
  "typed_state P (st\<lparr>extras := ys\<rparr>) \<longleftrightarrow> typed_state P st"
  by (simp_all add: typed_state_def add_extras_def)

lemma typed_take_arg:
  "distinct (map dest P) \<Longrightarrow> typed_state P st \<Longrightarrow> s \<in> set P \<Longrightarrow> take_arg s x st = Inr st' \<Longrightarrow> typed_state P st'"
  by (auto simp: take_arg_def ebind_Inr_iff dest!: convert_arg_conforms intro: typed_store)

lemma typed_take_positional:
  assumes "distinct (map dest P)" "typed_state P st" "s \<in> set P" "flag s = None"
    and "take_positional s args st = Inr st'"
  shows "typed_state P st'"
proof (cases "\<exists>v. remove1 (lit ''--'') args = [v]")
  case True
  with assms(5) obtain v where "take_arg s v st = Inr st'" by (auto simp: take_positional_def)
  with assms(1-3) show ?thesis by (rule typed_take_arg)
next
  case False
  with assms(5) have "st' = store_arg s EmptyArg st"
    by (auto simp: take_positional_def split: list.splits)
  with assms(1-4) show ?thesis by (simp add: typed_store conforms_def)
qed

lemma typed_consume_positionals:
  assumes "distinct (map dest P)"
  shows "typed_state P st \<Longrightarrow> set ss \<subseteq> {s \<in> set P. flag s = None}
    \<Longrightarrow> consume_positionals ss st rem = Inr (st', rem')
    \<Longrightarrow> typed_state P st' \<and> set rem' \<subseteq> set rem"
proof (induction ss st rem rule: consume_positionals.induct)
  case (1 st rem)
  then show ?case using typed_pending [of P st "[]"] by auto
next
  case (2 s ss st rem)
  show ?case
  proof (cases "match_positional (map snd rem)")
    case None
    with 2(4) have "st' = st\<lparr>pending := s # ss\<rparr>" "rem' = rem" by auto
    with typed_pending [OF 2(2,3)] show ?thesis by simp
  next
    case (Some n)
    with 2(4) obtain st1 where st1: "take_positional s (map fst (take n rem)) st = Inr st1"
        "consume_positionals ss st1 (drop n rem) = Inr (st', rem')"
      by (auto simp: ebind_Inr_iff)
    from 2(2,3) st1(1) assms have "typed_state P st1" by (auto intro: typed_take_positional)
    with 2(1) [OF Some _ _ _ st1(2)] 2(3) st1(1) show ?thesis
      by (auto dest: in_set_dropD)
  qed
qed

text \<open>Every action of a token is one the parser declares.\<close>

definition declared_tokens :: "parser \<Rightarrow> token set \<Rightarrow> bool" where
  "declared_tokens P T \<longleftrightarrow> (\<forall>s n e v. Opt (StoreAction s) n e v \<in> T \<longrightarrow> s \<in> set P)"

lemma declared_mono: "declared_tokens P (snd ` set ps) \<Longrightarrow> set qs \<subseteq> set ps \<Longrightarrow> declared_tokens P (snd ` set qs)"
  unfolding declared_tokens_def by (meson image_mono subsetD)

lemma actions_declared: "(n, StoreAction s) \<in> set (actions P) \<Longrightarrow> s \<in> set P \<and> flag s = Some n"
  by (auto simp: actions_def List.map_filter_def flag_action_def)

lemma classify_declared: "classify_arg P a = Inr t \<Longrightarrow> declared_tokens P {t}"
proof -
  have tuples: "s \<in> set P" if "Opt (StoreAction s) n e v \<in> set (option_tuples P a)" for s n e v
    using that by (auto simp: option_tuples_def Let_def split: if_splits prod.splits dest: actions_declared)
  assume "classify_arg P a = Inr t"
  then show ?thesis
    using tuples
    by (auto simp: classify_arg_def declared_tokens_def Let_def
        split: if_splits option.splits list.splits prod.splits dest!: map_of_SomeD dest: actions_declared)
qed

lemma arg_tokens_declared: "arg_tokens P argv = Inr ts \<Longrightarrow> declared_tokens P (set ts)"
proof (induction argv arbitrary: ts)
  case (Cons a argv)
  then show ?case
    using classify_declared [of P a]
    by (fastforce simp: ebind_Inr_iff declared_tokens_def split: if_splits)
qed (simp add: declared_tokens_def)

lemma typed_consume_optional:
  assumes "distinct (map dest P)" "typed_state P st" "declared_tokens P {t}"
    and "consume_optional arg t st rem = Inr (st', rem')"
  shows "typed_state P st' \<and> set rem' \<subseteq> set rem"
  using assms
  by (auto simp: consume_optional_def ebind_Inr_iff declared_tokens_def
      split: token.splits action.splits option.splits list.splits prod.splits intro: typed_take_arg)

lemma typed_parse_loop:
  assumes "distinct (map dest P)"
  shows "typed_state P st \<Longrightarrow> declared_tokens P (snd ` set rem) \<Longrightarrow> parse_loop st rem = Inr st'
    \<Longrightarrow> typed_state P st'"
proof (induction st rem rule: parse_loop.induct)
  case (1 st rem)
  have pending: "set (pending st) \<subseteq> {s \<in> set P. flag s = None}"
    using 1(3) by (simp add: typed_state_def)
  show ?case
  proof (cases "dropWhile (\<lambda>p. \<not> is_opt (snd p)) rem")
    case Nil
    with 1(5) obtain st1 rem1 where "consume_positionals (pending st) st rem = Inr (st1, rem1)"
        "st' = add_extras (map fst rem1) st1"
      by (subst (asm) parse_loop.simps) (auto simp: ebind_Inr_iff)
    with typed_consume_positionals [OF assms 1(3) pending] show ?thesis by simp
  next
    case (Cons p rest)
    obtain arg t where p: "p = (arg, t)" by fastforce
    have sub: "set (p # rest) \<subseteq> set rem" unfolding Cons [symmetric] by (auto dest: set_dropWhileD)
    from 1(5) Cons p obtain st1 rem1 where c: "consume_positionals (pending st) st rem = Inr (st1, rem1)"
      by (subst (asm) parse_loop.simps) (auto simp: ebind_Inr_iff)
    from typed_consume_positionals [OF assms 1(3) pending c]
    have st1: "typed_state P st1" "set rem1 \<subseteq> set rem" by auto
    show ?thesis
    proof (cases "length rem1 < length rem")
      case True
      with 1(5) Cons p c have "parse_loop st1 rem1 = Inr st'"
        by (subst (asm) parse_loop.simps) simp
      with 1(1) [OF Cons p [symmetric] c refl True st1(1) declared_mono [OF 1(4) st1(2)]] show ?thesis by blast
    next
      case False
      let ?st = "add_extras (map fst (takeWhile (\<lambda>p. \<not> is_opt (snd p)) rem)) st1"
      from False 1(5) Cons p c obtain st2 rest2 where o: "consume_optional arg t ?st rest = Inr (st2, rest2)"
          "parse_loop st2 rest2 = Inr st'"
        by (subst (asm) parse_loop.simps) (auto simp: ebind_Inr_iff)
      have "declared_tokens P {t}"
        using 1(4) sub p unfolding declared_tokens_def by (metis image_eqI insertI1 list.set(2) singletonD snd_conv subsetD)
      with typed_consume_optional [OF assms _ _ o(1)] st1(1)
      have "typed_state P st2" "set rest2 \<subseteq> set rest" by auto
      moreover from this sub have "set rest2 \<subseteq> set rem" by auto
      ultimately show ?thesis
        using 1(2) [OF Cons p [symmetric] c refl False o(1) refl _ declared_mono [OF 1(4)] o(2)] by blast
    qed
  qed
qed

text \<open>
  Parsing that succeeds gives every declared argument a value of its kind, and
  leaves the default only to those that are not required.
\<close>

lemma parse_args_typed:
  assumes "distinct (map dest P)" "parse_args P argv = Inr ns"
  shows "map fst ns = map dest P"
    and "s \<in> set P \<Longrightarrow> \<exists>v. map_of ns (dest s) = Some v \<and> (conforms s v \<or> \<not> required s \<and> v = preset s)"
proof -
  from assms(2) obtain ts st where ts: "arg_tokens P argv = Inr ts"
    and st: "parse_loop (parse_start P) (zip argv ts) = Inr st"
    and req: "\<forall>s\<in>set P. required s \<longrightarrow> dest s \<in> set (seen_dests st)" and ns: "ns = namespace st"
    by (auto simp: parse_args_def ebind_Inr_iff list_ex_iff)
  have "typed_state P (parse_start P)"
    using assms(1) by (auto simp: typed_state_def parse_start_def comp_def intro!: map_of_is_SomeI)
  moreover have "declared_tokens P (snd ` set (zip argv ts))"
    using arg_tokens_declared [OF ts] unfolding declared_tokens_def by (metis imageE prod.collapse set_zip_rightD)
  ultimately have "typed_state P st" using st by (rule typed_parse_loop [OF assms(1)])
  then show "map fst ns = map dest P"
    and "s \<in> set P \<Longrightarrow> \<exists>v. map_of ns (dest s) = Some v \<and> (conforms s v \<or> \<not> required s \<and> v = preset s)"
    using req unfolding typed_state_def ns by blast+
qed

end
