(* ===== verification/ArgLines.thy ===== *)
theory ArgLines
  imports ArgParse
begin

text \<open>
  Regular command lines: each option written out with its value as the next
  argument, in any order and between the positionals. Parsing one stores the
  values it was given, the last one where an option is repeated.
\<close>

type_synonym arg_item = "arg_spec \<times> str"

definition item_words :: "arg_item \<Rightarrow> str list" where
  "item_words i = (case flag (fst i) of None \<Rightarrow> [snd i] | Some f \<Rightarrow> [f, snd i])"

definition item_tokens :: "arg_item \<Rightarrow> token list" where
  "item_tokens i =
     (case flag (fst i) of None \<Rightarrow> [Plain] | Some f \<Rightarrow> [Opt (StoreAction (fst i)) f False None, Plain])"

text \<open>A text that is no option and no separator whatever the parser.\<close>

definition plain_arg :: "str \<Rightarrow> bool" where
  "plain_arg v \<longleftrightarrow> v = [] \<or> hd v \<noteq> 45"

text \<open>Flags begin with two dashes, hold no equals sign and are distinct.\<close>

definition parser_ok :: "parser \<Rightarrow> bool" where
  "parser_ok P \<longleftrightarrow> distinct (map dest P) \<and> distinct (List.map_filter flag P)
     \<and> list_all (\<lambda>f. f \<noteq> lit ''--'' \<and> f \<noteq> lit ''--help'' \<and> starts_with (lit ''--'') f \<and> 61 \<notin> set f) (List.map_filter flag P)"

section \<open>Tokens\<close>

lemma plain_arg_token [simp]: "plain_arg v \<Longrightarrow> classify_arg P v = Inr Plain" "plain_arg v \<Longrightarrow> v \<noteq> lit ''--''"
  by (auto simp: plain_arg_def classify_arg_def lit_def)

lemma flag_listed: "s \<in> set P \<Longrightarrow> flag s = Some f \<Longrightarrow> f \<in> set (List.map_filter flag P)"
  by (force simp: List.map_filter_def)

lemma flag_shape:
  assumes "parser_ok P" "s \<in> set P" "flag s = Some f"
  shows "f \<noteq> lit ''--''" "f \<noteq> lit ''--help''" "starts_with (lit ''--'') f"
  using assms(1) flag_listed [OF assms(2,3)] unfolding parser_ok_def list_all_iff by blast+

lemma starts_not_h: "\<not> starts_with (lit ''--'') (lit ''-h'')"
  by code_simp

lemma actions_flag:
  assumes "parser_ok P" "s \<in> set P" "flag s = Some f"
  shows "map_of (actions P) f = Some (StoreAction s)"
proof -
  from flag_shape [OF assms] have f: "f \<noteq> lit ''-h''" "f \<noteq> lit ''--help''"
    using starts_not_h by metis+
  have "map_of (List.map_filter flag_action P) f = Some (StoreAction s)"
    if "distinct (List.map_filter flag P)" "s \<in> set P" for P
    using that
  proof (induction P)
    case (Cons q P)
    show ?case
    proof (cases "flag q = Some f")
      case True
      have "f \<in> set (List.map_filter flag P)" if "s \<in> set P"
        using flag_listed [OF that assms(3)] .
      with True Cons.prems have "q = s" by (auto simp: List.map_filter_simps)
      with True show ?thesis by (simp add: List.map_filter_simps flag_action_def [of s])
    next
      case False
      with Cons.prems(2) assms(3) have "s \<in> set P" by auto
      moreover have "distinct (List.map_filter flag P)"
        using Cons.prems(1) by (simp add: List.map_filter_simps split: option.splits)
      ultimately have "map_of (List.map_filter flag_action P) f = Some (StoreAction s)" by (intro Cons.IH)
      with False show ?thesis
        by (cases "flag q") (simp_all add: List.map_filter_simps flag_action_def [of q])
    qed
  qed simp
  with f assms(1,2) show ?thesis by (simp add: actions_def parser_ok_def)
qed

lemma flag_token:
  assumes "parser_ok P" "s \<in> set P" "flag s = Some f"
  shows "f \<noteq> lit ''--''" "classify_arg P f = Inr (Opt (StoreAction s) f False None)"
proof -
  show "f \<noteq> lit ''--''" by (rule flag_shape [OF assms])
  obtain r where "f = 45 # 45 # r"
    using flag_shape(3) [OF assms] unfolding starts_with_iff by (auto simp: lit_def)
  then show "classify_arg P f = Inr (Opt (StoreAction s) f False None)"
    using actions_flag [OF assms] by (simp add: classify_arg_def)
qed

lemma items_tokens:
  assumes "parser_ok P" "\<forall>(s, v)\<in>set items. s \<in> set P \<and> plain_arg v"
  shows "arg_tokens P (concat (map item_words items)) = Inr (concat (map item_tokens items))"
  using assms(2)
proof (induction items)
  case (Cons i items)
  obtain s v where i: "i = (s, v)" by fastforce
  with Cons show ?case
    using flag_token [OF assms(1), of s]
    by (cases "flag s") (simp_all add: item_words_def item_tokens_def)
qed simp

section \<open>The loop on tokens of a regular line\<close>

definition item_pairs :: "arg_item \<Rightarrow> (str \<times> token) list" where
  "item_pairs i = zip (item_words i) (item_tokens i)"

lemma zip_items: "zip (concat (map item_words items)) (concat (map item_tokens items)) = concat (map item_pairs items)"
proof (induction items)
  case (Cons i items)
  have "length (item_words i) = length (item_tokens i)"
    by (simp add: item_words_def item_tokens_def split: option.splits)
  with Cons show ?case by (simp add: item_pairs_def)
qed simp

lemma takeWhile_none: "x \<notin> set xs \<Longrightarrow> takeWhile (\<lambda>t. t = x) xs = []"
  by (cases xs) auto

lemma no_dashes: "Dashes \<notin> snd ` set (concat (map item_pairs items))"
  by (auto simp: item_pairs_def item_words_def item_tokens_def split: option.splits)

lemma consume_plain:
  assumes "Dashes \<notin> snd ` set rem" "v \<noteq> lit ''--''"
  shows "consume_positionals (s # ss) st ((v, Plain) # rem)
    = ebind (take_arg s v st) (\<lambda>st. consume_positionals ss st rem)"
  using assms takeWhile_none [of Dashes "map snd rem"]
  by (simp add: match_positional_def take_positional_def)

lemma consume_at_option:
  "is_opt t \<Longrightarrow> consume_positionals (pending st) st ((arg, t) # rem) = Inr (st, (arg, t) # rem)"
  by (cases "pending st") (auto simp: match_positional_def is_opt_def)

lemma consume_shorter: "consume_positionals ss st rem = Inr (st', rem') \<Longrightarrow> length rem' \<le> length rem"
proof (induction ss st rem rule: consume_positionals.induct)
  case (2 s ss st rem)
  then show ?case by (cases "match_positional (map snd rem)") (fastforce simp: ebind_Inr_iff)+
qed simp

lemma consume_pending: "consume_positionals ss (st\<lparr>pending := xs\<rparr>) rem = consume_positionals ss st rem"
proof (induction ss st rem rule: consume_positionals.induct)
  case (2 s ss st rem)
  have "take_positional s args (st\<lparr>pending := xs\<rparr>) =
      ebind (take_positional s args st) (\<lambda>st. Inr (st\<lparr>pending := xs\<rparr>))" for args
    by (cases st) (simp add: take_positional_def take_arg_def store_arg_def ebind_assoc split: list.split)
  with 2 show ?case
    by (cases "match_positional (map snd rem)") (simp_all add: ebind_assoc cong: ebind_cong)
qed simp

lemma match_positional_pos: "match_positional ts = Some n \<Longrightarrow> 0 < n \<and> ts \<noteq> []"
  by (auto simp: match_positional_def Let_def split: if_splits)

lemma consume_same:
  assumes "consume_positionals (pending st) st rem = Inr (st', rem')" "length rem' = length rem"
  shows "st' = st \<and> rem' = rem"
proof (cases "pending st")
  case Nil
  with assms(1) show ?thesis by auto
next
  case (Cons s ss)
  show ?thesis
  proof (cases "match_positional (map snd rem)")
    case None
    with Cons assms(1) show ?thesis by auto
  next
    case (Some n)
    with Cons assms(1) have "length rem' \<le> length (drop n rem)"
      by (auto simp: ebind_Inr_iff dest: consume_shorter)
    with match_positional_pos [OF Some] assms(2) have False by (cases rem) auto
    then show ?thesis ..
  qed
qed

text \<open>One argument of a regular line after the other.\<close>

lemma parse_loop_end:
  "dropWhile (\<lambda>p. \<not> is_opt (snd p)) rem = []
    \<Longrightarrow> parse_loop st rem = ebind (consume_positionals (pending st) st rem) (\<lambda>(st, rem). Inr (add_extras (map fst rem) st))"
  by (subst parse_loop.simps) (simp only: list.case)

lemma parse_loop_opt:
  "dropWhile (\<lambda>p. \<not> is_opt (snd p)) rem = (arg, t) # rest
    \<Longrightarrow> parse_loop st rem = ebind (consume_positionals (pending st) st rem) (\<lambda>(st', rem').
          if length rem' < length rem then parse_loop st' rem'
          else
            ebind (consume_optional arg t
                     (add_extras (map fst (takeWhile (\<lambda>p. \<not> is_opt (snd p)) rem)) st') rest)
              (\<lambda>(st'', rest'). parse_loop st'' rest'))"
  by (subst parse_loop.simps) (simp only: list.case prod.case)

lemma parse_loop_positional:
  assumes "Dashes \<notin> snd ` set rem" "v \<noteq> lit ''--''" "pending st = s # ss"
  shows "parse_loop st ((v, Plain) # rem) = ebind (take_arg s v st) (\<lambda>st. parse_loop (st\<lparr>pending := ss\<rparr>) rem)"
proof -
  let ?next = "\<lambda>st1. st1\<lparr>pending := ss\<rparr>"
  let ?c = "\<lambda>st1. consume_positionals ss (?next st1) rem"
  have cons: "consume_positionals (pending st) st ((v, Plain) # rem) = ebind (take_arg s v st) ?c"
    using assms(3) by (simp add: consume_plain [OF assms(1,2)] consume_pending del: consume_positionals.simps)
  show ?thesis
  proof (cases "dropWhile (\<lambda>p. \<not> is_opt (snd p)) rem")
    case Nil
    then show ?thesis by (simp add: parse_loop_end cons ebind_assoc)
  next
    case (Cons p rest)
    obtain arg t where p: "dropWhile (\<lambda>p. \<not> is_opt (snd p)) rem = (arg, t) # rest"
      using Cons by (cases p) simp
    have step: "parse_loop (?next st1) rem = ebind (?c st1) (\<lambda>(st2, rem2). parse_loop st2 rem2)" for st1
    proof (cases "?c st1")
      case (Inl e)
      then show ?thesis by (simp add: parse_loop_opt [OF p])
    next
      case (Inr r)
      obtain st2 rem2 where r: "r = (st2, rem2)" by fastforce
      show ?thesis
      proof (cases "length rem2 < length rem")
        case True
        then show ?thesis using Inr r by (simp add: parse_loop_opt [OF p])
      next
        case False
        then have "st2 = ?next st1 \<and> rem2 = rem"
          using Inr r consume_shorter [of ss "?next st1" rem st2 rem2]
            consume_same [of "?next st1" rem st2 rem2] by simp
        then show ?thesis using Inr r by simp
      qed
    qed
    have "parse_loop st ((v, Plain) # rem) = ebind (take_arg s v st) (\<lambda>st1. ebind (?c st1) (\<lambda>(st2, rem2). parse_loop st2 rem2))"
    proof -
      have "ebind (?c st1) (\<lambda>(st2, rem2). if length rem2 < Suc (length rem) then parse_loop st2 rem2 else f st2)
          = ebind (?c st1) (\<lambda>(st2, rem2). parse_loop st2 rem2)" for st1 f
        by (intro ebind_cong refl) (auto simp: less_Suc_eq_le dest: consume_shorter)
      moreover have "dropWhile (\<lambda>p. \<not> is_opt (snd p)) ((v, Plain) # rem) = (arg, t) # rest"
        using p by simp
      ultimately show ?thesis by (simp only: parse_loop_opt cons ebind_assoc list.size add_Suc_right add_0_right)
    qed
    then show ?thesis by (simp add: step)
  qed
qed

lemma parse_loop_flag:
  "parse_loop st ((f, Opt (StoreAction s) f False None) # (v, Plain) # rem) = ebind (take_arg s v st) (\<lambda>st. parse_loop st rem)"
proof -
  let ?o = "(f, Opt (StoreAction s) f False None)"
  have "dropWhile (\<lambda>p. \<not> is_opt (snd p)) (?o # (v, Plain) # rem) = ?o # (v, Plain) # rem" by simp
  from parse_loop_opt [OF this, of st] show ?thesis
    by (simp add: consume_at_option consume_optional_def add_extras_def ebind_assoc)
qed

section \<open>Parsing a regular line\<close>

definition item_value :: "arg_item \<Rightarrow> arg_value" where
  "item_value i = (case conversion (fst i) of AsText \<Rightarrow> TextArg (snd i)
     | AsInt \<Rightarrow> (case int_of_str (snd i) of Inr n \<Rightarrow> IntArg n | Inl _ \<Rightarrow> Missing))"

text \<open>The value is one the argument admits.\<close>

definition item_ok :: "arg_item \<Rightarrow> bool" where
  "item_ok i \<longleftrightarrow> plain_arg (snd i)
     \<and> (case conversion (fst i) of
          AsInt \<Rightarrow> (case int_of_str (snd i) of Inr _ \<Rightarrow> True | Inl _ \<Rightarrow> False)
        | AsText \<Rightarrow> (case choices (fst i) of None \<Rightarrow> True | Some cs \<Rightarrow> snd i \<in> set cs))"

definition item_update :: "arg_item \<Rightarrow> namespace \<Rightarrow> namespace" where
  "item_update i ns = AList.update (dest (fst i)) (item_value i) ns"

lemma take_item: "item_ok (s, v) \<Longrightarrow> take_arg s v st = Inr (store_arg s (item_value (s, v)) st)"
  by (auto simp: item_ok_def item_value_def take_arg_def convert_arg_def
      split: conversion.splits option.splits sum.splits)

lemma parse_items:
  assumes "\<forall>i\<in>set items. item_ok i" "filter (\<lambda>s. flag s = None) (map fst items) = pending st"
  shows "\<exists>st'. parse_loop st (concat (map item_pairs items)) = Inr st'
    \<and> namespace st' = fold item_update items (namespace st) \<and> extras st' = extras st
    \<and> set (seen_dests st') = set (seen_dests st) \<union> (dest \<circ> fst) ` set items"
  using assms
proof (induction items arbitrary: st)
  case Nil
  then show ?case by (subst parse_loop.simps) (simp add: add_extras_def)
next
  case (Cons i items)
  obtain s v where i: "i = (s, v)" by fastforce
  with Cons.prems(1) have ok: "item_ok (s, v)" "v \<noteq> lit ''--''" by (simp_all add: item_ok_def)
  let ?st = "store_arg s (item_value (s, v)) st"
  show ?case
  proof (cases "flag s")
    case None
    with Cons.prems(2) i have p: "pending st = s # filter (\<lambda>s. flag s = None) (map fst items)" by simp
    have "parse_loop st (concat (map item_pairs (i # items)))
        = parse_loop (?st\<lparr>pending := filter (\<lambda>s. flag s = None) (map fst items)\<rparr>) (concat (map item_pairs items))"
      using parse_loop_positional [OF no_dashes ok(2) p] None i take_item [OF ok(1)]
      by (simp add: item_pairs_def item_words_def item_tokens_def)
    moreover note Cons.IH [of "?st\<lparr>pending := filter (\<lambda>s. flag s = None) (map fst items)\<rparr>"]
    ultimately show ?thesis using Cons.prems(1) i by (simp add: store_arg_def item_update_def insert_commute)
  next
    case (Some f)
    have "parse_loop st (concat (map item_pairs (i # items))) = parse_loop ?st (concat (map item_pairs items))"
      using Some i take_item [OF ok(1)] parse_loop_flag
      by (simp add: item_pairs_def item_words_def item_tokens_def)
    moreover have "pending ?st = filter (\<lambda>s. flag s = None) (map fst items)"
      using Cons.prems(2) i Some by (simp add: store_arg_def)
    ultimately show ?thesis
      using Cons.IH [of ?st] Cons.prems(1) i by (simp add: store_arg_def item_update_def)
  qed
qed

text \<open>
  A regular line with values for all required arguments is parsed into the
  defaults overwritten by its values.
\<close>

lemma parse_args_items:
  assumes "parser_ok P" "\<forall>i\<in>set items. fst i \<in> set P \<and> item_ok i"
    and "filter (\<lambda>s. flag s = None) (map fst items) = filter (\<lambda>s. flag s = None) P"
    and "\<forall>s\<in>set P. required s \<longrightarrow> s \<in> fst ` set items"
  shows "parse_args P (concat (map item_words items))
    = Inr (fold item_update items (map (\<lambda>s. (dest s, preset s)) P))"
proof -
  from assms(2) have "\<forall>(s, v)\<in>set items. s \<in> set P \<and> plain_arg v" by (auto simp: item_ok_def)
  note tokens = items_tokens [OF assms(1) this]
  obtain st where st: "parse_loop (parse_start P) (concat (map item_pairs items)) = Inr st"
      "namespace st = fold item_update items (map (\<lambda>s. (dest s, preset s)) P)" "extras st = []"
      "set (seen_dests st) = (dest \<circ> fst) ` set items"
    using parse_items [of items "parse_start P"] assms(2,3) by (auto simp: parse_start_def)
  have "\<not> list_ex (\<lambda>s. required s \<and> dest s \<notin> set (seen_dests st)) P"
    using assms(4) st(4) by (force simp: list_ex_iff)
  with tokens st(1-3) show ?thesis by (simp add: parse_args_def zip_items)
qed

text \<open>What was given is found, the last value of a repeated option.\<close>

lemma fold_update_other:
  "\<forall>i\<in>set items. dest (fst i) \<noteq> k \<Longrightarrow> map_of (fold item_update items ns) k = map_of ns k"
  by (induction items arbitrary: ns) (auto simp: item_update_def update_conv')

lemma fold_update_last:
  "\<forall>i\<in>set later. dest (fst i) \<noteq> dest s
    \<Longrightarrow> map_of (fold item_update (items @ (s, v) # later) ns) (dest s) = Some (item_value (s, v))"
  by (simp add: fold_update_other) (simp add: item_update_def update_conv')

end
