(* ===== verification/ReferenceRemote.thy ===== *)
theory ReferenceRemote
  imports JsonBytes
begin

text \<open>
  \<open>qualification/reference-remote/server.py\<close>: the two handlers of the TLS
  reference remote. The request line, the header and the body stream are what the
  HTTP library hands to the handler; an exception ends the connection without a
  reply. Sockets, TLS and the library's error page are not modelled.
\<close>

section \<open>Replies\<close>

datatype reply =
    ErrorPage nat
  | Reply nat "str dict" bytes

definition json_reply :: "nat \<Rightarrow> json \<Rightarrow> reply res" where
  "json_reply status value =
     ebind (utf8_encode (dumps compact value @ [10])) (\<lambda>payload.
     Inr (Reply status
       [(lit ''content-type'', lit ''application/json''), (lit ''content-length'', dec_nat (length payload))]
       payload))"

section \<open>Handlers\<close>

definition do_GET :: "str \<Rightarrow> reply res" where
  "do_GET target =
     (if target \<noteq> lit ''/health'' then Inr (ErrorPage 404)
      else json_reply 200 (JObj [(lit ''standing'', JStr (lit ''ALIVE''))]))"

text \<open>What the client sent: the target, the \<open>content-length\<close> header if there is one, and the
  bytes up to the end of the stream.\<close>

record http_post =
  post_target :: str
  content_length :: "str option"
  stream :: bytes

text \<open>
  \<open>rfile.read(length)\<close> of the buffered reader on a 64-bit platform: -1 reads to the
  end; another negative length is an error, and so is one that is no index or whose
  buffer would be too large; the buffer (with a header of 33 bytes) is allocated
  before anything is read, and \<open>alloc\<close> says which sizes can be had.
\<close>

definition read_stream :: "(nat \<Rightarrow> bool) \<Rightarrow> int \<Rightarrow> bytes \<Rightarrow> bytes res" where
  "read_stream alloc n bs =
     (if n = - 1 then Inr bs
      else if n < - (2 ^ 63) \<or> 2 ^ 63 - 33 \<le> n then Inl OverflowError
      else if n < 0 then Inl (ValueError (lit ''read length must be non-negative or -1''))
      else if n \<noteq> 0 \<and> \<not> alloc (nat n) then Inl MemoryError
      else Inr (take (nat n) bs))"

definition invalid_request :: json where
  "invalid_request = JObj [(lit ''standing'', JStr (lit ''REFUSED'')), (lit ''reason'', JStr (lit ''invalid request''))]"

definition plan_answer :: "json \<Rightarrow> json" where
  "plan_answer result =
     JObj [(lit ''standing'', JStr (lit ''ALIVE'')),
           (lit ''receipt_verified'', JBool True),
           (lit ''result'', result)]"

definition do_POST :: "(nat \<Rightarrow> bool) \<Rightarrow> json \<Rightarrow> http_post \<Rightarrow> reply res" where
  "do_POST alloc planner_result post =
     (if post_target post \<noteq> lit ''/plan'' then Inr (ErrorPage 404)
      else
        ebind (int_of_str (case content_length post of None \<Rightarrow> lit ''0'' | Some h \<Rightarrow> h)) (\<lambda>n.
        ebind (ebind (read_stream alloc n (stream post)) loads_bytes) (\<lambda>v.
        ebind (of_option AttributeError (the_obj v)) (\<lambda>request.
        if fld request ''operation'' \<noteq> Some (JStr (lit ''plan'')) \<or> obj_field request ''subject'' = None
          then json_reply 400 invalid_request
        else
          ebind (of_option TypeError (the_obj planner_result)) (\<lambda>planner.
          ebind (of_option (KeyError (lit ''result'')) (fld planner ''result'')) (\<lambda>result.
          json_reply 200 (plan_answer result)))))))"

section \<open>Properties\<close>

lemma json_reply_ok:
  obtains payload where "json_reply status value = Inr (Reply status
       [(lit ''content-type'', lit ''application/json''), (lit ''content-length'', dec_nat (length payload))] payload)"
    "utf8_encode (dumps compact value @ [10]) = Inr payload"
proof -
  have "list_all clean (dumps compact value)"
    unfolding dumps_def by (rule dump_ascii(1)) (simp, simp add: compact_def)
  then have "list_all clean (dumps compact value @ [10])" by simp
  then obtain payload where "utf8_encode (dumps compact value @ [10]) = Inr payload" by (rule write_clean)
  then show thesis by (intro that) (simp_all add: json_reply_def)
qed

text \<open>The body of a well-formed plan request.\<close>

definition plan_request :: "(nat \<Rightarrow> bool) \<Rightarrow> http_post \<Rightarrow> bool" where
  "plan_request alloc post \<longleftrightarrow>
     (\<exists>n request. int_of_str (case content_length post of None \<Rightarrow> lit ''0'' | Some h \<Rightarrow> h) = Inr n
        \<and> ebind (read_stream alloc n (stream post)) loads_bytes = Inr (JObj request)
        \<and> fld request ''operation'' = Some (JStr (lit ''plan'')) \<and> (\<exists>subject. fld request ''subject'' = Some (JObj subject)))"

text \<open>The first two characters of an object on one line.\<close>

lemma compact_object_chars:
  "\<exists>r. dumps compact (JObj (p # ps)) @ [10] = 123 # 34 # r"
proof -
  obtain q qs where "sort_key fst (map (map_prod id sort_json) (p # ps)) = q # qs"
    by (cases "sort_key fst (map (map_prod id sort_json) (p # ps))") auto
  then show ?thesis by (simp add: dumps_def compact_def newline_at_def encode_string_def)
qed

lemma reply_reads_back:
  assumes "utf8_encode (dumps compact (JObj (p # ps)) @ [10]) = Inr payload" "json_ok (JObj (p # ps))"
  shows "loads_bytes payload = Inr (sort_json (JObj (p # ps)))"
proof -
  obtain r where "dumps compact (JObj (p # ps)) @ [10] = 123 # 34 # r" using compact_object_chars by blast
  from loads_bytes_text [OF assms(1) this]
  have "loads_bytes payload = loads (dumps compact (JObj (p # ps)) @ [10])" by simp
  also have "\<dots> = Inr (sort_json (JObj (p # ps)))"
    unfolding dumps_def by (rule loads_dump_line) (simp, rule json_ok_sort_json [OF assms(2)])
  finally show ?thesis .
qed

lemma plan_request_answered:
  assumes "post_target post = lit ''/plan''" "plan_request alloc post" "fld planner ''result'' = Some result"
  shows "do_POST alloc (JObj planner) post = json_reply 200 (plan_answer result)"
  using assms by (auto simp: plan_request_def do_POST_def obj_field_def)

text \<open>The remote answers a plan exactly for the well-formed requests on \<open>/plan\<close>, provided the
  planner's file holds a result; the request's subject has no influence on the answer.\<close>

lemma plan_answered_iff:
  "(\<exists>headers payload. do_POST alloc planner_result post = Inr (Reply 200 headers payload)) \<longleftrightarrow>
     post_target post = lit ''/plan'' \<and> plan_request alloc post
     \<and> (\<exists>planner result. planner_result = JObj planner \<and> fld planner ''result'' = Some result)"
  (is "?l \<longleftrightarrow> ?r")
proof
  assume ?l
  then obtain headers payload where run: "do_POST alloc planner_result post = Inr (Reply 200 headers payload)" by blast
  have not_400: "json_reply 400 invalid_request \<noteq> Inr (Reply 200 headers payload)"
    by (auto simp: json_reply_def res_dest)
  from run have target: "post_target post = lit ''/plan''" by (auto simp: do_POST_def split: if_splits)
  with run obtain n v request where parts:
      "int_of_str (case content_length post of None \<Rightarrow> lit ''0'' | Some h \<Rightarrow> h) = Inr n"
      "ebind (read_stream alloc n (stream post)) loads_bytes = Inr (JObj request)"
    unfolding do_POST_def ebind_Inr_iff [of "ebind _ _"] by (auto simp: ebind_Inr_iff of_option_Inr_iff)
  show ?r
  proof (cases "fld request ''operation'' \<noteq> Some (JStr (lit ''plan'')) \<or> obj_field request ''subject'' = None")
    case True
    with run target parts not_400 show ?thesis by (simp add: do_POST_def)
  next
    case False
    with run target parts have "\<exists>planner result. planner_result = JObj planner \<and> fld planner ''result'' = Some result"
      by (auto simp: do_POST_def ebind_Inr_iff of_option_Inr_iff obj_field_def)
    with False target parts show ?thesis by (auto simp: plan_request_def)
  qed
next
  assume ?r
  then obtain n request subject planner result where parts: "post_target post = lit ''/plan''"
      "int_of_str (case content_length post of None \<Rightarrow> lit ''0'' | Some h \<Rightarrow> h) = Inr n"
      "ebind (read_stream alloc n (stream post)) loads_bytes = Inr (JObj request)"
      "fld request ''operation'' = Some (JStr (lit ''plan''))" "obj_field request ''subject'' = Some subject"
      "planner_result = JObj planner" "fld planner ''result'' = Some result"
    by (auto simp: plan_request_def)
  then have "do_POST alloc planner_result post = json_reply 200 (plan_answer result)" by (simp add: do_POST_def obj_field_def)
  then show ?l using json_reply_ok [of 200 "plan_answer result"] by metis
qed

text \<open>What the remote sends is framed and readable: a plan answer's body has the length its header
  states and reads back as the planner's result with standing ALIVE and a verified
  receipt, whatever the subject of the request was.\<close>

theorem remote_answer_round_trip:
  assumes "do_POST alloc (JObj planner) post = Inr (Reply 200 headers payload)" "fld planner ''result'' = Some result" "json_ok result"
  shows "map_of headers (lit ''content-length'') = Some (dec_nat (length payload))
    \<and> loads_bytes payload = Inr (JObj [(lit ''receipt_verified'', JBool True), (lit ''result'', sort_json result),
         (lit ''standing'', JStr (lit ''ALIVE''))])"
proof -
  have "post_target post = lit ''/plan'' \<and> plan_request alloc post"
    using assms(1) plan_answered_iff [of alloc "JObj planner" post] by blast
  then have run: "do_POST alloc (JObj planner) post = json_reply 200 (plan_answer result)"
    using assms(2) by (intro plan_request_answered) blast+
  obtain sent where sent: "json_reply 200 (plan_answer result) = Inr (Reply 200
       [(lit ''content-type'', lit ''application/json''), (lit ''content-length'', dec_nat (length sent))] sent)"
    "utf8_encode (dumps compact (plan_answer result) @ [10]) = Inr sent"
    by (rule json_reply_ok)
  with run assms(1) have same: "headers = [(lit ''content-type'', lit ''application/json''), (lit ''content-length'', dec_nat (length sent))]"
    "payload = sent" by simp_all
  have "loads_bytes payload = Inr (sort_json (plan_answer result))"
    using sent(2) assms(3) unfolding same plan_answer_def by (intro reply_reads_back) simp_all
  moreover have "sort_json (plan_answer result) = JObj [(lit ''receipt_verified'', JBool True), (lit ''result'', sort_json result),
         (lit ''standing'', JStr (lit ''ALIVE''))]"
    by (simp add: plan_answer_def lit_def)
  ultimately show ?thesis by (simp add: same)
qed

text \<open>A request whose body is \<open>{"operation":"plan","subject":{}}\<close>, with the right length.\<close>

definition ex_request :: json where
  "ex_request = JObj [(lit ''operation'', JStr (lit ''plan'')), (lit ''subject'', JObj [])]"

definition ex_post :: http_post where
  "ex_post = \<lparr>post_target = lit ''/plan'', content_length = Some (lit ''33''),
     stream = map of_nat (dump compact 0 ex_request)\<rparr>"

lemma ex_plan_request: "plan_request (\<lambda>n. n < 1000) ex_post"
proof -
  have "dump compact 0 ex_request = lit ''{\"operation\":\"plan\",\"subject\":{}}''"
    by (simp add: ex_request_def compact_def encode_string_def encode_char_def newline_at_def lit_def)
  moreover have "utf8_encode (lit ''{\"operation\":\"plan\",\"subject\":{}}'')
      = Inr (map of_nat (lit ''{\"operation\":\"plan\",\"subject\":{}}''))"
    by (simp add: utf8_encode_def is_scalar_def utf8_of_cp_def lit_def)
  moreover have "loads (dump compact 0 ex_request) = Inr ex_request"
    by (rule loads_dump) (simp, simp add: ex_request_def text_ok_def is_scalar_def lit_def)
  ultimately have "loads_bytes (map of_nat (lit ''{\"operation\":\"plan\",\"subject\":{}}'')) = Inr ex_request"
    using loads_bytes_text [where s = "lit ''{\"operation\":\"plan\",\"subject\":{}}''"] by (simp add: lit_def)
  moreover have "int_of_str (lit ''33'') = Inr 33"
    by (simp add: int_of_str_def int_strip_def is_int_space_def is_py_space_def is_digit_def lit_def)
  moreover have "read_stream (\<lambda>n. n < 1000) 33 (stream ex_post) = Inr (map of_nat (lit ''{\"operation\":\"plan\",\"subject\":{}}''))"
    using \<open>dump compact 0 ex_request = _\<close> by (simp add: read_stream_def ex_post_def)
  ultimately show ?thesis
    by (auto simp: plan_request_def ex_post_def) (simp add: ex_request_def)
qed

theorem remote_answer_round_trip_witness:
  "\<exists>headers payload. do_POST (\<lambda>n. n < 1000) (JObj [(lit ''result'', JNull)]) ex_post = Inr (Reply 200 headers payload)
     \<and> loads_bytes payload = Inr (JObj [(lit ''receipt_verified'', JBool True), (lit ''result'', JNull),
         (lit ''standing'', JStr (lit ''ALIVE''))])"
proof -
  have "do_POST (\<lambda>n. n < 1000) (JObj [(lit ''result'', JNull)]) ex_post = json_reply 200 (plan_answer JNull)"
    using ex_plan_request by (rule plan_request_answered [rotated]) (simp_all add: ex_post_def)
  then obtain headers payload where run: "do_POST (\<lambda>n. n < 1000) (JObj [(lit ''result'', JNull)]) ex_post = Inr (Reply 200 headers payload)"
    using json_reply_ok [of 200 "plan_answer JNull"] by metis
  from run remote_answer_round_trip [OF run, of JNull] show ?thesis by auto
qed

end
