(* ===== verification/AgentCards.thy ===== *)
theory AgentCards
  imports JsonRound PyFs PyRegex
begin

text \<open>
  \<open>scripts/gen_agent_cards.py\<close>: the clusters, the scan of the Elixir sources with
  the two line patterns, the skills and cards of a cluster, and \<open>main\<close> with the
  generated README. The word characters of \<open>\b\<close> beyond the source's control, a
  table of the Unicode database, are the parameter \<open>word\<close>.
\<close>

section \<open>Constants\<close>

definition PROTOCOL_VERSION :: string where
  "PROTOCOL_VERSION = ''1.0''"

definition LAW :: string where
  "LAW = ''BRCE.execute/4 is the exclusive receipted-DO boundary; receipt proves admission, never authority''"

definition CLUSTERS :: "(string \<times> string list) list" where
  "CLUSTERS =
     [(''evidence'', [''evidence.ex'', ''evidence/'']),
      (''ocel'', [''ocel.ex'', ''ocel2.ex'', ''ocel_writer.ex'', ''xes.ex'', ''powl.ex'', ''domain/'']),
      (''engine'', [''engine.ex'', ''engine/'']),
      (''information'', [''information.ex'', ''information/'']),
      (''runtime'', [''runtime.ex'', ''runtime/'']),
      (''stream'', [''stream.ex'', ''stream/'']),
      (''qualification'', [''qualification.ex'', ''qualification/'']),
      (''explore'', [''explore.ex'', ''explore/'']),
      (''core'', [''core.ex'', ''core/'', ''contracts.ex'', ''standing_coded.ex'', ''economic_isa.ex'',
                  ''gall.ex'', ''aloop.ex'', ''reactor.ex'', ''cli.ex'', ''application.ex''])]"

definition alnum_items :: "item list" where
  "alnum_items = [span_item CHR ''A'' CHR ''Z'', span_item CHR ''a'' CHR ''z'', span_item CHR ''0'' CHR ''9'', char_item CHR ''_'']"

definition space :: cclass where
  "space = one_of [Space]"

definition MODULE_RE :: "cclass \<Rightarrow> rx" where
  "MODULE_RE word = sequence
     [TextStart, Many 0 space, literal ''defmodule'', Many 1 space,
      Group 1 (Many 1 (one_of (alnum_items @ [char_item CHR ''.'']))),
      Many 1 space, literal ''do'', Boundary word]"

definition DEF_RE :: rx where
  "DEF_RE = sequence
     [TextStart, Many 0 space, literal ''def'', Opt (Group 1 (literal ''p'')), Many 1 space,
      Group 2 (Seq (One (one_of [span_item CHR ''a'' CHR ''z'', char_item CHR ''_'']))
                   (Many 0 (one_of (alnum_items @ [char_item CHR ''?'', char_item CHR ''!''])))),
      Opt (Group 3 (sequence [literal ''('', Many 0 (none_of [char_item CHR '')'']), literal '')''])),
      Many 0 space,
      Opt (Alt (sequence [literal '','', Many 0 (none_of [char_item CHR ''='']), literal ''='', Many 0 (none_of [Range 10 10])])
          (Alt (literal ''do'') (literal '':''))),
      Many 0 space, TextEnd]"

definition SKIP_NAMES :: "str list" where
  "SKIP_NAMES = map lit
     [''init'', ''start_link'', ''handle_call'', ''handle_cast'', ''handle_info'',
      ''handle_demand'', ''handle_continue'', ''child_spec'']"

section \<open>Files\<close>

definition version_pattern :: rx where
  "version_pattern = sequence
     [literal ''version:'', Many 0 space, literal [CHR 0x22],
      Group 1 (Many 1 (none_of [char_item CHR 0x22])), literal [CHR 0x22]]"

definition ex4pm_version :: "fs \<Rightarrow> path \<Rightarrow> str res" where
  "ex4pm_version fs root =
     ebind (read_path_text fs (root @ [lit ''mix.exs''])) (\<lambda>t.
     Inr (case re_search version_pattern t of
            None \<Rightarrow> lit ''0.0.0''
          | Some m \<Rightarrow> the (group_text 1 m)))"

definition lib_path :: "path \<Rightarrow> path" where
  "lib_path root = root @ [lit ''lib'', lit ''ex4pm'']"

definition out_path :: "path \<Rightarrow> path" where
  "out_path root = root @ [lit ''priv'', lit ''cards'']"

text \<open>A path below \<open>lib/ex4pm\<close> as text.\<close>

definition rel_key :: "path \<Rightarrow> str" where
  "rel_key rel = join_with [47] rel"

definition sorted_clusters :: "(string \<times> string list) list" where
  "sorted_clusters = sort_key (\<lambda>c. lit (fst c)) CLUSTERS"

definition cluster_for :: "str \<Rightarrow> str option" where
  "cluster_for rel =
     map_option (lit \<circ> fst)
       (find (\<lambda>c. list_ex (\<lambda>p. rel = lit p \<or> starts_with (lit p) rel) (snd c)) sorted_clusters)"

text \<open>
  \<open>read_text(errors="replace")\<close>: every ill-formed piece of UTF-8, as long as it
  could still have begun a character, becomes one replacement character.
\<close>

definition lead_width :: "nat \<Rightarrow> nat" where
  "lead_width b = (if 194 \<le> b \<and> b \<le> 223 then 2 else if 224 \<le> b \<and> b \<le> 239 then 3
     else if 240 \<le> b \<and> b \<le> 244 then 4 else 1)"

definition second_ok :: "nat \<Rightarrow> nat \<Rightarrow> bool" where
  "second_ok b c \<longleftrightarrow>
     (if b = 224 then 160 \<le> c \<and> c \<le> 191 else if b = 237 then 128 \<le> c \<and> c \<le> 159
      else if b = 240 then 144 \<le> c \<and> c \<le> 191 else if b = 244 then 128 \<le> c \<and> c \<le> 143
      else is_cont c)"

fun bad_piece :: "nat list \<Rightarrow> nat" where
  "bad_piece (b # c # d # _) =
     (if lead_width b < 3 \<or> \<not> second_ok b c then 1
      else if lead_width b = 4 \<and> is_cont d then 3 else 2)"
| "bad_piece [b, c] = (if lead_width b < 3 \<or> \<not> second_ok b c then 1 else 2)"
| "bad_piece _ = 1"

lemma bad_piece_pos: "0 < bad_piece bs"
  by (cases bs rule: bad_piece.cases) simp_all

definition whole_char :: "nat list \<Rightarrow> (nat \<times> nat) option" where
  "whole_char bs =
     (let n = (case bs of [] \<Rightarrow> 1 | b # _ \<Rightarrow> lead_width b) in
      case utf8_to_cps (take n bs) of Some [c] \<Rightarrow> Some (c, n) | _ \<Rightarrow> None)"

lemma whole_char_pos: "whole_char bs = Some (c, n) \<Longrightarrow> 0 < n"
  by (auto simp: whole_char_def lead_width_def Let_def split: list.splits option.splits if_splits)

function utf8_replace :: "nat list \<Rightarrow> str" where
  "utf8_replace bs =
     (if bs = [] then []
      else (case whole_char bs of
              Some (c, n) \<Rightarrow> c # utf8_replace (drop n bs)
            | None \<Rightarrow> 65533 # utf8_replace (drop (bad_piece bs) bs)))"
  by pat_completeness auto
termination
  by (relation "measure length") (use bad_piece_pos in \<open>auto dest: whole_char_pos\<close>)

declare utf8_replace.simps [simp del]

definition read_replace :: "fs \<Rightarrow> path \<Rightarrow> str res" where
  "read_replace fs p = ebind (read_bytes fs p) (\<lambda>bs. Inr (universal_newlines (utf8_replace (map unat bs))))"

section \<open>Parsing\<close>

record module_entry =
  entry_name :: str
  entry_functions :: "str list"

text \<open>One line: a module begins, or a public function joins the module that began last.\<close>

definition add_function :: "str \<Rightarrow> module_entry list \<Rightarrow> module_entry list" where
  "add_function fname ms =
     (let m = last ms in
      if fname \<in> set (entry_functions m) then ms
      else butlast ms @ [m\<lparr>entry_functions := entry_functions m @ [fname]\<rparr>])"

definition parse_line :: "cclass \<Rightarrow> module_entry list \<Rightarrow> str \<Rightarrow> module_entry list" where
  "parse_line word ms line =
     (case re_match (MODULE_RE word) line of
        Some m \<Rightarrow> ms @ [\<lparr>entry_name = the (group_text 1 m), entry_functions = []\<rparr>]
      | None \<Rightarrow>
          (case re_match DEF_RE line of
             None \<Rightarrow> ms
           | Some d \<Rightarrow>
               if ms = [] then ms
               else if group_text 1 d \<noteq> None then ms
               else
                 (let fname = the (group_text 2 d) in
                  if fname \<in> set SKIP_NAMES then ms else add_function fname ms)))"

definition parse_text :: "cclass \<Rightarrow> str \<Rightarrow> module_entry list" where
  "parse_text word t = fold (\<lambda>line ms. parse_line word ms line) (splitlines t) []"

definition parse_file :: "cclass \<Rightarrow> fs \<Rightarrow> path \<Rightarrow> module_entry list res" where
  "parse_file word fs p = ebind (read_replace fs p) (\<lambda>t. Inr (parse_text word t))"

section \<open>Collecting\<close>

record card_module =
  cm_module :: str
  cm_functions :: "str list"
  cm_source :: str

type_synonym clusters = "(str \<times> card_module list) list"

definition source_files :: "fs \<Rightarrow> path \<Rightarrow> path list" where
  "source_files fs root =
     sort (filter (\<lambda>rel. starts_with (rev (lit ''.ex'')) (rev (last rel)) \<and> cluster_for (rel_key rel) \<noteq> None)
             (rglob fs (lib_path root)))"

definition add_module :: "str \<Rightarrow> str \<Rightarrow> clusters \<Rightarrow> module_entry \<Rightarrow> clusters" where
  "add_module cluster rel cs m =
     (if entry_functions m = [] then cs
      else AList.update cluster (get_or cs cluster [] @
             [\<lparr>cm_module = entry_name m, cm_functions = entry_functions m, cm_source = lit ''lib/ex4pm/'' @ rel\<rparr>]) cs)"

definition add_file :: "cclass \<Rightarrow> fs \<Rightarrow> path \<Rightarrow> clusters \<Rightarrow> path \<Rightarrow> clusters res" where
  "add_file word fs root cs rel =
     ebind (parse_file word fs (lib_path root @ rel)) (\<lambda>ms.
     Inr (foldl (add_module (the (cluster_for (rel_key rel))) (rel_key rel)) cs ms))"

definition collect :: "cclass \<Rightarrow> fs \<Rightarrow> path \<Rightarrow> clusters res" where
  "collect word fs root =
     ebind (efold (add_file word fs root) [] (source_files fs root)) (\<lambda>cs.
     Inr (map (\<lambda>(cluster, ms). (cluster, sort_key cm_module ms)) cs))"

section \<open>Cards\<close>

definition skill_id :: "str \<Rightarrow> str \<Rightarrow> str" where
  "skill_id cluster fname =
     lit ''ex4pm.'' @ cluster @ lit ''.'' @ map (\<lambda>c. if c = 95 then 45 else c) fname"

record skill =
  sk_id :: str
  sk_name :: str
  sk_description :: str
  sk_tags :: "str list"
  sk_module :: str
  sk_file :: str

definition make_skill :: "str \<Rightarrow> card_module \<Rightarrow> str \<Rightarrow> skill" where
  "make_skill cluster m fname =
     \<lparr>sk_id = skill_id cluster fname, sk_name = fname,
      sk_description = cm_module m @ lit ''.'' @ fname @ [32, 8212, 32] @ lit LAW,
      sk_tags = [cluster], sk_module = cm_module m, sk_file = cm_source m\<rparr>"

text \<open>The inner body: a function whose identifier has been seen is skipped.\<close>

definition add_skill :: "str \<Rightarrow> skill list \<Rightarrow> card_module \<times> str \<Rightarrow> skill list" where
  "add_skill cluster skills item =
     (case item of (m, fname) \<Rightarrow>
        if skill_id cluster fname \<in> set (map sk_id skills) then skills
        else skills @ [make_skill cluster m fname])"

definition module_items :: "card_module list \<Rightarrow> (card_module \<times> str) list" where
  "module_items ms = concat (map (\<lambda>m. map (Pair m) (cm_functions m)) ms)"

definition make_skills :: "str \<Rightarrow> card_module list \<Rightarrow> skill list" where
  "make_skills cluster ms = sort_key sk_id (foldl (add_skill cluster) [] (module_items ms))"

definition skill_json :: "skill \<Rightarrow> json" where
  "skill_json s =
     JObj [(lit ''id'', JStr (sk_id s)), (lit ''name'', JStr (sk_name s)),
           (lit ''description'', JStr (sk_description s)), (lit ''tags'', JArr (map JStr (sk_tags s))),
           (lit ''source_module'', JStr (sk_module s)), (lit ''source_file'', JStr (sk_file s))]"

definition make_card :: "str \<Rightarrow> str \<Rightarrow> card_module list \<Rightarrow> json" where
  "make_card version cluster ms =
     JObj [(lit ''protocolVersion'', JStr (lit ''1.0'')),
           (lit ''version'', JStr version),
           (lit ''id'', JStr (lit ''ex4pm.'' @ cluster)),
           (lit ''name'', JStr (lit ''ex4pm '' @ cluster @ lit '' contract-versioned capability card'')),
           (lit ''description'', JStr (lit LAW)),
           (lit ''generatedFrom'', JStr (lit ''lib/ex4pm'')),
           (lit ''generator'', JStr (lit ''scripts/gen_agent_cards.py'')),
           (lit ''supportedInterfaces'', JArr
              [JObj [(lit ''protocolVersion'', JStr (lit PROTOCOL_VERSION)), (lit ''protocolBinding'', JStr (lit ''stdin''))]]),
           (lit ''capabilities'', JObj
              [(lit ''streaming'', JBool False),
               (lit ''receiptedExecution'', JBool (cluster = lit ''evidence'')),
               (lit ''authorityLaw'', JStr (lit LAW))]),
           (lit ''skills'', JArr (map skill_json (make_skills cluster ms)))]"

section \<open>The command\<close>

definition card_total :: "clusters \<Rightarrow> nat" where
  "card_total cs = sum_list (map (\<lambda>c. length (snd c)) cs)"

definition readme_row :: "str \<times> card_module list \<Rightarrow> str" where
  "readme_row c =
     lit ''| ex4pm.'' @ fst c @ lit '' | priv/cards/'' @ fst c @ lit ''.json | ''
     @ dec_nat (sum_list (map (length \<circ> cm_functions) (snd c))) @ lit '' |''"

definition readme_lines :: "clusters \<Rightarrow> str list" where
  "readme_lines cs =
     [lit ''# ex4pm Agent Cards (GENERATED)'', [],
      lit ''One v1.0 capability card per capability cluster ('' @ dec_nat (length cs) @ lit '' clusters, ''
        @ dec_nat (card_total cs) @ lit '' public functions).'', [],
      lit ''All descriptions carry the authority law verbatim:'', [],
      lit ''> BRCE.execute/4 is the exclusive receipted-DO boundary; receipt proves admission, never authority'', [],
      lit ''## Regenerate'', [],
      lit ''```sh'', lit ''python3 scripts/gen_agent_cards.py'', lit ''```'', [],
      lit ''Do not hand-edit priv/cards/ '' @ [8212] @ lit '' edit lib/ex4pm and regenerate.'', [],
      lit ''| card | file | skills |'', lit ''|---|---|---|'']
     @ map readme_row (sort_key fst cs)"

definition write_card :: "path \<Rightarrow> fs \<Rightarrow> str \<times> card_module list \<Rightarrow> fs res" where
  "write_card root fs c =
     ebind (ex4pm_version fs root) (\<lambda>version.
     ebind (write_text (dumps indented (make_card version (fst c) (snd c)) @ [10])) (\<lambda>bs.
     write_file fs (out_path root @ [fst c @ lit ''.json'']) bs))"

definition cards_main :: "cclass \<Rightarrow> fs \<Rightarrow> path \<Rightarrow> (str \<times> fs) res" where
  "cards_main word fs root =
     ebind (make_dirs fs (out_path root)) (\<lambda>fs.
     ebind (collect word fs root) (\<lambda>cs.
     ebind (efold (write_card root) fs (sort_key fst cs)) (\<lambda>fs.
     ebind (write_text (join_with [10] (readme_lines cs) @ [10])) (\<lambda>bs.
     ebind (write_file fs (out_path root @ [lit ''README.md'']) bs) (\<lambda>fs.
     Inr (lit ''wrote '' @ dec_nat (length cs) @ lit '' cards, '' @ dec_nat (card_total cs)
            @ lit '' skills -> '' @ [47] @ join_with [47] (out_path root) @ [10], fs))))))"

end
