(* ===== verification/Commands.thy ===== *)
theory Commands
  imports ArgLines Crown PlanExtract HexPackage FlyTopology EmitOcel ReferenceRemote AgentCards
    SubjectCourts ConsumerCourt
begin

text \<open>
  The programs as commands: the arguments each declares, what becomes of them, and
  the exit status. A command line that asks for help ends with 0 and one that
  cannot be parsed with 2, before the program does anything; otherwise \<open>main\<close> runs,
  and an exception it ends in makes the status 1.
\<close>

section \<open>Command lines\<close>

datatype 'r ended = Helped | Misused | Ran 'r

definition command :: "parser \<Rightarrow> (namespace \<Rightarrow> 'r) \<Rightarrow> str list \<Rightarrow> 'r ended" where
  "command P run argv =
     (case parse_args P argv of
        Inl HelpExit \<Rightarrow> Helped
      | Inl UsageExit \<Rightarrow> Misused
      | Inr ns \<Rightarrow> Ran (run ns))"

definition exit_status :: "('r \<Rightarrow> nat) \<Rightarrow> 'r ended \<Rightarrow> nat" where
  "exit_status status e = (case e of Helped \<Rightarrow> 0 | Misused \<Rightarrow> 2 | Ran r \<Rightarrow> status r)"

text \<open>\<open>raise SystemExit(main())\<close>: what \<open>main\<close> returns, or 1 for any exception it ends in.\<close>

definition raised_status :: "'a res \<Rightarrow> nat" where
  "raised_status r = (case r of Inl _ \<Rightarrow> 1 | Inr _ \<Rightarrow> 0)"

definition coded_status :: "(nat \<times> 'a) res \<Rightarrow> nat" where
  "coded_status r = (case r of Inl _ \<Rightarrow> 1 | Inr (code, _) \<Rightarrow> code)"

text \<open>
  An argument that is passed on as a path or text; what is neither raises, as
  \<open>Path(None)\<close> and \<open>Path([])\<close> do.
\<close>

definition text_arg :: "namespace \<Rightarrow> string \<Rightarrow> str res" where
  "text_arg ns k = (case map_of ns (lit k) of Some (TextArg s) \<Rightarrow> Inr s | _ \<Rightarrow> Inl TypeError)"

definition optional_arg :: "namespace \<Rightarrow> string \<Rightarrow> str option" where
  "optional_arg ns k = (case map_of ns (lit k) of Some (TextArg s) \<Rightarrow> Some s | _ \<Rightarrow> None)"

definition preset_of :: "str option \<Rightarrow> arg_value" where
  "preset_of v = (case v of None \<Rightarrow> Missing | Some s \<Rightarrow> TextArg s)"

section \<open>The crown verifier\<close>

definition crown_parser :: "(str \<Rightarrow> str option) \<Rightarrow> parser" where
  "crown_parser environ =
     [positional ''crown'',
      optional ''--evidence-root'' (TextArg (lit ''.'')),
      optional ''--expected-source'' (preset_of (environ (lit ''EX4PM_SUBJECT_SHA''))),
      optional ''--expected-tree'' (preset_of (environ (lit ''EX4PM_SUBJECT_TREE''))),
      optional ''--output'' Missing]"

definition crown_args_of :: "namespace \<Rightarrow> crown_args res" where
  "crown_args_of ns =
     ebind (text_arg ns ''crown'') (\<lambda>crown.
     ebind (text_arg ns ''evidence_root'') (\<lambda>root.
     Inr \<lparr>crown_arg = crown, evidence_root_arg = root,
          expected_source_arg = optional_arg ns ''expected_source'',
          expected_tree_arg = optional_arg ns ''expected_tree'',
          output_arg = optional_arg ns ''output''\<rparr>))"

text \<open>Making the two paths happens inside the \<open>try\<close>.\<close>

definition crown_command ::
  "git \<Rightarrow> (str \<Rightarrow> str option) \<Rightarrow> fs \<Rightarrow> path \<Rightarrow> str list \<Rightarrow> crown_run ended" where
  "crown_command git environ fs cwd =
     command (crown_parser environ)
       (\<lambda>ns. case crown_args_of ns of
               Inl e \<Rightarrow> crown_refused fs (Interp e)
             | Inr args \<Rightarrow> crown_main git fs cwd args)"

section \<open>Plan extraction\<close>

definition plan_parser :: parser where
  "plan_parser = [positional ''raw'', positional ''output'']"

text \<open>The second path is made when the object has been found.\<close>

definition plan_command :: "fs \<Rightarrow> path \<Rightarrow> str list \<Rightarrow> (str \<times> fs) res ended" where
  "plan_command fs cwd =
     command plan_parser
       (\<lambda>ns. ebind (text_arg ns ''raw'') (\<lambda>raw.
         case text_arg ns ''output'' of
           Inl e \<Rightarrow> ebind (plan_select fs cwd raw) (\<lambda>_. Inl e)
         | Inr out \<Rightarrow> plan_main fs cwd raw out))"

section \<open>The package inspection\<close>

definition package_parser :: parser where
  "package_parser =
     [positional ''root'', mandatory ''--version'', mandatory ''--package'', optional ''--output'' Missing]"

definition package_command ::
  "(nat \<Rightarrow> bool) \<Rightarrow> fs \<Rightarrow> path \<Rightarrow> str list \<Rightarrow> (nat \<times> str \<times> fs) res ended" where
  "package_command printable fs cwd =
     command package_parser
       (\<lambda>ns. ebind (text_arg ns ''root'') (\<lambda>root.
         ebind (text_arg ns ''version'') (\<lambda>version.
         ebind (text_arg ns ''package'') (\<lambda>package.
         package_main printable fs cwd
           \<lparr>package_root = root, expected_version_arg = version, package_name = package,
            report_output = optional_arg ns ''output''\<rparr>))))"

section \<open>The topology qualification\<close>

definition fly_parser :: parser where
  "fly_parser = [positional ''machines_json'', mandatory ''--source-sha'', mandatory ''--output-dir'']"

definition fly_command :: "fs \<Rightarrow> path \<Rightarrow> str list \<Rightarrow> (nat \<times> str \<times> fs) res ended" where
  "fly_command fs cwd =
     command fly_parser
       (\<lambda>ns. ebind (text_arg ns ''machines_json'') (\<lambda>machines.
         ebind (text_arg ns ''source_sha'') (\<lambda>source.
         ebind (text_arg ns ''output_dir'') (\<lambda>out.
         fly_main fs cwd machines source out))))"

section \<open>The relay\<close>

definition emit_parser :: parser where
  "emit_parser =
     [mandatory ''--activity'',
      (mandatory ''--standing'')\<lparr>choices := Some (sorted_set STANDINGS)\<rparr>,
      (mandatory ''--authority-domain'')\<lparr>choices := Some (sorted_set AUTHORITY_DOMAINS)\<rparr>,
      mandatory ''--agent-id'', mandatory ''--run-id'', mandatory ''--sequence'', mandatory ''--repo'',
      mandatory ''--sha'', mandatory ''--receipt'', optional ''--output'' Missing]"

definition emit_args_of :: "namespace \<Rightarrow> emit_args res" where
  "emit_args_of ns =
     ebind (text_arg ns ''activity'') (\<lambda>activity.
     ebind (text_arg ns ''standing'') (\<lambda>standing.
     ebind (text_arg ns ''authority_domain'') (\<lambda>domain.
     ebind (text_arg ns ''agent_id'') (\<lambda>agent.
     ebind (text_arg ns ''run_id'') (\<lambda>run.
     ebind (text_arg ns ''sequence'') (\<lambda>sequence.
     ebind (text_arg ns ''repo'') (\<lambda>repo.
     ebind (text_arg ns ''sha'') (\<lambda>sha.
     ebind (text_arg ns ''receipt'') (\<lambda>receipt.
     Inr \<lparr>activity = activity, standing = standing, authority_domain = domain, agent_id = agent,
          run_id = run, sequence_no = sequence, repo = repo, sha = sha, receipt_path = receipt,
          output_path = optional_arg ns ''output''\<rparr>)))))))))"

definition emit_command :: "world \<Rightarrow> str list \<Rightarrow> (str res \<times> fs) ended" where
  "emit_command w =
     command emit_parser
       (\<lambda>ns. case emit_args_of ns of Inl e \<Rightarrow> (Inl e, w_fs w) | Inr args \<Rightarrow> emit_main w args)"

section \<open>Programs that find their files beside themselves\<close>

text \<open>\<open>Path(__file__).resolve()\<close> and its parents.\<close>

definition script_parent :: "nat \<Rightarrow> path \<Rightarrow> path res" where
  "script_parent n p = (if n < length p then Inr (take (length p - Suc n) p) else Inl IndexError)"

definition r54_program ::
  "(nat \<Rightarrow> bool) \<Rightarrow> (nat \<Rightarrow> bool) \<Rightarrow> fs \<Rightarrow> path \<Rightarrow> (path \<Rightarrow> str res) \<Rightarrow> (nat \<times> str) res" where
  "r54_program enc printable fs script git_head =
     ebind (resolve fs script) (\<lambda>p.
     ebind (script_parent 2 p) (\<lambda>root.
     r54_main enc printable fs (butlast p) (git_head root)))"

definition r79_program :: "(nat \<Rightarrow> bool) \<Rightarrow> fs \<Rightarrow> path \<Rightarrow> (nat \<times> str) res" where
  "r79_program enc fs script = ebind (resolve fs script) (\<lambda>p. r79_main enc fs (butlast p))"

definition r58_program ::
  "(nat \<Rightarrow> bool) \<Rightarrow> (bytes \<Rightarrow> 'g res) \<Rightarrow> ('g \<Rightarrow> str \<Rightarrow> bool res) \<Rightarrow> fs \<Rightarrow> path \<Rightarrow> court_outcome res" where
  "r58_program enc parse ask fs script = ebind (resolve fs script) (\<lambda>p. r58_main enc parse ask fs (butlast p))"

definition cards_program :: "cclass \<Rightarrow> fs \<Rightarrow> path \<Rightarrow> (str \<times> fs) res" where
  "cards_program word fs script =
     ebind (resolve fs script) (\<lambda>p. cards_main word fs (butlast (butlast p)))"

end
