(* ===== verification/RemoteServer.thy ===== *)
theory RemoteServer
  imports Commands
begin

text \<open>
  \<open>main\<close> of \<open>qualification/reference-remote/server.py\<close>, from the command line to the
  planner's result the server answers with, and the dispatch of a request to its
  handler. \<open>ThreadingHTTPServer\<close> makes a handler of its own for every connection and,
  speaking HTTP/1.0, answers one request on it; the planner's result is the only
  thing handlers share and nothing writes it after \<open>main\<close> has, so what a request is
  answered is a function of that result and the request. Which connections
  are accepted, and when, is not modelled. Binding the port and loading the chain
  are parameters that may raise.
\<close>

section \<open>Start\<close>

definition remote_parser :: parser where
  "remote_parser =
     [mandatory ''--cert'', mandatory ''--key'', mandatory ''--planner-result'',
      (optional ''--port'' (IntArg 8443))\<lparr>conversion := AsInt\<rparr>]"

record remote_world =
  bind_port :: "int \<Rightarrow> unit res"
  load_chain :: "str \<Rightarrow> str \<Rightarrow> unit res"

text \<open>The result of the planner, once the server listens.\<close>

definition remote_main ::
  "remote_world \<Rightarrow> fs \<Rightarrow> path \<Rightarrow> str \<Rightarrow> str \<Rightarrow> str \<Rightarrow> int \<Rightarrow> json res" where
  "remote_main w fs cwd cert key planner port =
     ebind (ebind (read_path_text fs (join_path cwd planner)) loads) (\<lambda>planner_result.
     ebind (bind_port w port) (\<lambda>_.
     ebind (load_chain w cert key) (\<lambda>_.
     Inr planner_result)))"

definition remote_command :: "remote_world \<Rightarrow> fs \<Rightarrow> path \<Rightarrow> str list \<Rightarrow> json res ended" where
  "remote_command w fs cwd =
     command remote_parser
       (\<lambda>ns. ebind (text_arg ns ''cert'') (\<lambda>cert.
         ebind (text_arg ns ''key'') (\<lambda>key.
         ebind (text_arg ns ''planner_result'') (\<lambda>planner.
         case map_of ns (lit ''port'') of
           Some (IntArg port) \<Rightarrow> remote_main w fs cwd cert key planner port
         | _ \<Rightarrow> Inl TypeError))))"

section \<open>Requests\<close>

text \<open>A method without a \<open>do_\<close> handler gets the library's error page 501.\<close>

datatype request = Get str | Post http_post | OtherMethod

definition serve :: "(nat \<Rightarrow> bool) \<Rightarrow> json \<Rightarrow> request \<Rightarrow> reply res" where
  "serve alloc planner r =
     (case r of Get target \<Rightarrow> do_GET target | Post post \<Rightarrow> do_POST alloc planner post | OtherMethod \<Rightarrow> Inr (ErrorPage 501))"

section \<open>Properties\<close>

lemma remote_command_reads:
  assumes "remote_command w fs cwd argv = Ran (Inr planner)"
  shows "\<exists>ns file. parse_args remote_parser argv = Inr ns \<and> map_of ns (lit ''planner_result'') = Some (TextArg file)
    \<and> ebind (read_path_text fs (join_path cwd file)) loads = Inr planner"
proof -
  from assms obtain ns where ns: "parse_args remote_parser argv = Inr ns"
    by (auto simp: remote_command_def command_def split: sum.splits parse_exit.splits)
  with assms show ?thesis
    by (auto simp: remote_command_def command_def remote_main_def text_arg_def res_dest
        split: option.splits arg_value.splits)
qed

text \<open>What a plan request is answered: the planner's result, framed and readable.\<close>

definition answers_plan :: "json \<Rightarrow> reply \<Rightarrow> bool" where
  "answers_plan result reply \<longleftrightarrow>
     (\<exists>headers payload. reply = Reply 200 headers payload
        \<and> map_of headers (lit ''content-length'') = Some (dec_nat (length payload))
        \<and> loads_bytes payload = Inr (JObj [(lit ''receipt_verified'', JBool True), (lit ''result'', sort_json result),
            (lit ''standing'', JStr (lit ''ALIVE''))]))"

lemma plan_served:
  assumes "post_target post = lit ''/plan''" "plan_request alloc post" "fld d ''result'' = Some result" "json_ok result"
  shows "\<exists>reply. do_POST alloc (JObj d) post = Inr reply \<and> answers_plan result reply"
proof -
  obtain headers payload where run: "do_POST alloc (JObj d) post = Inr (Reply 200 headers payload)"
    using plan_request_answered [OF assms(1-3)] json_reply_ok [of 200 "plan_answer result"] by metis
  from remote_answer_round_trip [OF run assms(3,4)] run show ?thesis
    by (auto simp: answers_plan_def)
qed

text \<open>C35: the remote serves the planner's file: from the command line on, the answers are made from
  the file as it was when the server started; a request is answered with status 200 exactly when it
  asks for the health, or is a well-formed plan request (on \<open>/plan\<close>, its length one the reader
  takes, its body an object with operation \<open>plan\<close> and an object as subject) and the file holds a
  result; and then what is sent has the length its header states and reads back as that
  result, whatever the subject was.\<close>

theorem remote_serves_planner:
  assumes "remote_command w fs cwd argv = Ran (Inr planner)"
  shows "(\<exists>ns file. parse_args remote_parser argv = Inr ns \<and> map_of ns (lit ''planner_result'') = Some (TextArg file)
      \<and> ebind (read_path_text fs (join_path cwd file)) loads = Inr planner)
    \<and> ((\<exists>headers payload. serve alloc planner r = Inr (Reply 200 headers payload)) \<longleftrightarrow>
        r = Get (lit ''/health'')
        \<or> (\<exists>post d result. r = Post post \<and> post_target post = lit ''/plan'' \<and> plan_request alloc post
             \<and> planner = JObj d \<and> fld d ''result'' = Some result))
    \<and> (\<forall>post d result. r = Post post \<and> post_target post = lit ''/plan'' \<and> plan_request alloc post
        \<and> planner = JObj d \<and> fld d ''result'' = Some result \<and> json_ok result
        \<longrightarrow> (\<exists>reply. serve alloc planner r = Inr reply \<and> answers_plan result reply))"
proof -
  have "(\<exists>headers payload. serve alloc planner r = Inr (Reply 200 headers payload)) \<longleftrightarrow>
        r = Get (lit ''/health'')
        \<or> (\<exists>post d result. r = Post post \<and> post_target post = lit ''/plan'' \<and> plan_request alloc post
             \<and> planner = JObj d \<and> fld d ''result'' = Some result)"
  proof (cases r)
    case (Get target)
    show ?thesis
      using json_reply_ok [of 200 "JObj [(lit ''standing'', JStr (lit ''ALIVE''))]"]
      by (auto simp: Get serve_def do_GET_def) metis
  next
    case (Post post)
    then show ?thesis using plan_answered_iff [of alloc planner post] by (simp add: serve_def)
  qed (simp add: serve_def)
  then show ?thesis
    using remote_command_reads [OF assms] plan_served by (auto simp: serve_def)
qed

section \<open>A run\<close>

definition ex_planner :: json where
  "ex_planner = JObj [(lit ''result'', JNull)]"

definition ex_remote_fs :: fs where
  "ex_remote_fs = [([lit ''p''], File (map of_nat (dump compact 0 ex_planner)))]"

definition ex_remote_world :: remote_world where
  "ex_remote_world = \<lparr>bind_port = \<lambda>_. Inr (), load_chain = \<lambda>_ _. Inr ()\<rparr>"

definition ex_remote_argv :: "str list" where
  "ex_remote_argv = map lit [''--cert'', ''c'', ''--key'', ''k'', ''--planner-result=p'']"

lemma ex_remote_parsed:
  "parse_args remote_parser ex_remote_argv
     = Inr [(lit ''cert'', TextArg (lit ''c'')), (lit ''key'', TextArg (lit ''k'')),
            (lit ''planner_result'', TextArg (lit ''p'')), (lit ''port'', IntArg 8443)]"
  by code_simp

lemma ex_remote_command: "remote_command ex_remote_world ex_remote_fs [] ex_remote_argv = Ran (Inr ex_planner)"
proof -
  have dump: "dump compact 0 ex_planner = lit ''{\"result\":null}''"
    by (simp add: ex_planner_def compact_def encode_string_def encode_char_def newline_at_def lit_def)
  have "loads (lit ''{\"result\":null}'') = Inr ex_planner"
  proof -
    have "json_ok ex_planner" by (simp add: ex_planner_def text_ok_def is_scalar_def lit_def)
    from loads_dump [OF layouts_ok(1) this] show ?thesis by (simp only: dump)
  qed
  moreover have "read_text (map of_nat (lit ''{\"result\":null}'')) = Inr (lit ''{\"result\":null}'')"
  proof -
    have "utf8_encode (lit ''{\"result\":null}'') = Inr (map of_nat (lit ''{\"result\":null}''))"
      by (simp add: utf8_encode_def is_scalar_def utf8_of_cp_def lit_def)
    then show ?thesis using read_write_text [of "lit ''{\"result\":null}''"] by (simp add: write_text_def lit_def)
  qed
  moreover have "join_path [] (lit ''p'') = [lit ''p'']" "plain_name (lit ''p'')"
    by (simp_all add: join_path_def is_absolute_def path_parts_def split_on_def plain_name_def lit_def)
  moreover have "read_bytes ex_remote_fs [lit ''p''] = Inr (map of_nat (lit ''{\"result\":null}''))"
    by (rule read_bytes_plain)
      (simp_all add: canonical_def calculation(4) link_target_def ex_remote_fs_def node_at_def dump)
  ultimately have "ebind (read_path_text ex_remote_fs (join_path [] (lit ''p''))) loads = Inr ex_planner"
    by (simp add: read_path_text_def)
  then show ?thesis
    by (simp add: remote_command_def command_def ex_remote_parsed text_arg_def remote_main_def ex_remote_world_def)
qed

theorem remote_serves_planner_witness:
  "\<exists>reply. serve (\<lambda>n. n < 1000) ex_planner (Post ex_post) = Inr reply \<and> answers_plan JNull reply"
proof -
  have "post_target ex_post = lit ''/plan''" by (simp add: ex_post_def)
  moreover have "\<exists>d. ex_planner = JObj d \<and> fld d ''result'' = Some JNull" by (simp add: ex_planner_def)
  moreover have "json_ok JNull" by simp
  ultimately show ?thesis
    using remote_serves_planner [OF ex_remote_command, of "\<lambda>n. n < 1000" "Post ex_post"] ex_plan_request by blast
qed

end
