(* ===== verification/OcelTypes.thy ===== *)
theory OcelTypes
  imports EmitProps
begin

text \<open>
  A type system for documents, the type of an observation, and the proof that
  what the relay publishes has it, with every reference of an event resolved.
\<close>

section \<open>Types of documents\<close>

text \<open>
  Text with a property, lists, records with exactly the listed fields,
  dictionaries with a property of their keys, and unions.
\<close>

datatype jty =
    TText "str \<Rightarrow> bool"
  | TList jty
  | TRecord "(str \<times> jty) list"
  | TDict "str \<Rightarrow> bool" jty
  | TUnion "jty list"

fun has_type :: "jty \<Rightarrow> json \<Rightarrow> bool" where
  "has_type (TText p) v = (case v of JStr s \<Rightarrow> p s | _ \<Rightarrow> False)"
| "has_type (TList t) v = (case v of JArr xs \<Rightarrow> list_all (has_type t) xs | _ \<Rightarrow> False)"
| "has_type (TRecord fs) v =
     (case v of
        JObj ps \<Rightarrow> distinct (map fst ps) \<and> set (map fst ps) = set (map fst fs)
          \<and> list_all (\<lambda>f. case map_of ps (fst f) of None \<Rightarrow> False | Some u \<Rightarrow> has_type (snd f) u) fs
      | _ \<Rightarrow> False)"
| "has_type (TDict p t) v =
     (case v of JObj ps \<Rightarrow> distinct (map fst ps) \<and> list_all (\<lambda>q. p (fst q) \<and> has_type t (snd q)) ps | _ \<Rightarrow> False)"
| "has_type (TUnion ts) v = list_ex (\<lambda>t. has_type t v) ts"

definition exactly_text :: "string \<Rightarrow> jty" where
  "exactly_text t = TText (\<lambda>s. s = lit t)"

text \<open>Sorting the keys of a document leaves its type.\<close>

definition sorted_members :: "json dict \<Rightarrow> json dict" where
  "sorted_members ps = sort_key fst (map (map_prod id sort_json) ps)"

lemma sorted_members:
  "sort_json (JObj ps) = JObj (sorted_members ps)"
  "distinct (map fst (sorted_members ps)) = distinct (map fst ps)"
  "set (map fst (sorted_members ps)) = set (map fst ps)"
  "set (sorted_members ps) = map_prod id sort_json ` set ps"
  by (simp_all add: sorted_members_def image_comp)

lemma map_of_sorted_members:
  "distinct (map fst ps) \<Longrightarrow> map_of (sorted_members ps) k = map_option sort_json (map_of ps k)"
  by (rule sort_json_fld) (simp_all add: sorted_members_def)

lemma has_type_sort_json: "has_type t v \<Longrightarrow> has_type t (sort_json v)"
proof (induction t v rule: has_type.induct)
  case (1 p v)
  then show ?case by (cases v) simp_all
next
  case (2 t v)
  then show ?case by (cases v) (auto simp: list_all_iff)
next
  case (3 fs v)
  then obtain ps where v: "v = JObj ps" by (cases v) simp_all
  with 3(2) have ps: "distinct (map fst ps)" "set (map fst ps) = set (map fst fs)" by simp_all
  have "case map_of (sorted_members ps) (fst f) of None \<Rightarrow> False | Some u \<Rightarrow> has_type (snd f) u"
    if "f \<in> set fs" for f
  proof -
    from 3(2) v that obtain u where u: "map_of ps (fst f) = Some u" "has_type (snd f) u"
      by (auto simp: list_all_iff split: option.splits)
    with 3(1) [OF v that u(1)] show ?thesis by (simp add: map_of_sorted_members [OF ps(1)])
  qed
  then show ?case using ps unfolding v sorted_members(1)
    by (simp only: has_type.simps json.case sorted_members list_all_iff) blast
next
  case (4 p t v)
  then obtain ps where v: "v = JObj ps" by (cases v) simp_all
  with 4(2) have ps: "distinct (map fst ps)" "\<And>q. q \<in> set ps \<Longrightarrow> p (fst q) \<and> has_type t (snd q)"
    by (simp_all add: list_all_iff)
  have "p (fst q) \<and> has_type t (snd q)" if q: "q \<in> set (sorted_members ps)" for q
  proof -
    from q obtain r where "r \<in> set ps" "q = map_prod id sort_json r" by (auto simp: sorted_members(4))
    with ps(2) 4(1) [OF v] show ?thesis by simp
  qed
  with ps(1) show ?case unfolding v sorted_members(1) by (simp add: list_all_iff sorted_members(2))
next
  case (5 ts v)
  then show ?case by (auto simp: list_ex_iff)
qed

section \<open>The type of an observation\<close>

definition nonblank :: "str \<Rightarrow> bool" where
  "nonblank s \<longleftrightarrow> s \<noteq> [] \<and> strip s = s"

definition revision_id :: "str \<Rightarrow> bool" where
  "revision_id s \<longleftrightarrow> hex_sha s \<and> lower s = s"

definition digest_text :: "str \<Rightarrow> bool" where
  "digest_text s \<longleftrightarrow> length s = 64 \<and> list_all is_hex_lower s"

definition revision_type :: jty where
  "revision_type = TRecord
     [(lit ''type'', exactly_text ''SoftwareSourceRevision''), (lit ''repository'', TText repo_name),
      (lit ''sha'', TText revision_id)]"

definition run_type :: jty where
  "run_type = TRecord
     [(lit ''type'', exactly_text ''VerificationRun''), (lit ''run_id'', TText nonblank),
      (lit ''sequence'', TText nonblank), (lit ''agent_id'', TText nonblank)]"

definition receipt_type :: jty where
  "receipt_type = TRecord
     [(lit ''type'', exactly_text ''EvidenceReceipt''), (lit ''algorithm'', exactly_text ''sha256''),
      (lit ''digest'', TText digest_text)]"

definition event_type :: jty where
  "event_type = TRecord
     [(lit ''activity'', TText nonblank), (lit ''timestamp'', TText (\<lambda>_. True)),
      (lit ''objects'', TList (TText (\<lambda>_. True))),
      (lit ''standing'', TText (\<lambda>s. s \<in> set STANDINGS)),
      (lit ''authority_domain'', TText (\<lambda>s. s \<in> set AUTHORITY_DOMAINS)),
      (lit ''agent_id'', TText nonblank), (lit ''run_id'', TText nonblank), (lit ''sequence'', TText nonblank),
      (lit ''repository'', TText repo_name), (lit ''subject_sha'', TText revision_id),
      (lit ''receipt_sha256'', TText digest_text)]"

definition observation_type :: jty where
  "observation_type = TRecord
     [(lit ''objects'', TDict (\<lambda>_. True) (TUnion [revision_type, run_type, receipt_type])),
      (lit ''events'', TDict (\<lambda>k. starts_with (lit ''verification:'') k
          \<and> digest_text (drop (length (lit ''verification:'')) k)) event_type),
      (lit ''metadata'', TRecord
         [(lit ''schema'', exactly_text ''ex4pm.ocel-verification-observation/v1''),
          (lit ''receipt_sha256'', TText digest_text),
          (lit ''authority_domain'', TText (\<lambda>s. s \<in> set AUTHORITY_DOMAINS))])]"

text \<open>Every event refers to objects of the document, to each once, and to all of them.\<close>

definition references_resolved :: "json dict \<Rightarrow> bool" where
  "references_resolved doc \<longleftrightarrow>
     (\<exists>objects events. obj_field doc ''objects'' = Some objects \<and> obj_field doc ''events'' = Some events
        \<and> (\<forall>e\<in>snd ` set events. \<exists>ps refs. e = JObj ps \<and> fld ps ''objects'' = Some (JArr (map JStr refs))
             \<and> distinct refs \<and> set refs = set (keys objects)))"

lemma object_ids_distinct: "distinct [subject_id a, run_object_id a, receipt_object_id d]"
  by (simp add: subject_id_def run_object_id_def receipt_object_id_def) (simp add: lit_def)

definition args_typed :: "emit_args \<Rightarrow> bool" where
  "args_typed a \<longleftrightarrow> choices_ok a \<and> list_all nonblank [activity a, agent_id a, run_id a, sequence_no a]
     \<and> repo_name (repo a) \<and> revision_id (sha a)"

lemma lower_idem: "lower (lower s) = lower s"
  by (simp add: lower_def)

lemma normal_args_typed:
  assumes "choices_ok args" "args_admissible args"
  shows "args_typed (normal_args args)"
  using assms by (simp add: args_typed_def args_admissible_def choices_ok_def normal_args_def nonblank_def
      revision_id_def lower_idem)

lemma digest_text_sha [simp]: "digest_text (sha256_bytes bs)"
  by (simp add: digest_text_def sha256_bytes_def list_all_iff sha256_hex_lower)

lemma objects_typed:
  assumes "args_typed a" "digest_text d"
  shows "has_type revision_type (JObj [(lit ''type'', JStr (lit ''SoftwareSourceRevision'')),
      (lit ''repository'', JStr (repo a)), (lit ''sha'', JStr (sha a))])"
    and "has_type run_type (JObj [(lit ''type'', JStr (lit ''VerificationRun'')),
      (lit ''run_id'', JStr (run_id a)), (lit ''sequence'', JStr (sequence_no a)), (lit ''agent_id'', JStr (agent_id a))])"
    and "has_type receipt_type (JObj [(lit ''type'', JStr (lit ''EvidenceReceipt'')),
      (lit ''algorithm'', JStr (lit ''sha256'')), (lit ''digest'', JStr d)])"
  using assms by (simp_all add: revision_type_def run_type_def receipt_type_def exactly_text_def args_typed_def)

lemma build_ocel_typed:
  assumes "build_ocel now a d = Inr (JObj doc)" "args_typed a" "digest_text d"
  shows "has_type observation_type (JObj doc)" "references_resolved doc"
proof -
  obtain bs where doc: "build_ocel now a d = Inr (JObj doc)" "canonical_digest (identity_doc a d) = Inr (sha256_bytes bs)"
    using assms(1) by (auto simp: build_ocel_def res_dest canonical_digest_def)
  let ?timestamp = "replace_all (lit ''+00:00'') (lit ''Z'') now"
  have event: "has_type event_type (JObj
             [(lit ''activity'', JStr (activity a)),
              (lit ''timestamp'', JStr ?timestamp),
              (lit ''objects'', JArr
                 [JStr (subject_id a), JStr (run_object_id a), JStr (receipt_object_id d)]),
              (lit ''standing'', JStr (standing a)),
              (lit ''authority_domain'', JStr (authority_domain a)),
              (lit ''agent_id'', JStr (agent_id a)),
              (lit ''run_id'', JStr (run_id a)),
              (lit ''sequence'', JStr (sequence_no a)),
              (lit ''repository'', JStr (repo a)),
              (lit ''subject_sha'', JStr (sha a)),
              (lit ''receipt_sha256'', JStr d)])"
    using assms(2,3) by (simp add: event_type_def args_typed_def choices_ok_def)
  have key: "starts_with (lit ''verification:'') (lit ''verification:'' @ sha256_bytes bs)"
    by (auto simp: starts_with_iff)
  show "has_type observation_type (JObj doc)"
    using doc assms(2,3) event key object_ids_distinct [of a d] objects_typed [OF assms(2,3)]
    unfolding build_ocel_def observation_type_def
    by (simp add: exactly_text_def args_typed_def choices_ok_def)
      (auto simp: exactly_text_def)
  have "distinct [subject_id a, run_object_id a, receipt_object_id d]" by (rule object_ids_distinct)
  with doc show "references_resolved doc"
    unfolding build_ocel_def references_resolved_def
    by (auto simp: obj_field_def intro!: exI [of _ "[subject_id a, run_object_id a, receipt_object_id d]"])
qed

lemma references_sorted:
  assumes "references_resolved doc" "json_ok (JObj doc)"
  shows "references_resolved (sorted_members doc)"
proof -
  from assms(1) obtain objects events where o: "fld doc ''objects'' = Some (JObj objects)"
      "fld doc ''events'' = Some (JObj events)"
    and refs: "\<And>e. e \<in> snd ` set events \<Longrightarrow> \<exists>ps refs. e = JObj ps \<and> fld ps ''objects'' = Some (JArr (map JStr refs))
             \<and> distinct refs \<and> set refs = set (keys objects)"
    unfolding references_resolved_def obj_field_Some by blast
  from o have s: "obj_field (sorted_members doc) ''objects'' = Some (sorted_members objects)"
      "obj_field (sorted_members doc) ''events'' = Some (sorted_members events)"
    using assms(2) by (simp_all add: map_of_sorted_members sorted_members(1) del: sort_json.simps)
  have "\<exists>ps refs. e = JObj ps \<and> fld ps ''objects'' = Some (JArr (map JStr refs))
             \<and> distinct refs \<and> set refs = set (keys (sorted_members objects))" if "e \<in> snd ` set (sorted_members events)" for e
  proof -
    from that have "e \<in> sort_json ` snd ` set events" by (simp only: sorted_members(4) image_image snd_map_prod)
    then obtain e0 where e0: "e0 \<in> snd ` set events" "e = sort_json e0" by blast
    from refs [OF e0(1)] obtain ps refs where ps: "e0 = JObj ps" "fld ps ''objects'' = Some (JArr (map JStr refs))"
        "distinct refs" "set refs = set (keys objects)" by blast
    have "json_ok (JObj events)"
      using assms(2) map_of_SomeD [OF o(2)] by (force simp: list_all_iff)
    then have "json_ok e0" using e0(1) by (auto simp: list_all_iff)
    then have "distinct (map fst ps)" by (simp add: ps(1))
    then have "fld (sorted_members ps) ''objects'' = Some (JArr (map JStr refs))"
      using ps(2) by (simp add: map_of_sorted_members comp_def)
    moreover have "e = JObj (sorted_members ps)" unfolding e0(2) ps(1) by (rule sorted_members(1))
    ultimately show ?thesis using ps(3,4) sorted_members(3) by blast
  qed
  with s show ?thesis unfolding references_resolved_def by blast
qed

section \<open>What is published\<close>

text \<open>C28: what the relay publishes is well typed: the bytes read back as an observation in which
  every field has its kind (a standing and an authority that are known, identities
  of a repository and a revision, texts that are not blank, digests), and every
  event refers to all objects of the document, to each once, and to nothing else.\<close>

theorem observation_typed:
  assumes "emit_payload w args = Inr (a, d, payload)"
  shows "\<exists>doc. loads_bytes payload = Inr (JObj doc) \<and> has_type observation_type (JObj doc) \<and> references_resolved doc"
proof -
  from payload_loads [OF assms] obtain v where v: "build_ocel (w_now w) a d = Inr v" "json_ok v"
      "loads_bytes payload = Inr (sort_json v)" by blast
  then obtain doc where doc: "v = JObj doc" by (auto simp: build_ocel_def res_dest Let_def)
  from assms obtain raw where adm: "choices_ok args" "args_admissible args" "a = normal_args args" "d = sha256_bytes raw"
    unfolding emit_payload_Inr emit_admissible_def by blast
  then have "args_typed a" "digest_text d" by (simp_all add: normal_args_typed)
  with v(1) have "has_type observation_type (JObj doc)" "references_resolved doc"
    unfolding doc by (rule build_ocel_typed)+
  then have "has_type observation_type (sort_json v)" "references_resolved (sorted_members doc)"
    using v(2) unfolding doc by (simp_all only: has_type_sort_json references_sorted)
  with v(3) show ?thesis unfolding doc sorted_members(1) by blast
qed

theorem observation_typed_witness:
  "\<exists>a d payload doc. emit_payload ex_emit_world ex_args = Inr (a, d, payload)
     \<and> loads_bytes payload = Inr (JObj doc) \<and> references_resolved doc"
proof -
  obtain a d payload where run: "emit_payload ex_emit_world ex_args = Inr (a, d, payload)"
    using emit_payload_iff [of ex_emit_world ex_args] ex_admissible by blast
  with observation_typed [OF run] show ?thesis by blast
qed

end
