(* ===== verification/CommandProps.thy ===== *)
theory CommandProps
  imports Commands OcelTypes CrownProps
begin

text \<open>
  The programs from their command line to their exit: the parsers are regular,
  what they hand to \<open>main\<close> is typed, and the crown verifier and the relay fail
  closed whatever the command line is.
\<close>

section \<open>The parsers\<close>

lemmas spec_defs = positional_def optional_def mandatory_def dest_of_def

lemma dests:
  "dest (positional n) = lit n" "dest (optional n v) = dest_of (lit n)" "dest (mandatory n) = dest_of (lit n)"
  by (simp_all add: positional_def optional_def mandatory_def)

lemma flag_names:
  "flag (positional n) = None" "flag (optional n v) = Some (lit n)" "flag (mandatory n) = Some (lit n)"
  by (simp_all add: positional_def optional_def mandatory_def)

lemma dest_texts:
  "dest_of (lit ''--evidence-root'') = lit ''evidence_root''"
  "dest_of (lit ''--expected-source'') = lit ''expected_source''"
  "dest_of (lit ''--expected-tree'') = lit ''expected_tree''"
  "dest_of (lit ''--output'') = lit ''output''"
  "dest_of (lit ''--version'') = lit ''version''"
  "dest_of (lit ''--package'') = lit ''package''"
  "dest_of (lit ''--source-sha'') = lit ''source_sha''"
  "dest_of (lit ''--output-dir'') = lit ''output_dir''"
  "dest_of (lit ''--activity'') = lit ''activity''"
  "dest_of (lit ''--standing'') = lit ''standing''"
  "dest_of (lit ''--authority-domain'') = lit ''authority_domain''"
  "dest_of (lit ''--agent-id'') = lit ''agent_id''"
  "dest_of (lit ''--run-id'') = lit ''run_id''"
  "dest_of (lit ''--sequence'') = lit ''sequence''"
  "dest_of (lit ''--repo'') = lit ''repo''"
  "dest_of (lit ''--sha'') = lit ''sha''"
  "dest_of (lit ''--receipt'') = lit ''receipt''"
  by code_simp+

lemma program_dests:
  "distinct (map dest (crown_parser environ))" "distinct (map dest plan_parser)"
  "distinct (map dest package_parser)" "distinct (map dest fly_parser)" "distinct (map dest emit_parser)"
  by (simp_all add: crown_parser_def plan_parser_def package_parser_def fly_parser_def emit_parser_def dests dest_texts)

section \<open>The relay's arguments\<close>

text \<open>A required text is there after parsing.\<close>

lemma text_arg_required:
  assumes "distinct (map dest P)" "parse_args P argv = Inr ns"
    and "s \<in> set P" "dest s = lit k" "required s" "flag s \<noteq> None" "conversion s = AsText"
  shows "\<exists>x. text_arg ns k = Inr x \<and> (\<forall>cs. choices s = Some cs \<longrightarrow> x \<in> set cs)"
  using parse_args_typed(2) [OF assms(1-3)] assms(4-7) by (auto simp: text_arg_def conforms_def)

lemma set_emit_parser:
  "mandatory ''--activity'' \<in> set emit_parser"
  "(mandatory ''--standing'')\<lparr>choices := Some (sorted_set STANDINGS)\<rparr> \<in> set emit_parser"
  "(mandatory ''--authority-domain'')\<lparr>choices := Some (sorted_set AUTHORITY_DOMAINS)\<rparr> \<in> set emit_parser"
  "mandatory ''--agent-id'' \<in> set emit_parser" "mandatory ''--run-id'' \<in> set emit_parser"
  "mandatory ''--sequence'' \<in> set emit_parser" "mandatory ''--repo'' \<in> set emit_parser"
  "mandatory ''--sha'' \<in> set emit_parser" "mandatory ''--receipt'' \<in> set emit_parser"
  by (simp_all add: emit_parser_def)

lemma mandatory_text:
  "required (mandatory n)" "conversion (mandatory n) = AsText" "flag (mandatory n) \<noteq> None"
  by (simp_all add: mandatory_def optional_def)

lemma emit_args_parsed:
  assumes "parse_args emit_parser argv = Inr ns"
  shows "\<exists>args. emit_args_of ns = Inr args \<and> choices_ok args"
proof -
  note arg = text_arg_required [OF program_dests(5) assms]
  have plain: "\<exists>x. text_arg ns k = Inr x" if "mandatory n \<in> set emit_parser" "dest_of (lit n) = lit k" for n k
    using arg [OF that(1)] that(2) by (auto simp: dests mandatory_text)
  obtain standing where standing: "text_arg ns ''standing'' = Inr standing" "standing \<in> set STANDINGS"
    using arg [OF set_emit_parser(2), of "''standing''"] by (auto simp: dests dest_texts mandatory_text)
  obtain domain where domain: "text_arg ns ''authority_domain'' = Inr domain" "domain \<in> set AUTHORITY_DOMAINS"
    using arg [OF set_emit_parser(3), of "''authority_domain''"] by (auto simp: dests dest_texts mandatory_text)
  show ?thesis
    using standing domain plain [OF set_emit_parser(1) dest_texts(9)] plain [OF set_emit_parser(4) dest_texts(12)]
      plain [OF set_emit_parser(5) dest_texts(13)] plain [OF set_emit_parser(6) dest_texts(14)]
      plain [OF set_emit_parser(7) dest_texts(15)] plain [OF set_emit_parser(8) dest_texts(16)]
      plain [OF set_emit_parser(9) dest_texts(17)]
    by (auto simp: emit_args_of_def choices_ok_def)
qed

text \<open>C29: the relay's command line is typed: unless it asks for help or is refused with a usage
  message, \<open>main\<close> runs on a full record of arguments, with a standing and an
  authority among the choices; no argument can be missing or of another kind.\<close>

theorem relay_arguments_typed:
  "emit_command w argv = Helped \<or> emit_command w argv = Misused
   \<or> (\<exists>ns args. parse_args emit_parser argv = Inr ns \<and> emit_args_of ns = Inr args \<and> choices_ok args
        \<and> emit_command w argv = Ran (emit_main w args))"
proof (cases "parse_args emit_parser argv")
  case (Inl e)
  then show ?thesis by (cases e) (simp_all add: emit_command_def command_def)
next
  case (Inr ns)
  with emit_args_parsed [OF Inr] show ?thesis by (auto simp: emit_command_def command_def)
qed

section \<open>Regular command lines of the relay\<close>

lemma fold_update_found:
  assumes "distinct (map (dest \<circ> fst) given)" "i \<in> set given"
  shows "map_of (fold item_update given ns) (dest (fst i)) = Some (item_value i)"
proof -
  from assms(2) obtain earlier later where given: "given = earlier @ i # later" by (meson split_list)
  with assms(1) have "\<forall>j\<in>set later. dest (fst j) \<noteq> dest (fst i)" by (auto simp: image_iff)
  with fold_update_last [of later "fst i" earlier "snd i" ns] show ?thesis by (simp add: given)
qed

lemma emit_parser_ok: "parser_ok emit_parser"
proof -
  have "list_all (\<lambda>f. f \<noteq> lit ''--'' \<and> f \<noteq> lit ''--help'' \<and> starts_with (lit ''--'') f \<and> 61 \<notin> set f)
      (List.map_filter flag emit_parser)"
    by code_simp
  moreover have "distinct (List.map_filter flag emit_parser)"
    by (simp add: emit_parser_def List.map_filter_simps flag_names)
  ultimately show ?thesis using program_dests(5) by (simp add: parser_ok_def)
qed

definition relay_values :: "emit_args \<Rightarrow> str list" where
  "relay_values args =
     [activity args, standing args, authority_domain args, agent_id args, run_id args, sequence_no args,
      repo args, sha args, receipt_path args]
     @ (case output_path args of None \<Rightarrow> [] | Some out \<Rightarrow> [out])"

text \<open>The options of a run, each with its value, in the order of the declarations.\<close>

definition relay_items :: "emit_args \<Rightarrow> arg_item list" where
  "relay_items args = zip emit_parser (relay_values args)"

lemma relay_items_dests: "distinct (map (dest \<circ> fst) (relay_items args))"
  by (cases "output_path args") (simp_all add: relay_items_def relay_values_def emit_parser_def dests dest_texts)

lemma relay_items_ok:
  assumes "choices_ok args" "list_all plain_arg (relay_values args)" "i \<in> set (relay_items args)"
  shows "fst i \<in> set emit_parser \<and> flag (fst i) \<noteq> None \<and> conversion (fst i) = AsText \<and> item_ok i"
proof -
  have "fst i \<in> set emit_parser" using assms(3) unfolding relay_items_def by (metis prod.collapse set_zip_leftD)
  moreover have "plain_arg (snd i)"
    using assms(2,3) unfolding relay_items_def list_all_iff by (metis prod.collapse set_zip_rightD)
  moreover have "\<forall>i\<in>set (relay_items args). flag (fst i) \<noteq> None \<and> conversion (fst i) = AsText
      \<and> (case choices (fst i) of None \<Rightarrow> True | Some cs \<Rightarrow> snd i \<in> set cs)"
    using assms(1)
    by (cases "output_path args")
      (simp_all add: relay_items_def relay_values_def emit_parser_def mandatory_def optional_def choices_ok_def)
  ultimately show ?thesis using assms(3) by (auto simp: item_ok_def)
qed

lemma emit_args_of_items:
  assumes "\<And>i. i \<in> set (relay_items args) \<Longrightarrow> map_of ns (dest (fst i)) = Some (TextArg (snd i))"
    and "output_path args = None \<Longrightarrow> map_of ns (lit ''output'') = Some Missing"
  shows "emit_args_of ns = Inr args"
proof -
  have "\<forall>i\<in>set (relay_items args). map_of ns (dest (fst i)) = Some (TextArg (snd i))" using assms(1) by blast
  then show ?thesis
    using assms(2)
    by (cases args; cases "output_path args")
      (simp_all add: relay_items_def relay_values_def emit_parser_def dests dest_texts emit_args_of_def
        text_arg_def optional_arg_def)
qed

text \<open>C30: the order of the options does not matter: for any order of a run's options, with
  values that do not begin with a dash and choices that are known, the relay runs
  \<open>main\<close> on exactly these values, and without \<open>--output\<close> on none.\<close>

theorem relay_command_line:
  assumes "mset given = mset (relay_items args)" "choices_ok args" "list_all plain_arg (relay_values args)"
  shows "emit_command w (concat (map item_words given)) = Ran (emit_main w args)"
proof -
  have set: "set given = set (relay_items args)" using assms(1) by (metis set_mset_mset)
  note ok = relay_items_ok [OF assms(2,3)]
  have "\<forall>i\<in>set given. fst i \<in> set emit_parser \<and> item_ok i" using ok unfolding set by blast
  moreover have "filter (\<lambda>s. flag s = None) (map fst given) = filter (\<lambda>s. flag s = None) emit_parser"
    using ok unfolding set [symmetric] by (auto simp: emit_parser_def flag_names filter_empty_conv)
  moreover have "\<forall>s\<in>set emit_parser. required s \<longrightarrow> s \<in> fst ` set given"
    unfolding set by (cases "output_path args")
      (auto simp: relay_items_def relay_values_def emit_parser_def optional_def)
  ultimately have ns: "parse_args emit_parser (concat (map item_words given))
      = Inr (fold item_update given (map (\<lambda>s. (dest s, preset s)) emit_parser))" (is "_ = Inr ?ns")
    by (rule parse_args_items [OF emit_parser_ok])
  have dist: "distinct (map (dest \<circ> fst) given)"
    using relay_items_dests assms(1) by (metis mset_eq_imp_distinct_iff mset_map)
  have "map_of ?ns (dest (fst i)) = Some (TextArg (snd i))" if "i \<in> set (relay_items args)" for i
    using fold_update_found [OF dist, of i] that ok [OF that] by (simp add: set item_value_def)
  moreover have "map_of ?ns (lit ''output'') = Some Missing" if "output_path args = None"
  proof -
    have "\<forall>i\<in>set given. dest (fst i) \<noteq> lit ''output''"
      using that unfolding set by (simp add: relay_items_def relay_values_def emit_parser_def dests dest_texts)
    then show ?thesis
      by (simp only: fold_update_other) (simp add: emit_parser_def dests dest_texts optional_def)
  qed
  ultimately have "emit_args_of ?ns = Inr args" by (rule emit_args_of_items)
  with ns show ?thesis by (simp add: emit_command_def command_def)
qed

theorem relay_command_line_witness:
  "emit_command ex_emit_world (concat (map item_words (rev (relay_items EmitProps.ex_args))))
     = Ran (emit_main ex_emit_world EmitProps.ex_args)"
proof (rule relay_command_line)
  show "mset (rev (relay_items EmitProps.ex_args)) = mset (relay_items EmitProps.ex_args)" by simp
  show "choices_ok EmitProps.ex_args" using ex_admissible by (simp add: emit_admissible_def)
  show "list_all plain_arg (relay_values EmitProps.ex_args)"
    by (simp add: relay_values_def EmitProps.ex_args_def plain_arg_def ex_sha_def) (simp add: lit_def)
qed

section \<open>The crown verifier's command\<close>

text \<open>What a successful run leaves: nothing, or the report in the file that was named.\<close>

definition report_written :: "fs \<Rightarrow> path \<Rightarrow> str option \<Rightarrow> str \<Rightarrow> fs \<Rightarrow> bool" where
  "report_written fs cwd out rendered fs' \<longleftrightarrow>
     (if out = None \<or> out = Some [] then fs' = fs
      else \<exists>q bs. resolve fs (join_path cwd (the out)) = Inr q \<and> utf8_encode rendered = Inr bs
        \<and> (\<forall>p. node_at fs' p = (if p = q then Some (File bs) else node_at fs p)))"

lemma crown_main_outcome:
  "(\<exists>crown_path root result fs'. resolve fs (join_path cwd (crown_arg args)) = Inr crown_path
      \<and> resolve fs (join_path cwd (evidence_root_arg args)) = Inr root
      \<and> verify git fs crown_path root (expected_source_arg args) (expected_tree_arg args) = Inr result
      \<and> report_written fs cwd (output_arg args) (dumps indented result @ [10]) fs'
      \<and> crown_main git fs cwd args
        = \<lparr>exit_code = 0, stdout = dumps indented result @ [10], refused = None, fs_after = fs'\<rparr>)
   \<or> (\<exists>e. crown_main git fs cwd args = \<lparr>exit_code = 1, stdout = [], refused = Some e, fs_after = fs\<rparr>)"
proof -
  consider (refused) e where "crown_main git fs cwd args = crown_refused fs e"
    | (plain) crown_path root result where "resolve fs (join_path cwd (crown_arg args)) = Inr crown_path"
        "resolve fs (join_path cwd (evidence_root_arg args)) = Inr root"
        "verify git fs crown_path root (expected_source_arg args) (expected_tree_arg args) = Inr result"
        "output_arg args = None \<or> output_arg args = Some []"
        "crown_main git fs cwd args = crown_alive fs (dumps indented result @ [10])"
    | (written) crown_path root result out bs fs' where "resolve fs (join_path cwd (crown_arg args)) = Inr crown_path"
        "resolve fs (join_path cwd (evidence_root_arg args)) = Inr root"
        "verify git fs crown_path root (expected_source_arg args) (expected_tree_arg args) = Inr result"
        "output_arg args = Some out" "out \<noteq> []" "write_text (dumps indented result @ [10]) = Inr bs"
        "write_file fs (join_path cwd out) bs = Inr fs'"
        "crown_main git fs cwd args = crown_alive fs' (dumps indented result @ [10])"
    by (fastforce simp: crown_main_def Let_def res_dest split: sum.splits option.splits if_splits)
  then show ?thesis
  proof cases
    case refused
    then show ?thesis by (simp add: crown_refused_def)
  next
    case plain
    then show ?thesis by (auto simp: crown_alive_def report_written_def)
  next
    case written
    obtain q where q: "resolve fs (join_path cwd out) = Inr q"
      using written(7) by (auto simp: write_file_def res_dest dest: locate_resolve)
    have "report_written fs cwd (output_arg args) (dumps indented result @ [10]) fs'"
      using written(4-6) q write_file_node_at [OF written(7) q] by (simp add: report_written_def write_text_def)
    with written(1-3,8) show ?thesis by (auto simp: crown_alive_def)
  qed
qed

text \<open>What a namespace names, field by field; an option that was not given and has no default is absent.\<close>

definition names_crown :: "namespace \<Rightarrow> crown_args \<Rightarrow> bool" where
  "names_crown ns args \<longleftrightarrow>
     map_of ns (lit ''crown'') = Some (TextArg (crown_arg args))
     \<and> map_of ns (lit ''evidence_root'') = Some (TextArg (evidence_root_arg args))
     \<and> map_of ns (lit ''expected_source'') = Some (preset_of (expected_source_arg args))
     \<and> map_of ns (lit ''expected_tree'') = Some (preset_of (expected_tree_arg args))
     \<and> map_of ns (lit ''output'') = Some (preset_of (output_arg args))"

lemma optional_arg_named:
  assumes "distinct (map dest P)" "parse_args P argv = Inr ns"
    and "optional n (preset_of v) \<in> set P" "dest_of (lit n) = lit k"
  shows "map_of ns (lit k) = Some (preset_of (optional_arg ns k))"
  using parse_args_typed(2) [OF assms(1-3)] assms(4)
  by (auto simp: dests optional_def conforms_def optional_arg_def preset_of_def split: option.splits)

lemma crown_args_named:
  assumes "parse_args (crown_parser environ) argv = Inr ns" "crown_args_of ns = Inr args"
  shows "names_crown ns args"
proof -
  note opt = optional_arg_named [OF program_dests(1) assms(1)]
  have "map_of ns (lit ''expected_source'') = Some (preset_of (optional_arg ns ''expected_source''))"
    "map_of ns (lit ''expected_tree'') = Some (preset_of (optional_arg ns ''expected_tree''))"
    using opt dest_texts(2,3) by (auto simp: crown_parser_def)
  moreover have "optional ''--output'' (preset_of None) \<in> set (crown_parser environ)"
    by (simp add: crown_parser_def preset_of_def)
  from opt [OF this dest_texts(4)]
  have "map_of ns (lit ''output'') = Some (preset_of (optional_arg ns ''output''))" .
  ultimately show ?thesis
    using assms(2) unfolding names_crown_def
    by (auto simp: crown_args_of_def text_arg_def res_dest split: option.splits arg_value.splits)
qed

text \<open>C2: the crown verifier fails closed on every command line: apart from help and usage
  messages it either exits 0, and then the crown the arguments name was verified
  against the evidence root and the expected revision they (or the environment)
  name, the standard output is the rendered report and at most the named output
  file has changed, to hold this report; or it exits 1 with an empty standard
  output and an unchanged file system.\<close>

theorem crown_command_fail_closed:
  "crown_command git environ fs cwd argv = Helped \<or> crown_command git environ fs cwd argv = Misused
   \<or> (\<exists>ns args crown_path root result fs'. parse_args (crown_parser environ) argv = Inr ns
        \<and> names_crown ns args
        \<and> resolve fs (join_path cwd (crown_arg args)) = Inr crown_path
        \<and> resolve fs (join_path cwd (evidence_root_arg args)) = Inr root
        \<and> verify git fs crown_path root (expected_source_arg args) (expected_tree_arg args) = Inr result
        \<and> report_written fs cwd (output_arg args) (dumps indented result @ [10]) fs'
        \<and> crown_command git environ fs cwd argv
          = Ran \<lparr>exit_code = 0, stdout = dumps indented result @ [10], refused = None, fs_after = fs'\<rparr>)
   \<or> (\<exists>e. crown_command git environ fs cwd argv
          = Ran \<lparr>exit_code = 1, stdout = [], refused = Some e, fs_after = fs\<rparr>)"
proof (cases "parse_args (crown_parser environ) argv")
  case (Inl e)
  then show ?thesis by (cases e) (simp_all add: crown_command_def command_def)
next
  case (Inr ns)
  show ?thesis
  proof (cases "crown_args_of ns")
    case (Inl e)
    with Inr show ?thesis by (simp add: crown_command_def command_def crown_refused_def)
  next
    case args: (Inr args)
    with Inr have "crown_command git environ fs cwd argv = Ran (crown_main git fs cwd args)"
      by (simp add: crown_command_def command_def)
    with Inr crown_args_named [OF Inr args] crown_main_outcome [of fs cwd args git] show ?thesis by metis
  qed
qed

section \<open>Exit statuses\<close>

lemma package_main_code: "package_main printable fs cwd args = Inr (code, out, fs') \<Longrightarrow> code \<le> 1"
  by (auto simp: package_main_def Let_def res_dest split: option.splits if_splits)

lemma fly_main_code: "fly_main fs cwd machines source out = Inr (code, text, fs') \<Longrightarrow> code \<le> 1"
  by (auto simp: fly_main_def Let_def res_dest split: if_splits)

lemma coded_status_bound:
  "(\<And>code x. r = Inr (code, x) \<Longrightarrow> code \<le> 1) \<Longrightarrow> coded_status r \<le> 1"
  by (auto simp: coded_status_def split: sum.split)

lemma command_status:
  assumes "\<And>ns. status (run ns) \<le> 1"
  shows "exit_status status (command P run argv) \<in> {0, 1, 2}"
proof (cases "parse_args P argv")
  case (Inl e)
  then show ?thesis by (cases e) (simp_all add: exit_status_def command_def)
next
  case (Inr ns)
  with assms [of ns] show ?thesis by (simp add: exit_status_def command_def) linarith
qed

text \<open>Every program exits with 0, 1 or 2.\<close>

theorem exit_statuses:
  "exit_status exit_code (crown_command git environ fs cwd argv) \<in> {0, 1, 2}"
  "exit_status raised_status (plan_command fs cwd argv) \<in> {0, 1, 2}"
  "exit_status coded_status (package_command printable fs cwd argv) \<in> {0, 1, 2}"
  "exit_status coded_status (fly_command fs cwd argv) \<in> {0, 1, 2}"
  "exit_status (raised_status \<circ> fst) (emit_command w argv) \<in> {0, 1, 2}"
proof -
  have "exit_code (crown_main git fs cwd args) \<le> 1" for args
    using crown_main_outcome [of fs cwd args git] by auto
  then show "exit_status exit_code (crown_command git environ fs cwd argv) \<in> {0, 1, 2}"
    unfolding crown_command_def by (intro command_status) (simp add: crown_refused_def split: sum.split)
  show "exit_status raised_status (plan_command fs cwd argv) \<in> {0, 1, 2}"
    "exit_status (raised_status \<circ> fst) (emit_command w argv) \<in> {0, 1, 2}"
    unfolding plan_command_def emit_command_def
    by (intro command_status; simp add: raised_status_def split: sum.split)+
  show "exit_status coded_status (package_command printable fs cwd argv) \<in> {0, 1, 2}"
    unfolding package_command_def
    by (intro command_status coded_status_bound) (auto simp: res_dest dest: package_main_code)
  show "exit_status coded_status (fly_command fs cwd argv) \<in> {0, 1, 2}"
    unfolding fly_command_def
    by (intro command_status coded_status_bound) (auto simp: res_dest dest: fly_main_code)
qed

end
