(* ===== verification/CardParse.thy ===== *)
theory CardParse
  imports AgentCards
begin

text \<open>
  What the line scan of the agent cards finds: which lines declare a public
  function, as a grammar of the line, that \<open>DEF_RE\<close> with its backtracking finds exactly
  these and their names, and which functions the parser collects.
\<close>

section \<open>Declarations\<close>

text \<open>The groups a pattern can capture; it leaves the others as they are.\<close>

primrec captures :: "rx \<Rightarrow> nat set" where
  "captures Eps = {}"
| "captures (One cls) = {}"
| "captures (Many k cls) = {}"
| "captures (Opt r) = captures r"
| "captures (Seq r q) = captures r \<union> captures q"
| "captures (Alt r q) = captures r \<union> captures q"
| "captures (Group n r) = insert n (captures r)"
| "captures TextStart = {}"
| "captures LineStart = {}"
| "captures TextEnd = {}"
| "captures (Boundary w) = {}"

lemma captures_simps [simp]:
  "captures (literal s) = {}" "captures (sequence rs) = \<Union> (captures ` set rs)"
  by (induction s; simp add: literal_def) (induction rs; simp add: sequence_def)

lemma matches_sequence_append:
  "matches (sequence (rs @ qs)) s u \<longleftrightarrow> (\<exists>t. matches (sequence rs) s t \<and> matches (sequence qs) t u)"
  by (induction rs arbitrary: s) auto

lemma matches_keeps_group: "matches r s t \<Longrightarrow> n \<notin> captures r \<Longrightarrow> group_text n t = group_text n s"
  by (induction rule: matches.induct) (simp_all add: group_text_def capture_def update_conv')

definition name_start :: "nat \<Rightarrow> bool" where
  "name_start c \<longleftrightarrow> 97 \<le> c \<and> c \<le> 122 \<or> c = 95"

definition name_char :: "nat \<Rightarrow> bool" where
  "name_char c \<longleftrightarrow> 97 \<le> c \<and> c \<le> 122 \<or> 65 \<le> c \<and> c \<le> 90 \<or> 48 \<le> c \<and> c \<le> 57 \<or> c \<in> {95, 63, 33}"

text \<open>
  What may follow the name: parameters in parentheses, white space, then nothing,
  \<open>do\<close>, a colon, or a comma and a body after an equals sign, white space.
\<close>

definition params_text :: "str \<Rightarrow> bool" where
  "params_text p \<longleftrightarrow> p = [] \<or> (\<exists>w. p = [40] @ w @ [41] \<and> 41 \<notin> set w)"

definition body_text :: "str \<Rightarrow> bool" where
  "body_text b \<longleftrightarrow> b \<in> {[], lit ''do'', lit '':''} \<or> (\<exists>x y. b = [44] @ x @ [61] @ y \<and> 61 \<notin> set x \<and> 10 \<notin> set y)"

definition line_rest :: "str \<Rightarrow> bool" where
  "line_rest r \<longleftrightarrow>
     (\<exists>p u b v e. r = p @ u @ b @ v @ e \<and> params_text p \<and> list_all is_py_space u \<and> body_text b
        \<and> list_all is_py_space v \<and> at_end e)"

text \<open>
  A line that declares a public function: \<open>def\<close>, white space, the whole name (the
  line ends after it or goes on with a character no name has), and a rest of this form.
\<close>

definition declares :: "str \<Rightarrow> str \<Rightarrow> bool" where
  "declares line name \<longleftrightarrow>
     (\<exists>a b r. line = a @ lit ''def'' @ b @ name @ r \<and> list_all is_py_space a \<and> list_all is_py_space b \<and> b \<noteq> []
        \<and> name \<noteq> [] \<and> name_start (hd name) \<and> list_all name_char name \<and> (r = [] \<or> \<not> name_char (hd r))
        \<and> line_rest r)"

lemma space_run: "matches (Many k space) s t \<Longrightarrow> \<exists>w. moves s w t \<and> k \<le> length w \<and> list_all is_py_space w"
  using matches_Many_moves [of k space s t] by (auto simp: space_def)

lemma moves_whole: "moves (start s) w t \<Longrightarrow> s = w @ after t"
  by (simp add: moves_def start_def)

lemma literal_moves: "matches (literal w) s t \<Longrightarrow> moves s (lit w) t"
  by (auto simp: matches_literal moves_def)

definition name_class :: cclass where
  "name_class = one_of (alnum_items @ [char_item CHR ''?'', char_item CHR ''!''])"

lemma in_name_class [simp]: "in_class name_class c \<longleftrightarrow> name_char c"
  by (auto simp: name_class_def alnum_items_def span_item_def name_char_def)

definition def_name :: rx where
  "def_name = Seq (One (one_of [span_item CHR ''a'' CHR ''z'', char_item CHR ''_''])) (Many 0 name_class)"

definition def_front :: "rx list" where
  "def_front = [TextStart, Many 0 space, literal ''def'', Opt (Group 1 (literal ''p'')), Many 1 space]"

definition def_tail :: "rx list" where
  "def_tail =
     [Opt (Group 3 (sequence [literal ''('', Many 0 (none_of [char_item CHR '')'']), literal '')''])),
      Many 0 space,
      Opt (Alt (sequence [literal '','', Many 0 (none_of [char_item CHR ''='']), literal ''='', Many 0 (none_of [Range 10 10])])
          (Alt (literal ''do'') (literal '':''))),
      Many 0 space, TextEnd]"

lemma DEF_RE_parts: "DEF_RE = sequence (def_front @ Group 2 def_name # def_tail)"
  by (simp add: DEF_RE_def def_front_def def_name_def name_class_def def_tail_def)

text \<open>The name in a match is the longest one at its place: the engine tries longer names first, and
  where a shorter one ends before \<open>do\<close> and white space, the longer one with \<open>do\<close> matches too.\<close>

lemma name_char_no_space: "name_char c \<Longrightarrow> \<not> is_py_space c"
  by (auto simp: name_char_def is_py_space_def)

lemma tail_after_name_char:
  assumes "matches (sequence def_tail) s d" "after s = c # r" "name_char c"
  shows "\<exists>w e. after s = lit ''do'' @ w @ e \<and> list_all is_py_space w \<and> at_end e"
proof -
  have c: "c \<noteq> 40" "c \<noteq> 44" "c \<noteq> 58" "c \<noteq> 10"
    using assms(3) by (auto simp: name_char_def)
  have no_space: "\<not> is_py_space c" using assms(3) by (rule name_char_no_space)
  have stay: "t = u" if "matches (Many 0 space) u t" "after u = c # r" for u t
  proof -
    from that(1) obtain n where n: "t = advance n u" "list_all (in_class space) (take n (after u))"
      by (auto simp: matches_Many)
    with that(2) no_space have "n = 0" by (cases n) (auto simp: space_def)
    with n(1) show ?thesis by (simp add: advance_def)
  qed
  from assms(1) obtain t1 t2 t3 t4 where m:
      "matches (Opt (Group 3 (sequence [literal ''('', Many 0 (none_of [char_item CHR '')'']), literal '')'']))) s t1"
      "matches (Many 0 space) t1 t2"
      "matches (Opt (Alt (sequence [literal '','', Many 0 (none_of [char_item CHR ''='']), literal ''='', Many 0 (none_of [Range 10 10])])
          (Alt (literal ''do'') (literal '':'')))) t2 t3"
      "matches (Many 0 space) t3 t4" "at_end (after t4)"
    unfolding def_tail_def matches_sequence_Cons matches_sequence_Nil matches_simps(8) by blast
  have "t1 = s"
    using m(1) assms(2) c(1) by (auto simp: matches_literal lit_def)
  with m(2) stay assms(2) have "t2 = s" by blast
  have "t3 \<noteq> s"
  proof
    assume "t3 = s"
    with m(4) stay assms(2) have "t4 = s" by blast
    with m(5) assms(2) c(4) show False by (simp add: at_end_def)
  qed
  with m(3) \<open>t2 = s\<close> assms(2) c(2,3) have "matches (literal ''do'') s t3"
    by (auto simp: matches_literal lit_def)
  then have "moves s (lit ''do'') t3" by (rule literal_moves)
  moreover obtain w where "moves t3 w t4" "list_all is_py_space w" using space_run [OF m(4)] by blast
  ultimately show ?thesis using m(5) by (auto simp: moves_def)
qed

lemma tail_spaces:
  assumes "after s = w @ e" "list_all is_py_space w" "at_end e"
  shows "matches (sequence def_tail) s (advance (length w) s)"
proof -
  have "matches (Many 0 space) s (advance 0 s)" by (rule matches.Many) simp_all
  moreover have "advance 0 s = s" by (simp add: advance_def)
  moreover have "matches (Many 0 space) s (advance (length w) s)"
    using assms by (intro matches.Many) (simp_all add: space_def list_all_iff)
  ultimately show ?thesis
    using assms(1,3) unfolding def_tail_def matches_sequence_Cons matches_sequence_Nil by (auto intro!: exI [of _ s])
qed

lemma longest_name:
  assumes "first (runs (sequence (Group 2 def_name # def_tail)) s) = Some d"
  shows "\<exists>name u. moves s name u \<and> name \<noteq> [] \<and> name_start (hd name) \<and> list_all name_char name
    \<and> (after u = [] \<or> \<not> name_char (hd (after u))) \<and> matches (sequence def_tail) (capture 2 s u) d
    \<and> matches def_name s u"
proof -
  let ?head = "One (one_of [span_item CHR ''a'' CHR ''z'', char_item CHR ''_''])"
  let ?u = "\<lambda>n. advance n (advance 1 s)"
  define k where "k = class_run name_class (after (advance 1 s))"
  have head: "after s \<noteq> [] \<and> name_start (hd (after s))"
  proof (rule ccontr)
    assume "\<not> ?thesis"
    then have "runs ?head s = []" by (auto simp: name_start_def span_item_def)
    with assms show False by (simp add: sequence_def def_name_def first_def)
  qed
  then have "runs ?head s = [advance 1 s]" by (auto simp: name_start_def span_item_def)
  then have "runs (sequence (Group 2 def_name # def_tail)) s
      = concat (map (\<lambda>n. runs (sequence def_tail) (capture 2 s (?u n))) (rev [0..<Suc k]))"
    by (simp add: sequence_def def_name_def k_def comp_def)
  from first_longest [OF assms [unfolded this]] obtain n where n: "n \<le> k"
      "first (runs (sequence def_tail) (capture 2 s (?u n))) = Some d"
      "\<And>m. n < m \<Longrightarrow> m \<le> k \<Longrightarrow> runs (sequence def_tail) (capture 2 s (?u m)) = []" by blast
  from n(2) have rest: "matches (sequence def_tail) (capture 2 s (?u n)) d"
    using iffD1 [OF runs_iff first_Some] by blast
  obtain c cs where s: "after s = c # cs" "name_start c" using head by (cases "after s") auto
  have run: "n' \<le> k \<longleftrightarrow> n' \<le> length cs \<and> list_all name_char (take n' cs)" for n'
    using s(1) by (simp add: k_def class_run_iff list_all_iff)
  have "n = k"
  proof (rule ccontr)
    assume "n \<noteq> k"
    with n(1) have "Suc n \<le> k" by simp
    then have "n < length cs" "list_all name_char (take (Suc n) cs)" using run by auto
    then have next_char: "drop n cs = cs ! n # drop (Suc n) cs" "name_char (cs ! n)"
      by (simp_all add: Cons_nth_drop_Suc take_Suc_conv_app_nth)
    with tail_after_name_char [OF rest] s(1) obtain w e where
        we: "drop n cs = lit ''do'' @ w @ e" "list_all is_py_space w" "at_end e" by auto
    have "take (n + 2) cs = take n cs @ lit ''do''" by (simp only: take_add) (simp add: we(1) lit_def)
    moreover have "n + 2 \<le> length cs"
      using arg_cong [OF we(1), of length] by (simp add: lit_def)
    moreover have "list_all name_char (take n cs)" using run n(1) by blast
    moreover have "list_all name_char (lit ''do'')" by (simp add: lit_def name_char_def)
    ultimately have "n + 2 \<le> k" using run by simp
    have "drop (n + 2) cs = drop 2 (drop n cs)" by (simp add: add.commute)
    then have "after (capture 2 s (?u (n + 2))) = w @ e" using s(1) we(1) by (simp add: lit_def)
    from tail_spaces [OF this we(2,3)] n(3) [OF _ \<open>n + 2 \<le> k\<close>] show False
      using runs_iff [of _ "sequence def_tail"] by force
  qed
  have "moves s (c # take k cs) (?u k)" using s(1) run [of k] by (simp add: moves_def)
  moreover have "list_all name_char (c # take k cs)"
    using s(2) run [of k] by (auto simp: name_start_def name_char_def)
  moreover have "drop k cs = [] \<or> \<not> name_char (hd (drop k cs))"
  proof (rule ccontr)
    assume more: "\<not> ?thesis"
    then have "k < length cs" by auto
    moreover have "list_all name_char (take k cs)" using run [of k] by blast
    ultimately have "Suc k \<le> k" using more unfolding run by (simp add: take_Suc_conv_app_nth hd_drop_conv_nth)
    then show False by simp
  qed
  moreover have "matches def_name s (?u k)"
    using \<open>runs ?head s = [advance 1 s]\<close> runs_iff [of "?u k" def_name s] by (simp add: def_name_def k_def)
  ultimately show ?thesis using rest s unfolding \<open>n = k\<close>
    by (intro exI [of _ "c # take k cs"] exI [of _ "?u k"]) simp
qed

section \<open>The languages of the parts\<close>

text \<open>What a pattern can consume, whatever the position.\<close>

definition consumes :: "rx \<Rightarrow> (str \<Rightarrow> bool) \<Rightarrow> bool" where
  "consumes r L \<longleftrightarrow> (\<forall>s e. (\<exists>t. matches r s t \<and> after t = e) \<longleftrightarrow> (\<exists>w. L w \<and> after s = w @ e))"

lemma consumesD: "consumes r L \<Longrightarrow> (\<exists>t. matches r s t \<and> after t = e) \<longleftrightarrow> (\<exists>w. L w \<and> after s = w @ e)"
  by (simp add: consumes_def)

lemma consumes_Many: "consumes (Many k cls) (\<lambda>w. k \<le> length w \<and> list_all (in_class cls) w)"
  unfolding consumes_def
proof (intro allI iffI)
  fix s :: cursor and e
  assume "\<exists>t. matches (Many k cls) s t \<and> after t = e"
  then show "\<exists>w. (k \<le> length w \<and> list_all (in_class cls) w) \<and> after s = w @ e"
    using matches_Many_moves [of k cls s] by (fastforce simp: moves_def)
next
  fix s :: cursor and e
  assume "\<exists>w. (k \<le> length w \<and> list_all (in_class cls) w) \<and> after s = w @ e"
  then obtain w where "k \<le> length w" "list_all (in_class cls) w" "after s = w @ e" by blast
  then show "\<exists>t. matches (Many k cls) s t \<and> after t = e"
    by (intro exI [of _ "advance (length w) s"]) (simp add: matches.Many)
qed

lemma consumes_literal: "consumes (literal w) (\<lambda>x. x = lit w)"
  by (auto simp: consumes_def matches_literal)

lemma consumes_Opt: "consumes r L \<Longrightarrow> consumes (Opt r) (\<lambda>w. L w \<or> w = [])"
  unfolding consumes_def matches_simps by (metis append_Nil)

lemma consumes_Alt: "consumes r L \<Longrightarrow> consumes q M \<Longrightarrow> consumes (Alt r q) (\<lambda>w. L w \<or> M w)"
  unfolding consumes_def matches_simps by metis

lemma consumes_Group: "consumes r L \<Longrightarrow> consumes (Group n r) L"
  unfolding consumes_def matches_simps by (metis capture_simps(1))

lemma consumes_Nil: "consumes (sequence []) (\<lambda>w. w = [])"
  by (auto simp: consumes_def)

lemma consumes_Cons:
  assumes "consumes r L" "consumes (sequence rs) M"
  shows "consumes (sequence (r # rs)) (\<lambda>w. \<exists>u v. w = u @ v \<and> L u \<and> M v)"
  unfolding consumes_def
proof (intro allI)
  fix s :: cursor and e
  have "(\<exists>t. matches (sequence (r # rs)) s t \<and> after t = e)
      \<longleftrightarrow> (\<exists>x. matches r s x \<and> (\<exists>t. matches (sequence rs) x t \<and> after t = e))"
    by auto
  also have "\<dots> \<longleftrightarrow> (\<exists>m. (\<exists>x. matches r s x \<and> after x = m) \<and> (\<exists>v. M v \<and> m = v @ e))"
    unfolding consumesD [OF assms(2)] by auto
  also have "\<dots> \<longleftrightarrow> (\<exists>w. (\<exists>u v. w = u @ v \<and> L u \<and> M v) \<and> after s = w @ e)"
    unfolding consumesD [OF assms(1)] by (metis append.assoc)
  finally show "(\<exists>t. matches (sequence (r # rs)) s t \<and> after t = e)
      \<longleftrightarrow> (\<exists>w. (\<exists>u v. w = u @ v \<and> L u \<and> M v) \<and> after s = w @ e)" .
qed

lemmas consumes_intros = consumes_Many consumes_literal consumes_Opt consumes_Alt consumes_Group consumes_Nil consumes_Cons

lemma consumes_cong: "consumes r L \<Longrightarrow> (\<And>w. L w \<longleftrightarrow> M w) \<Longrightarrow> consumes r M"
  by (simp add: consumes_def)

lemma consumes_params: "consumes (Opt (Group 3 (sequence [literal ''('', Many 0 (none_of [char_item CHR '')'']), literal '')'']))) params_text"
  by (rule consumes_cong, (rule consumes_intros)+) (auto simp: params_text_def lit_def list_all_iff)

lemma consumes_spaces: "consumes (Many 0 space) (list_all is_py_space)"
  by (rule consumes_cong, rule consumes_Many) (simp add: space_def)

lemma consumes_body:
  "consumes (Opt (Alt (sequence [literal '','', Many 0 (none_of [char_item CHR ''='']), literal ''='', Many 0 (none_of [Range 10 10])])
     (Alt (literal ''do'') (literal '':'')))) body_text"
  by (rule consumes_cong, (rule consumes_intros)+) (fastforce simp: body_text_def lit_def list_all_iff)

lemma tail_iff: "(\<exists>d. matches (sequence def_tail) s d) \<longleftrightarrow> line_rest (after s)"
proof -
  let ?front = "butlast def_tail"
  have split: "def_tail = ?front @ [TextEnd]" by (simp add: def_tail_def)
  have "consumes (sequence ?front) (\<lambda>w. \<exists>p u b v. w = p @ u @ b @ v \<and> params_text p \<and> list_all is_py_space u
      \<and> body_text b \<and> list_all is_py_space v)"
    by (simp only: def_tail_def butlast.simps list.distinct if_False if_True simp_thms, rule consumes_cong, (rule consumes_Cons consumes_Nil consumes_params consumes_spaces consumes_body)+)
      (auto, intro exI conjI, (rule refl | assumption)+)
  note front = consumesD [OF this]
  have "(\<exists>d. matches (sequence def_tail) s d) \<longleftrightarrow> (\<exists>t. matches (sequence ?front) s t \<and> at_end (after t))"
    by (subst split) (auto simp: matches_sequence_append)
  also have "\<dots> \<longleftrightarrow> (\<exists>e. (\<exists>t. matches (sequence ?front) s t \<and> after t = e) \<and> at_end e)" by blast
  also have "\<dots> \<longleftrightarrow> line_rest (after s)"
    unfolding front line_rest_def by (metis append.assoc)
  finally show ?thesis .
qed

section \<open>Declarations and matches\<close>

text \<open>A declaration has one name, found by walking along the line.\<close>

lemma takeWhile_pieces:
  "list_all P a \<Longrightarrow> r = [] \<or> \<not> P (hd r) \<Longrightarrow> takeWhile P (a @ r) = a"
  "list_all P a \<Longrightarrow> r = [] \<or> \<not> P (hd r) \<Longrightarrow> dropWhile P (a @ r) = r"
  by (induction a) (cases r; simp)+

lemma keyword_after:
  assumes "list_all is_py_space a"
  shows "drop 3 (dropWhile is_py_space (a @ lit ''def'' @ r)) = r"
proof -
  have "\<not> is_py_space 100" by (simp add: is_py_space_def)
  then show ?thesis using assms by (subst takeWhile_pieces(2)) (simp_all add: lit_def)
qed

lemma declares_parts:
  assumes "declares line name"
  shows "name = takeWhile name_char (dropWhile is_py_space (drop 3 (dropWhile is_py_space line)))"
    "is_py_space (hd (drop 3 (dropWhile is_py_space line)))"
proof -
  from assms obtain a b r where d: "line = a @ lit ''def'' @ b @ name @ r" "list_all is_py_space a" "list_all is_py_space b"
      "b \<noteq> []" "name \<noteq> []" "name_start (hd name)" "list_all name_char name" "r = [] \<or> \<not> name_char (hd r)"
    unfolding declares_def by blast
  have rest: "drop 3 (dropWhile is_py_space line) = b @ name @ r" unfolding d(1) using d(2) by (rule keyword_after)
  have "name_char (hd name)" using d(5,7) by (cases name) simp_all
  then have "\<not> is_py_space (hd (name @ r))" using name_char_no_space d(5) by simp
  then have "dropWhile is_py_space (b @ name @ r) = name @ r" using d(3) by (intro takeWhile_pieces(2)) simp_all
  then show "name = takeWhile name_char (dropWhile is_py_space (drop 3 (dropWhile is_py_space line)))"
    unfolding rest using takeWhile_pieces(1) [OF d(7,8)] by simp
  show "is_py_space (hd (drop 3 (dropWhile is_py_space line)))"
    unfolding rest using d(3,4) by (cases b) simp_all
qed

lemma declares_unique: "declares line f \<Longrightarrow> declares line g \<Longrightarrow> f = g"
  using declares_parts(1) by metis

text \<open>A line on which another word begins with \<open>def\<close> declares nothing.\<close>

lemma no_declaration:
  assumes "line = a @ lit ''def'' @ c # r" "list_all is_py_space a" "\<not> is_py_space c"
  shows "\<not> declares line f"
  using declares_parts(2) [of line f] keyword_after [OF assms(2), of "c # r"] assms(1,3) by auto

lemma module_line_declares:
  assumes "re_match (MODULE_RE word) line = Some m"
  shows "\<not> declares line f"
proof -
  from assms have "matches (MODULE_RE word) (start line) m"
    unfolding re_match_def by (drule_tac first_Some) (simp only: runs_iff)
  then obtain t u where t: "matches (Many 0 space) (start line) t" "matches (literal ''defmodule'') t u"
    unfolding MODULE_RE_def matches_sequence_Cons matches_simps(6) by blast
  obtain a where a: "moves (start line) a t" "list_all is_py_space a" using space_run [OF t(1)] by blast
  have "moves (start line) (a @ lit ''defmodule'') u" using a(1) literal_moves [OF t(2)] by (rule moves_trans)
  then have "line = a @ lit ''def'' @ 109 # lit ''odule'' @ after u"
    by (drule_tac moves_whole) (simp add: lit_def)
  then show ?thesis using a(2) by (rule no_declaration) (simp add: is_py_space_def)
qed

text \<open>What a match of the pattern says about the line.\<close>

lemma DEF_RE_sound:
  assumes "re_match DEF_RE line = Some d"
  shows "(group_text 1 d = None \<and> (\<exists>name. group_text 2 d = Some name \<and> declares line name))
    \<or> (group_text 1 d \<noteq> None \<and> (\<forall>f. \<not> declares line f))"
proof -
  from assms [unfolded re_match_def DEF_RE_parts runs_sequence_append, THEN first_concat]
  obtain t4 where t4: "t4 \<in> set (runs (sequence def_front) (start line))"
    and found: "first (runs (sequence (Group 2 def_name # def_tail)) t4) = Some d"
    by (elim exE conjE) (rule that, simp_all)
  from t4 have front: "matches (sequence def_front) (start line) t4" by (simp only: runs_iff)
  from longest_name [OF found] obtain name u where name: "moves t4 name u" "name \<noteq> []" "name_start (hd name)"
      "list_all name_char name" "after u = [] \<or> \<not> name_char (hd (after u))"
    and rest: "matches (sequence def_tail) (capture 2 t4 u) d" and u: "matches def_name t4 u" by blast
  from front obtain t1 t2 t3 where m: "matches (Many 0 space) (start line) t1" "matches (literal ''def'') t1 t2"
      "matches (Opt (Group 1 (literal ''p''))) t2 t3" "matches (Many 1 space) t3 t4"
    unfolding def_front_def matches_sequence_Cons matches_sequence_Nil matches_simps(6) by blast
  have group: "group_text 1 d = group_text 1 t3"
  proof -
    have "group_text 1 t4 = group_text 1 t3" by (rule matches_keeps_group [OF m(4)]) simp
    moreover have "group_text 1 u = group_text 1 t4" by (rule matches_keeps_group [OF u]) (simp add: def_name_def)
    moreover have "group_text 1 (capture 2 t4 u) = group_text 1 u" by (simp add: group_text_def capture_def update_conv')
    moreover have "group_text 1 d = group_text 1 (capture 2 t4 u)" by (rule matches_keeps_group [OF rest]) (simp add: def_tail_def)
    ultimately show ?thesis by simp
  qed
  obtain a where a: "moves (start line) a t1" "list_all is_py_space a" using space_run [OF m(1)] by blast
  have keyword: "moves (start line) (a @ lit ''def'') t2" using a(1) literal_moves [OF m(2)] by (rule moves_trans)
  show ?thesis
  proof (cases "t3 = t2")
    case True
    obtain b where b: "moves t3 b t4" "1 \<le> length b" "list_all is_py_space b" using space_run [OF m(4)] by blast
    have "moves (start line) (((a @ lit ''def'') @ b) @ name) u"
      using moves_trans [OF moves_trans [OF keyword b(1) [unfolded True]] name(1)] .
    then have "line = a @ lit ''def'' @ b @ name @ after u" by (drule_tac moves_whole) simp
    moreover have "b \<noteq> []" using b(2) by auto
    moreover have "line_rest (after u)" using rest tail_iff [of "capture 2 t4 u"] by auto
    ultimately have "declares line name" using a(2) b(3) name unfolding declares_def by blast
    moreover have "group_text 2 d = group_text 2 (capture 2 t4 u)" by (rule matches_keeps_group [OF rest]) (simp add: def_tail_def)
    then have "group_text 2 d = Some name"
      using consumed_moves [OF name(1)] by (simp add: group_text_def capture_def update_conv')
    moreover have "group_text 1 t2 = group_text 1 (start line)"
      using matches_keeps_group [OF m(1), of 1] matches_keeps_group [OF m(2), of 1] by simp
    then have "group_text 1 d = None" unfolding group True by (simp add: group_text_def start_def)
    ultimately show ?thesis by blast
  next
    case False
    with m(3) obtain v where v: "t3 = capture 1 t2 v" "matches (literal ''p'') t2 v" by auto
    have "moves (start line) ((a @ lit ''def'') @ lit ''p'') v" using keyword literal_moves [OF v(2)] by (rule moves_trans)
    then have "line = a @ lit ''def'' @ 112 # after v" by (drule_tac moves_whole) (simp add: lit_def)
    then have "\<not> declares line f" for f using a(2) by (rule no_declaration) (simp add: is_py_space_def)
    moreover have "group_text 1 d \<noteq> None" unfolding group v(1) by (simp add: group_text_def capture_def update_conv')
    ultimately show ?thesis by blast
  qed
qed

lemma consumes_def_name:
  "consumes (Group 2 def_name) (\<lambda>w. w \<noteq> [] \<and> name_start (hd w) \<and> list_all name_char (tl w))"
proof (rule consumes_Group, unfold consumes_def, intro allI)
  fix s :: cursor and e
  have head: "matches (One (one_of [span_item CHR ''a'' CHR ''z'', char_item CHR ''_''])) s u
      \<longleftrightarrow> (\<exists>c rest. after s = c # rest \<and> name_start c \<and> u = advance 1 s)" for u
    by (auto simp: matches_One_iff name_start_def span_item_def)
  have "(\<exists>t. matches def_name s t \<and> after t = e) \<longleftrightarrow>
      (\<exists>c rest. after s = c # rest \<and> name_start c \<and> (\<exists>t. matches (Many 0 name_class) (advance 1 s) t \<and> after t = e))"
    unfolding def_name_def matches_simps head by blast
  also have "\<dots> \<longleftrightarrow> (\<exists>c rest. after s = c # rest \<and> name_start c \<and> (\<exists>w. list_all name_char w \<and> rest = w @ e))"
    unfolding consumesD [OF consumes_Many] by (auto simp: list_all_iff)
  also have "\<dots> \<longleftrightarrow> (\<exists>w. (w \<noteq> [] \<and> name_start (hd w) \<and> list_all name_char (tl w)) \<and> after s = w @ e)"
    by (auto simp: neq_Nil_conv)
  finally show "(\<exists>t. matches def_name s t \<and> after t = e) \<longleftrightarrow>
      (\<exists>w. (w \<noteq> [] \<and> name_start (hd w) \<and> list_all name_char (tl w)) \<and> after s = w @ e)" .
qed

definition def_words :: "rx list" where
  "def_words = [Many 0 space, literal ''def'', Opt (Group 1 (literal ''p'')), Many 1 space, Group 2 def_name]"

definition front_text :: "str \<Rightarrow> bool" where
  "front_text w \<longleftrightarrow> (\<exists>a p b f. w = a @ lit ''def'' @ p @ b @ f \<and> list_all is_py_space a \<and> (p = lit ''p'' \<or> p = [])
     \<and> list_all is_py_space b \<and> b \<noteq> [] \<and> f \<noteq> [] \<and> name_start (hd f) \<and> list_all name_char (tl f))"

lemma consumes_front: "consumes (sequence def_words) front_text"
proof (rule consumes_cong)
  show "consumes (sequence def_words) (\<lambda>w. \<exists>u v. w = u @ v \<and> (0 \<le> length u \<and> list_all (in_class space) u)
        \<and> (\<exists>u' v'. v = u' @ v' \<and> u' = lit ''def''
        \<and> (\<exists>u v. v' = u @ v \<and> (u = lit ''p'' \<or> u = [])
        \<and> (\<exists>u' v'. v = u' @ v' \<and> (1 \<le> length u' \<and> list_all (in_class space) u')
        \<and> (\<exists>u v. v' = u @ v \<and> (u \<noteq> [] \<and> name_start (hd u) \<and> list_all name_char (tl u)) \<and> v = [])))))"
    (is "consumes _ ?nested")
    unfolding def_words_def
    by (rule consumes_Cons consumes_Many consumes_literal consumes_Opt consumes_def_name consumes_Group consumes_Nil)+
  show "?nested w \<longleftrightarrow> front_text w" for w
  proof
    assume "front_text w"
    then obtain a p b f where w: "w = a @ lit ''def'' @ p @ b @ f" "list_all is_py_space a" "p = lit ''p'' \<or> p = []"
        "list_all is_py_space b" "b \<noteq> []" "f \<noteq> []" "name_start (hd f)" "list_all name_char (tl f)"
      unfolding front_text_def by blast
    have inner: "\<exists>u' v'. b @ f = u' @ v' \<and> (1 \<le> length u' \<and> list_all (in_class space) u')
        \<and> (\<exists>u v. v' = u @ v \<and> (u \<noteq> [] \<and> name_start (hd u) \<and> list_all name_char (tl u)) \<and> v = [])"
      by (rule exI [of _ b], rule exI [of _ f]) (use w(4-8) in \<open>simp add: space_def Suc_le_eq\<close>)
    show "?nested w"
      unfolding w(1)
      by (rule exI [of _ a], rule exI [of _ "lit ''def'' @ p @ b @ f"], intro conjI, rule refl, simp, simp add: space_def w(2),
          rule exI [of _ "lit ''def''"], rule exI [of _ "p @ b @ f"], intro conjI, rule refl, rule refl,
          rule exI [of _ p], rule exI [of _ "b @ f"], intro conjI, rule refl, rule w(3), rule inner)
  qed (auto simp: front_text_def space_def Suc_le_eq)
qed

lemma declares_matches:
  assumes "declares line f"
  shows "\<exists>d. re_match DEF_RE line = Some d"
proof -
  from assms obtain a b r where d: "line = a @ lit ''def'' @ b @ f @ r" "list_all is_py_space a" "list_all is_py_space b"
      "b \<noteq> []" "f \<noteq> []" "name_start (hd f)" "list_all name_char f" "line_rest r"
    unfolding declares_def by blast
  have "list_all name_char (tl f)" using d(5,7) by (cases f) simp_all
  then have "front_text (a @ lit ''def'' @ [] @ b @ f)" unfolding front_text_def using d(2-6) by blast
  moreover have "after (start line) = (a @ lit ''def'' @ [] @ b @ f) @ r" by (simp add: start_def d(1))
  ultimately have "\<exists>w. front_text w \<and> after (start line) = w @ r" by blast
  then obtain t where t: "matches (sequence def_words) (start line) t" "after t = r"
    using consumesD [OF consumes_front] by blast
  obtain e where "matches (sequence def_tail) t e" using tail_iff [of t] t(2) d(8) by blast
  moreover have "matches (sequence (TextStart # def_words)) (start line) t" using t(1) by (simp add: start_def)
  moreover have "DEF_RE = sequence ((TextStart # def_words) @ def_tail)"
    by (simp only: DEF_RE_parts def_front_def def_words_def append.simps)
  ultimately have "matches DEF_RE (start line) e" using matches_sequence_append by metis
  then have "runs DEF_RE (start line) \<noteq> []" using runs_iff [of e DEF_RE "start line"] by auto
  then show ?thesis unfolding re_match_def using first_None [of "runs DEF_RE (start line)"] by (metis not_None_eq)
qed

lemma DEF_RE_iff:
  "declares line f \<longleftrightarrow>
     (\<exists>d. re_match DEF_RE line = Some d \<and> group_text 1 d = None \<and> group_text 2 d = Some f)"
  (is "_ \<longleftrightarrow> ?r")
proof
  assume f: "declares line f"
  then obtain d where d: "re_match DEF_RE line = Some d" using declares_matches by blast
  from DEF_RE_sound [OF d] f obtain name where "group_text 1 d = None" "group_text 2 d = Some name" "declares line name"
    by blast
  with d declares_unique [OF f] show ?r by blast
next
  assume ?r
  then obtain d where d: "re_match DEF_RE line = Some d" "group_text 1 d = None" "group_text 2 d = Some f" by blast
  from DEF_RE_sound [OF d(1)] d(2,3) show "declares line f" by auto
qed

section \<open>Parsing\<close>

definition module_line :: "cclass \<Rightarrow> str \<Rightarrow> bool" where
  "module_line word l \<longleftrightarrow> re_match (MODULE_RE word) l \<noteq> None"

definition all_functions :: "module_entry list \<Rightarrow> str set" where
  "all_functions ms = set (concat (map entry_functions ms))"

text \<open>The names a scan of these lines collects: declared after a module has begun, and not skipped.\<close>

definition collected :: "cclass \<Rightarrow> str list \<Rightarrow> str set" where
  "collected word ls =
     {f. f \<notin> set SKIP_NAMES \<and> (\<exists>pre l post. ls = pre @ l # post \<and> list_ex (module_line word) pre \<and> declares l f)}"

lemma collected_snoc:
  "collected word (ls @ [l]) = collected word ls
     \<union> {f. f \<notin> set SKIP_NAMES \<and> list_ex (module_line word) ls \<and> declares l f}"
proof -
  have split: "(\<exists>pre x post. ls @ [l] = pre @ x # post \<and> P pre x) \<longleftrightarrow> (\<exists>pre x post. ls = pre @ x # post \<and> P pre x) \<or> P ls l"
    for P :: "str list \<Rightarrow> str \<Rightarrow> bool"
  proof
    assume "\<exists>pre x post. ls @ [l] = pre @ x # post \<and> P pre x"
    then obtain pre x post where p: "ls @ [l] = pre @ x # post" "P pre x" by blast
    then show "(\<exists>pre x post. ls = pre @ x # post \<and> P pre x) \<or> P ls l"
      by (cases post rule: rev_cases) auto
  qed (metis append.assoc append_Cons)
  show ?thesis unfolding collected_def split by blast
qed

lemma add_function_all:
  assumes "ms \<noteq> []"
  shows "all_functions (add_function f ms) = insert f (all_functions ms)"
    "add_function f ms \<noteq> []"
    "list_all (\<lambda>m. distinct (entry_functions m)) ms \<Longrightarrow> list_all (\<lambda>m. distinct (entry_functions m)) (add_function f ms)"
proof -
  obtain front m where ms: "ms = front @ [m]" using assms by (metis rev_exhaust)
  show "all_functions (add_function f ms) = insert f (all_functions ms)" "add_function f ms \<noteq> []"
    "list_all (\<lambda>m. distinct (entry_functions m)) ms \<Longrightarrow> list_all (\<lambda>m. distinct (entry_functions m)) (add_function f ms)"
    by (auto simp: ms add_function_def Let_def all_functions_def)
qed

lemma parse_line_all:
  assumes "ms \<noteq> [] \<longleftrightarrow> begun"
  shows "parse_line word ms l \<noteq> [] \<longleftrightarrow> begun \<or> module_line word l"
    "all_functions (parse_line word ms l) = all_functions ms \<union> {f. f \<notin> set SKIP_NAMES \<and> begun \<and> declares l f}"
    "list_all (\<lambda>m. distinct (entry_functions m)) ms \<Longrightarrow> list_all (\<lambda>m. distinct (entry_functions m)) (parse_line word ms l)"
proof -
  let ?d = "list_all (\<lambda>m. distinct (entry_functions m))"
  have "(parse_line word ms l \<noteq> [] \<longleftrightarrow> begun \<or> module_line word l)
    \<and> all_functions (parse_line word ms l) = all_functions ms \<union> {f. f \<notin> set SKIP_NAMES \<and> begun \<and> declares l f}
    \<and> (?d ms \<longrightarrow> ?d (parse_line word ms l))"
  proof (cases "re_match (MODULE_RE word) l")
    case (Some m)
    then show ?thesis using module_line_declares [OF Some]
      by (simp add: parse_line_def module_line_def all_functions_def)
  next
    case no_module: None
    show ?thesis
    proof (cases "begun \<and> (\<exists>f. declares l f \<and> f \<notin> set SKIP_NAMES)")
      case True
      then obtain f where f: "declares l f" "f \<notin> set SKIP_NAMES" by blast
      then obtain d where "re_match DEF_RE l = Some d" "group_text 1 d = None" "group_text 2 d = Some f"
        unfolding DEF_RE_iff by blast
      with no_module True assms f(2) have "parse_line word ms l = add_function f ms" by (simp add: parse_line_def)
      moreover have "{g. g \<notin> set SKIP_NAMES \<and> begun \<and> declares l g} = {f}"
        using f True declares_unique [OF f(1)] by blast
      ultimately show ?thesis using add_function_all [of ms f] True assms no_module by (simp add: module_line_def)
    next
      case False
      then have none: "{f. f \<notin> set SKIP_NAMES \<and> begun \<and> declares l f} = {}" by blast
      have "parse_line word ms l = ms"
      proof (cases "re_match DEF_RE l")
        case (Some d)
        with DEF_RE_sound [OF Some] False assms no_module show ?thesis by (auto simp: parse_line_def)
      qed (simp add: parse_line_def no_module)
      with no_module assms show ?thesis unfolding none by (simp add: module_line_def)
    qed
  qed
  then show "parse_line word ms l \<noteq> [] \<longleftrightarrow> begun \<or> module_line word l"
    "all_functions (parse_line word ms l) = all_functions ms \<union> {f. f \<notin> set SKIP_NAMES \<and> begun \<and> declares l f}"
    "?d ms \<Longrightarrow> ?d (parse_line word ms l)"
    by blast+
qed

lemma parse_lines_all:
  "(fold (\<lambda>line ms. parse_line word ms line) ls [] \<noteq> [] \<longleftrightarrow> list_ex (module_line word) ls)
   \<and> all_functions (fold (\<lambda>line ms. parse_line word ms line) ls []) = collected word ls
   \<and> list_all (\<lambda>m. distinct (entry_functions m)) (fold (\<lambda>line ms. parse_line word ms line) ls [])"
proof (induction ls rule: rev_induct)
  case Nil
  show ?case by (simp add: all_functions_def collected_def)
next
  case (snoc l ls)
  then show ?case using parse_line_all [of "fold (\<lambda>line ms. parse_line word ms line) ls []" _ word l]
    by (simp add: collected_snoc)
qed

text \<open>C40: the parser lists exactly the declared functions: a name is listed in some module exactly
  when it is no skipped callback and, on a line after the first module line, it is the whole name
  of a \<open>def\<close> (not a \<open>defp\<close>) whose line goes on with nothing but parameters and
  nothing, \<open>do\<close>, a colon or a body after a comma and an equals sign; in each module
  the names are distinct.\<close>

theorem parsed_functions_declared:
  "((\<exists>m\<in>set (parse_text word t). f \<in> set (entry_functions m)) \<longleftrightarrow>
      f \<notin> set SKIP_NAMES
      \<and> (\<exists>pre l post. splitlines t = pre @ l # post \<and> list_ex (module_line word) pre \<and> declares l f))
   \<and> list_all (\<lambda>m. distinct (entry_functions m)) (parse_text word t)"
proof -
  have "(\<exists>m\<in>set (parse_text word t). f \<in> set (entry_functions m)) \<longleftrightarrow> f \<in> all_functions (parse_text word t)"
    by (auto simp: all_functions_def)
  with parse_lines_all [of word "splitlines t", folded parse_text_def] show ?thesis
    by (simp add: collected_def)
qed

end
