(* ===== verification/CardProps.thy ===== *)
theory CardProps
  imports CardParse
begin

text \<open>
  The properties of the agent cards: the skills of a card are the functions of
  its modules, each once and in order; and a source file belongs to one cluster. Two examples show
  where the generated README counts something else than it says.
\<close>

section \<open>Skills\<close>

lemma add_skill_ids:
  "map sk_id (add_skill cluster skills (m, f)) =
     (if skill_id cluster f \<in> set (map sk_id skills) then map sk_id skills
      else map sk_id skills @ [skill_id cluster f])"
  by (simp add: add_skill_def make_skill_def)

lemma add_skills:
  "distinct (map sk_id skills) \<Longrightarrow>
   distinct (map sk_id (foldl (add_skill cluster) skills pairs))
   \<and> set (map sk_id (foldl (add_skill cluster) skills pairs))
     = set (map sk_id skills) \<union> (skill_id cluster \<circ> snd) ` set pairs"
proof (induction pairs arbitrary: skills)
  case Nil
  then show ?case by simp
next
  case (Cons item pairs)
  obtain m f where item: "item = (m, f)" by (cases item)
  have ids: "map sk_id (add_skill cluster skills item) =
     (if skill_id cluster f \<in> set (map sk_id skills) then map sk_id skills
      else map sk_id skills @ [skill_id cluster f])"
    unfolding item by (rule add_skill_ids)
  then have "distinct (map sk_id (add_skill cluster skills item))" using Cons.prems by simp
  note IH = Cons.IH [OF this]
  have "set (map sk_id (add_skill cluster skills item)) = insert (skill_id cluster f) (set (map sk_id skills))"
    unfolding ids by auto
  with IH show ?case by (simp add: item)
qed

lemma snd_module_items: "map snd (module_items ms) = concat (map cm_functions ms)"
  by (induction ms) (simp_all add: module_items_def comp_def)

text \<open>C38: the skills of a card are the public functions of its modules: the list of their
  identifiers is the sorted list, without repetitions, of the identifiers of all
  functions, whatever the number of modules that declare one.\<close>

theorem skills_are_functions:
  "map sk_id (make_skills cluster ms) = sorted_set (map (skill_id cluster) (concat (map cm_functions ms)))"
proof -
  let ?skills = "foldl (add_skill cluster) [] (module_items ms)"
  have ids: "distinct (map sk_id ?skills)" "set (map sk_id ?skills) = (skill_id cluster \<circ> snd) ` set (module_items ms)"
    using add_skills [of "[]" cluster "module_items ms"] by simp_all
  have "set (map (skill_id cluster) (concat (map cm_functions ms))) = (skill_id cluster \<circ> snd) ` set (module_items ms)"
    unfolding snd_module_items [symmetric] by auto
  then have "set (map sk_id (make_skills cluster ms)) = set (sorted_set (map (skill_id cluster) (concat (map cm_functions ms))))"
    using ids(2) by (simp add: make_skills_def)
  moreover have "sorted (map sk_id (make_skills cluster ms))" by (simp add: make_skills_def)
  moreover have "distinct (map sk_id (make_skills cluster ms))" using ids(1) by (simp add: make_skills_def)
  ultimately show ?thesis by (intro sorted_distinct_set_unique) simp_all
qed

section \<open>Clusters\<close>

definition in_cluster :: "string \<times> string list \<Rightarrow> str \<Rightarrow> bool" where
  "in_cluster c rel \<longleftrightarrow> list_ex (\<lambda>p. starts_with (lit p) rel) (snd c)"

text \<open>No prefix of one cluster begins with a prefix of another.\<close>

lemma prefixes_apart:
  "list_all (\<lambda>c. list_all (\<lambda>d. fst c = fst d \<or>
     list_all (\<lambda>p. list_all (\<lambda>q. \<not> starts_with (lit p) (lit q)) (snd d)) (snd c)) CLUSTERS) CLUSTERS"
  by (simp add: CLUSTERS_def starts_with_def lit_def)

lemma starts_with_both: "starts_with a s \<Longrightarrow> starts_with b s \<Longrightarrow> starts_with a b \<or> starts_with b a"
  by (auto simp: starts_with_iff append_eq_append_conv2)

lemma in_cluster_unique:
  assumes "c \<in> set CLUSTERS" "d \<in> set CLUSTERS" "in_cluster c rel" "in_cluster d rel"
  shows "fst c = fst d"
proof -
  obtain p q where "p \<in> set (snd c)" "starts_with (lit p) rel" "q \<in> set (snd d)" "starts_with (lit q) rel"
    using assms(3,4) by (auto simp: in_cluster_def list_ex_iff)
  moreover from this have "starts_with (lit p) (lit q) \<or> starts_with (lit q) (lit p)" by (metis starts_with_both)
  ultimately show ?thesis using prefixes_apart assms(1,2) unfolding list_all_iff by metis
qed

text \<open>C39: the clusters partition the sources they cover: a file belongs to a cluster exactly when its path
  begins with one of the cluster's prefixes, so at most one cluster has it and the order in which
  the clusters are tried does not matter.\<close>

theorem cluster_partition:
  "cluster_for rel = Some c \<longleftrightarrow>
     (\<exists>name ps. (name, ps) \<in> set CLUSTERS \<and> c = lit name \<and> in_cluster (name, ps) rel)"
proof -
  have found: "cluster_for rel = map_option (lit \<circ> fst) (find (\<lambda>c. in_cluster c rel) sorted_clusters)"
  proof -
    have "(\<lambda>c. list_ex (\<lambda>p. rel = lit p \<or> starts_with (lit p) rel) (snd c)) = (\<lambda>c. in_cluster c rel)"
      by (auto simp: in_cluster_def list_ex_iff starts_with_iff fun_eq_iff)
    then show ?thesis by (simp add: cluster_for_def)
  qed
  have set: "set sorted_clusters = set CLUSTERS" by (simp add: sorted_clusters_def)
  show ?thesis
  proof
    assume "cluster_for rel = Some c"
    then obtain d where "find (\<lambda>c. in_cluster c rel) sorted_clusters = Some d" "c = lit (fst d)"
      unfolding found by auto
    then have "d \<in> set CLUSTERS" "in_cluster d rel" "c = lit (fst d)"
      unfolding set [symmetric] by (auto simp: find_Some_iff)
    then show "\<exists>name ps. (name, ps) \<in> set CLUSTERS \<and> c = lit name \<and> in_cluster (name, ps) rel"
      by (metis prod.collapse)
  next
    assume "\<exists>name ps. (name, ps) \<in> set CLUSTERS \<and> c = lit name \<and> in_cluster (name, ps) rel"
    then obtain d where d: "d \<in> set CLUSTERS" "c = lit (fst d)" "in_cluster d rel" by auto
    then obtain e where e: "find (\<lambda>c. in_cluster c rel) sorted_clusters = Some e"
      using set find_None_iff [of "\<lambda>c. in_cluster c rel" sorted_clusters] by (metis not_None_eq)
    then have "e \<in> set CLUSTERS" "in_cluster e rel" unfolding set [symmetric] by (auto simp: find_Some_iff)
    with d have "fst e = fst d" by (metis in_cluster_unique)
    with d(2) e show "cluster_for rel = Some c" by (simp add: found)
  qed
qed

section \<open>Where the generator misses or miscounts\<close>

text \<open>The pattern does not match a function with a guard, nor one on a line with \<open>do:\<close>.\<close>

theorem guarded_def_missed:
  "re_match DEF_RE (lit ''def f(x) when x do'') = None" "re_match DEF_RE (lit ''def f(x), do: x'') = None"
  by (simp_all add: re_match_def DEF_RE_def sequence_def literal_def start_def advance_def space_def alnum_items_def
      capture_def consumed_def class_run_def is_py_space_def at_end_def span_item_def lit_def first_def upt_rec)

text \<open>The total the README and the last line report is the number of modules.\<close>

definition ex_cards :: clusters where
  "ex_cards = [(lit ''core'', [\<lparr>cm_module = lit ''A'', cm_functions = [lit ''f'', lit ''g''], cm_source = lit ''a''\<rparr>])]"

theorem readme_counts_modules:
  "card_total ex_cards = 1" "length (make_skills (lit ''core'') (snd (hd ex_cards))) = 2"
  by (simp_all add: ex_cards_def card_total_def make_skills_def module_items_def add_skill_def make_skill_def
      skill_id_def lit_def)

end
