(* ===== verification/CardCommand.thy ===== *)
theory CardCommand
  imports CardProps FlatDir
begin

text \<open>
  The generator of the agent cards as a command: the texts it takes from the
  sources can be written, each card file reads back as the card of its cluster, and
  nothing is written but the cards and the README.
\<close>

section \<open>Texts\<close>

lemma text_ok_Cons [simp]: "text_ok (c # s) \<longleftrightarrow> is_scalar c \<and> text_ok s" "text_ok []"
  by (simp_all add: text_ok_def)

text \<open>A text drawn from well-formed text is well formed.\<close>

lemma text_ok_subset: "text_ok t \<Longrightarrow> set w \<subseteq> set t \<Longrightarrow> text_ok w"
  by (auto simp: text_ok_def list_all_iff)

lemma utf8_replace_text: "text_ok (utf8_replace bs)"
proof (induction bs rule: utf8_replace.induct)
  case (1 bs)
  have "is_scalar c" if "whole_char bs = Some (c, n)" for c n
    using that utf8_to_cps_scalar [of _ "[c]"]
    by (auto simp: whole_char_def Let_def split: option.splits list.splits)
  moreover have "is_scalar 65533" by (simp add: is_scalar_def)
  ultimately show ?case
    using 1 by (subst utf8_replace.simps) (auto simp: text_ok_def split: option.split)
qed

lemma universal_newlines_text: "text_ok s \<Longrightarrow> text_ok (universal_newlines s)"
  using set_universal_newlines [of s] by (auto simp: text_ok_def list_all_iff is_scalar_def)

lemma read_replace_text: "read_replace fs p = Inr t \<Longrightarrow> text_ok t"
  by (auto simp: read_replace_def res_dest intro: universal_newlines_text utf8_replace_text)

lemma read_path_text_ok: "read_path_text fs p = Inr t \<Longrightarrow> text_ok t"
  using utf8_to_cps_scalar
  by (auto simp: read_path_text_def read_text_def utf8_decode_def res_dest of_option_Inr_iff text_ok_def [symmetric]
      intro!: universal_newlines_text)

lemma certain_space [simp]: "certain (literal w) = {}"
  by (induction w) (simp_all add: literal_def)

lemma version_text: "ex4pm_version fs root = Inr version \<Longrightarrow> text_ok version"
proof -
  assume "ex4pm_version fs root = Inr version"
  then obtain t where t: "read_path_text fs (root @ [lit ''mix.exs'']) = Inr t"
    and v: "version = (case re_search version_pattern t of None \<Rightarrow> lit ''0.0.0'' | Some m \<Rightarrow> the (group_text 1 m))"
    by (auto simp: ex4pm_version_def res_dest)
  show "text_ok version"
  proof (cases "re_search version_pattern t")
    case None
    with v show ?thesis by simp
  next
    case (Some m)
    then obtain w where "group_text 1 m = Some w"
      using re_search_certain [of _ _ _ 1] by (fastforce simp: version_pattern_def)
    with v Some re_search_group [OF Some] text_ok_subset [OF read_path_text_ok [OF t]] show ?thesis by simp
  qed
qed

section \<open>The modules found\<close>

definition entry_text :: "module_entry \<Rightarrow> bool" where
  "entry_text m \<longleftrightarrow> text_ok (entry_name m) \<and> list_all text_ok (entry_functions m)"

lemma parse_line_text:
  assumes "list_all entry_text ms" "text_ok line"
  shows "list_all entry_text (parse_line word ms line)"
proof (cases "re_match (MODULE_RE word) line")
  case (Some m)
  then obtain w where w: "group_text 1 m = Some w"
    using re_match_certain [of _ _ _ 1] by (fastforce simp: MODULE_RE_def)
  have "text_ok w" using text_ok_subset [OF assms(2) re_match_group [OF Some w]] .
  with Some w assms(1) show ?thesis by (simp add: parse_line_def entry_text_def)
next
  case no_module: None
  show ?thesis
  proof (cases "re_match DEF_RE line")
    case None
    with no_module assms(1) show ?thesis by (simp add: parse_line_def)
  next
    case (Some d)
    then obtain w where w: "group_text 2 d = Some w"
      using re_match_certain [of _ _ _ 2] by (fastforce simp: DEF_RE_def)
    have "text_ok w" using text_ok_subset [OF assms(2) re_match_group [OF Some w]] .
    moreover have "list_all entry_text (add_function w ms)" if "ms \<noteq> []" "text_ok w"
    proof -
      obtain front m where ms: "ms = front @ [m]" using \<open>ms \<noteq> []\<close> by (metis rev_exhaust)
      with assms(1) that show ?thesis by (simp add: add_function_def Let_def entry_text_def)
    qed
    ultimately show ?thesis
      using no_module Some w assms(1) by (auto simp: parse_line_def Let_def)
  qed
qed

lemma parse_file_text: "parse_file word fs p = Inr ms \<Longrightarrow> list_all entry_text ms"
proof -
  assume "parse_file word fs p = Inr ms"
  then obtain t where t: "read_replace fs p = Inr t" "ms = parse_text word t"
    by (auto simp: parse_file_def res_dest)
  have "list_all entry_text (fold (\<lambda>line ms. parse_line word ms line) ls ms)"
    if "\<forall>l\<in>set ls. text_ok l" "list_all entry_text ms" for ls ms
    using that by (induction ls arbitrary: ms) (simp_all add: parse_line_text)
  moreover have "\<forall>l\<in>set (splitlines t). text_ok l"
    using set_splitlines text_ok_subset [OF read_replace_text [OF t(1)]] by blast
  ultimately show ?thesis using t(2) by (simp add: parse_text_def)
qed

section \<open>The clusters collected\<close>

definition cluster_names :: "str list" where
  "cluster_names = map (lit \<circ> fst) CLUSTERS"

definition module_text :: "card_module \<Rightarrow> bool" where
  "module_text m \<longleftrightarrow> text_ok (cm_module m) \<and> list_all text_ok (cm_functions m) \<and> text_ok (cm_source m)"

definition clusters_ok :: "clusters \<Rightarrow> bool" where
  "clusters_ok cs \<longleftrightarrow> distinct (keys cs) \<and> set (keys cs) \<subseteq> set cluster_names
     \<and> (\<forall>ms\<in>snd ` set cs. list_all module_text ms)"

lemma cluster_for_name: "cluster_for rel = Some c \<Longrightarrow> c \<in> set cluster_names"
proof -
  assume "cluster_for rel = Some c"
  then obtain d where "find (\<lambda>c. list_ex (\<lambda>p. rel = lit p \<or> starts_with (lit p) rel) (snd c)) sorted_clusters = Some d"
    and c: "c = lit (fst d)"
    by (auto simp: cluster_for_def)
  then have "d \<in> set sorted_clusters" by (auto simp: find_Some_iff)
  with c show ?thesis by (auto simp: sorted_clusters_def cluster_names_def)
qed

lemma set_update: "set (AList.update k v al) \<subseteq> insert (k, v) (set al)"
  by (induction al) auto

lemma add_module_ok:
  assumes "clusters_ok cs" "cluster \<in> set cluster_names" "text_ok rel" "entry_text m"
  shows "clusters_ok (add_module cluster rel cs m)"
proof (cases "entry_functions m = []")
  case True
  with assms(1) show ?thesis by (simp add: add_module_def)
next
  case False
  let ?new = "\<lparr>cm_module = entry_name m, cm_functions = entry_functions m, cm_source = lit ''lib/ex4pm/'' @ rel\<rparr>"
  let ?ms = "get_or cs cluster [] @ [?new]"
  have "list_all module_text (get_or cs cluster [])"
    using assms(1) by (auto simp: get_or_def clusters_ok_def split: option.split dest!: map_of_SomeD)
  then have "list_all module_text ?ms" using assms(3,4) by (simp add: module_text_def entry_text_def)
  moreover have "add_module cluster rel cs m = AList.update cluster ?ms cs" using False by (simp add: add_module_def)
  ultimately show ?thesis
    using assms(1,2) set_update [of cluster ?ms cs]
    by (auto simp: clusters_ok_def update_keys)
qed

lemma add_file_ok:
  assumes "clusters_ok cs" "add_file word fs root cs rel = Inr cs'" "cluster_for (rel_key rel) \<noteq> None"
    "text_ok (rel_key rel)"
  shows "clusters_ok cs'"
proof -
  from assms(2) obtain ms where ms: "parse_file word fs (lib_path root @ rel) = Inr ms"
    and cs': "cs' = foldl (add_module (the (cluster_for (rel_key rel))) (rel_key rel)) cs ms"
    by (auto simp: add_file_def res_dest)
  have name: "the (cluster_for (rel_key rel)) \<in> set cluster_names"
    using assms(3) cluster_for_name by auto
  have "clusters_ok (foldl (add_module (the (cluster_for (rel_key rel))) (rel_key rel)) cs ms)"
    if "clusters_ok cs" "list_all entry_text ms" for cs ms
    using that by (induction ms arbitrary: cs) (simp_all add: add_module_ok name assms(4))
  with assms(1) parse_file_text [OF ms] show ?thesis by (simp add: cs')
qed

text \<open>The names of the file system are well-formed texts.\<close>

definition names_text :: "fs \<Rightarrow> bool" where
  "names_text fs \<longleftrightarrow> (\<forall>p\<in>fst ` set fs. list_all text_ok p)"

lemma join_text: "list_all text_ok rel \<Longrightarrow> text_ok (join_with [47] rel)"
proof (induction rel)
  case (Cons c rel)
  then show ?case by (cases rel) (simp_all add: text_ok_def is_scalar_def)
qed (simp add: text_ok_def)

lemma source_file_text:
  assumes "names_text fs" "rel \<in> set (source_files fs root)"
  shows "cluster_for (rel_key rel) \<noteq> None" "text_ok (rel_key rel)"
proof -
  from assms(2) obtain d where "cluster_for (rel_key rel) \<noteq> None" "d @ rel \<in> fst ` set fs"
    by (auto simp: source_files_def set_rglob)
  with assms(1) show "cluster_for (rel_key rel) \<noteq> None" "text_ok (rel_key rel)"
    unfolding names_text_def rel_key_def using join_text by fastforce+
qed

lemma collect_ok:
  assumes "collect word fs root = Inr cs" "names_text fs"
  shows "clusters_ok cs"
proof -
  from assms(1) obtain cs0 where cs0: "efold (add_file word fs root) [] (source_files fs root) = Inr cs0"
    and cs: "cs = map (\<lambda>(cluster, ms). (cluster, sort_key cm_module ms)) cs0"
    by (auto simp: collect_def res_dest)
  have "clusters_ok cs0"
    using cs0
  proof (rule efold_invariant)
    show "clusters_ok []" by (simp add: clusters_ok_def)
  qed (use add_file_ok source_file_text [OF assms(2)] in blast)
  moreover have "keys cs = keys cs0" by (simp add: cs split_beta comp_def)
  moreover have "list_all module_text ms" if "ms \<in> snd ` set cs" "\<forall>ms\<in>snd ` set cs0. list_all module_text ms" for ms
    using that by (fastforce simp: cs list_all_iff)
  ultimately show ?thesis by (simp add: clusters_ok_def)
qed

section \<open>The cards as documents\<close>

lemma skill_json_ok:
  assumes "text_ok cluster" "module_text m" "f \<in> set (cm_functions m)"
  shows "json_ok (skill_json (make_skill cluster m f))"
proof -
  have f: "text_ok f" "text_ok (cm_module m)" "text_ok (cm_source m)"
    using assms(2,3) by (auto simp: module_text_def list_all_iff)
  have "text_ok (map (\<lambda>c. if c = 95 then 45 else c) s)" if "text_ok s" for s
    using that by (induction s) (simp_all add: is_scalar_def)
  with f have "text_ok (skill_id cluster f)" using assms(1) by (simp add: skill_id_def)
  moreover have "is_scalar 32" "is_scalar 8212" by (simp_all add: is_scalar_def)
  ultimately show ?thesis
    using f assms(1) by (simp add: skill_json_def make_skill_def)
qed

lemma set_add_skills:
  "set (foldl (add_skill cluster) skills pairs) \<subseteq> set skills \<union> (\<lambda>(m, f). make_skill cluster m f) ` set pairs"
proof (induction pairs arbitrary: skills)
  case (Cons item pairs)
  have "set (add_skill cluster skills item) \<subseteq> set skills \<union> {case item of (m, f) \<Rightarrow> make_skill cluster m f}"
    by (auto simp: add_skill_def split: prod.splits)
  with Cons [of "add_skill cluster skills item"] show ?case by auto
qed simp

lemma make_card_ok:
  assumes "text_ok version" "text_ok cluster" "list_all module_text ms"
  shows "json_ok (make_card version cluster ms)"
proof -
  have "json_ok (skill_json s)" if s: "s \<in> set (make_skills cluster ms)" for s
  proof -
    from s have "s \<in> (\<lambda>(m, f). make_skill cluster m f) ` set (module_items ms)"
      using set_add_skills [of cluster "[]" "module_items ms"] by (auto simp: make_skills_def)
    then obtain m f where "s = make_skill cluster m f" "m \<in> set ms" "f \<in> set (cm_functions m)"
      by (auto simp: module_items_def)
    with assms(2,3) show ?thesis by (simp add: skill_json_ok list_all_iff)
  qed
  then show ?thesis
    using assms(1,2) by (simp add: make_card_def list_all_iff)
qed

section \<open>The command\<close>

definition card_file :: "path \<Rightarrow> str \<Rightarrow> path" where
  "card_file root cluster = out_path root @ [cluster @ lit ''.json'']"

definition readme_file :: "path \<Rightarrow> path" where
  "readme_file root = out_path root @ [lit ''README.md'']"

lemma cluster_name_ok: "c \<in> set cluster_names \<Longrightarrow> good_name c \<and> text_ok c"
  by (auto simp: cluster_names_def CLUSTERS_def good_name_def plain_name_def) (simp_all add: lit_def)

lemma cluster_name_clean: "c \<in> set cluster_names \<Longrightarrow> list_all clean c"
  by (auto simp: cluster_names_def CLUSTERS_def) (simp_all add: lit_def)

lemma readme_name: "good_name (lit ''README.md'')" "lit ''README.md'' \<noteq> c @ lit ''.json''"
proof -
  show "good_name (lit ''README.md'')" by (simp add: good_name_def plain_name_def) (simp add: lit_def)
  have "last (lit ''README.md'') \<noteq> last (c @ lit ''.json'')" by (simp add: lit_def)
  then show "lit ''README.md'' \<noteq> c @ lit ''.json''" by metis
qed

text \<open>The version is read anew for every card; no card written so far changes it.\<close>

lemma version_stays:
  assumes "ex4pm_version fs root = Inr version" "canonical fs (root @ [lit ''mix.exs''])"
    "written_over fs (out_path root) s"
  shows "ex4pm_version s root = Inr version"
proof -
  let ?mix = "root @ [lit ''mix.exs'']"
  from assms(1) obtain bs where bs: "read_bytes fs ?mix = Inr bs"
    by (auto simp: ex4pm_version_def read_path_text_def res_dest)
  have same: "node_at s (take n ?mix) = node_at fs (take n ?mix)" for n
  proof -
    have "take n ?mix \<noteq> out_path root @ [c]" for c
    proof
      assume "take n ?mix = out_path root @ [c]"
      then have "length (take n ?mix) = length (out_path root @ [c])" by (rule arg_cong)
      then show False by (simp add: out_path_def)
    qed
    with assms(3) show ?thesis by (simp add: written_over_def)
  qed
  have "canonical s ?mix" using assms(2,3) by (simp add: canonical_def written_over_def)
  moreover have "above s ?mix" using read_bytes_above [OF assms(2) bs] same unfolding above_def by metis
  moreover have "node_at s ?mix = Some (File bs)"
    using read_bytes_canonical [OF assms(2) bs] same [of "length ?mix"] by simp
  ultimately have "read_bytes s ?mix = Inr bs" by (rule read_bytes_plain)
  with bs assms(1) show ?thesis by (simp add: ex4pm_version_def read_path_text_def)
qed

lemma readme_text:
  assumes "clusters_ok cs"
  shows "list_all clean (join_with [10] (readme_lines cs) @ [10])"
proof -
  have row: "list_all clean (readme_row c)" if "fst c \<in> set cluster_names" for c
    using cluster_name_clean [OF that] by (simp add: readme_row_def) (simp add: lit_def)
  have names: "\<forall>c\<in>set (sort_key fst cs). fst c \<in> set cluster_names"
    using assms by (auto simp: clusters_ok_def)
  have join: "list_all clean (join_with [10] ls)" if "\<forall>l\<in>set ls. list_all clean l" for ls
    using that
  proof (induction ls)
    case (Cons l ls)
    then show ?case by (cases ls) simp_all
  qed simp
  have "\<forall>l\<in>set (readme_lines cs). list_all clean l"
    unfolding readme_lines_def using names row
    by (simp add: ball_Un) (simp add: lit_def clean_def is_scalar_def)
  then show ?thesis by (simp add: join)
qed

text \<open>C37: the generator writes its cards faithfully: with its output directory made and holding
  plain files, and once the sources and the version can be read, it succeeds; the card file of
  each cluster collected reads back as the card of its modules with that version, the README reads
  back as its lines, and nothing else changes but that missing directories are made.\<close>

theorem cards_written:
  assumes "make_dirs fs (out_path root) = Inr fs1" "flat_dir fs1 (out_path root)"
    and "collect word fs1 root = Inr cs" "ex4pm_version fs1 root = Inr version"
    and "canonical fs1 (root @ [lit ''mix.exs''])" "names_text fs1"
  shows "\<exists>out fs' ws. cards_main word fs root = Inr (out, fs')
    \<and> (\<forall>(cluster, ms)\<in>set cs. \<exists>bs. node_at fs' (card_file root cluster) = Some (File bs)
          \<and> ebind (read_text bs) loads = Inr (sort_json (make_card version cluster ms)))
    \<and> node_at fs' (readme_file root) = Some (File ws)
    \<and> read_text ws = Inr (join_with [10] (readme_lines cs) @ [10])
    \<and> (\<forall>p. p \<noteq> readme_file root \<and> p \<notin> card_file root ` set (keys cs)
          \<longrightarrow> node_at fs' p = node_at fs p \<or> node_at fs p = None \<and> node_at fs' p = Some Dir)"
proof -
  let ?out = "out_path root"
  have ok: "clusters_ok cs" using assms(3,6) by (rule collect_ok)
  define name where "name c = fst c @ lit ''.json''" for c :: "str \<times> card_module list"
  define contents where "contents c = projr (write_text (dumps indented (make_card version (fst c) (snd c)) @ [10]))" for c
  have bs: "write_text (dumps indented (make_card version (fst c) (snd c)) @ [10]) = Inr (contents c)" for c
    by (rule dumps_ascii_writes [OF layouts_clean(3), of "make_card version (fst c) (snd c)"])
      (simp_all add: indented_def contents_def)
  have good: "\<forall>c\<in>set (sort_key fst cs). good_name (name c)"
    using ok cluster_name_ok good_json_name by (fastforce simp: name_def clusters_ok_def)
  have step: "write_card root s c = Inr (put_file (?out @ [name c]) (contents c) s)"
    if "c \<in> set (sort_key fst cs)" "written_over fs1 ?out s" for s c
    using that good flat_write(1) version_stays [OF assms(4,5) that(2)]
    by (simp add: write_card_def bs name_def written_over_def)
  have "distinct (map name (sort_key fst cs))"
    using ok by (auto simp: name_def clusters_ok_def distinct_map inj_on_def)
  from flat_files [where name = name and data = contents, OF written_over_refl [OF assms(2)] this good step]
  obtain fs2 where fs2: "efold (write_card root) fs1 (sort_key fst cs) = Inr fs2" "written_over fs1 ?out fs2"
    and same: "\<And>p. p \<notin> (\<lambda>c. ?out @ [name c]) ` set cs \<Longrightarrow> node_at fs2 p = node_at fs1 p"
    and own: "\<And>c. c \<in> set cs \<Longrightarrow> node_at fs2 (?out @ [name c]) = Some (File (contents c))"
    by auto
  obtain ws where ws: "write_text (join_with [10] (readme_lines cs) @ [10]) = Inr ws"
    "read_text ws = Inr (join_with [10] (readme_lines cs) @ [10])"
    using readme_text [OF ok] by (rule write_clean)
  let ?fs = "put_file (readme_file root) ws fs2"
  have node: "node_at ?fs p = (if p = readme_file root then Some (File ws) else node_at fs2 p)" for p
    by (simp add: node_at_put_file readme_file_def)
  have "write_file fs2 (readme_file root) ws = Inr ?fs"
    unfolding readme_file_def using fs2(2) readme_name(1) by (intro flat_write(1)) (simp_all add: written_over_def)
  then have "\<exists>out. cards_main word fs root = Inr (out, ?fs)"
    using assms(1,3) fs2(1) ws(1) by (simp add: cards_main_def readme_file_def)
  moreover have "\<exists>bs. node_at ?fs (card_file root (fst c)) = Some (File bs)
      \<and> ebind (read_text bs) loads = Inr (sort_json (make_card version (fst c) (snd c)))" if c: "c \<in> set cs" for c
  proof -
    have "card_file root (fst c) = ?out @ [name c]" by (simp add: card_file_def name_def)
    moreover have "card_file root (fst c) \<noteq> readme_file root"
      using readme_name(2) [of "fst c"] by (metis card_file_def last_snoc readme_file_def)
    moreover have "json_ok (make_card version (fst c) (snd c))"
      using ok c cluster_name_ok version_text [OF assms(4)] by (intro make_card_ok) (auto simp: clusters_ok_def)
    ultimately show ?thesis
      using own [OF c] node dumps_line_read_back [OF layouts_ok(3) layouts_clean(3) _ bs] by metis
  qed
  moreover have "node_at ?fs p = node_at fs p \<or> node_at fs p = None \<and> node_at ?fs p = Some Dir"
    if "p \<noteq> readme_file root \<and> p \<notin> card_file root ` set (keys cs)" for p
  proof -
    have "p \<notin> (\<lambda>c. ?out @ [name c]) ` set cs" using that by (auto simp: card_file_def name_def)
    with that same make_dirs_extends [OF assms(1)] show ?thesis by (simp add: node extends_def)
  qed
  ultimately show ?thesis using ws(2) node by (fastforce simp: split_beta)
qed

section \<open>A run of the generator\<close>

definition ex_sources :: fs where
  "ex_sources =
     [([lit ''lib''], Dir), ([lit ''lib'', lit ''ex4pm''], Dir),
      ([lit ''lib'', lit ''ex4pm'', lit ''core.ex''], File (map of_nat (lit ''defmodule A do'' @ [10] @ lit ''def f''))),
      ([lit ''mix.exs''], File (map of_nat (lit ''version:\"1\"''))),
      ([lit ''priv''], Dir), ([lit ''priv'', lit ''cards''], Dir)]"

lemmas match_eval = re_match_def MODULE_RE_def DEF_RE_def sequence_def literal_def start_def advance_def space_def
  alnum_items_def capture_def consumed_def class_run_def is_py_space_def at_end_def span_item_def lit_def
  first_def upt_rec word_at_def group_text_def

lemma ex_lines_match:
  "map_option (group_text 1) (re_match (MODULE_RE (one_of alnum_items)) (lit ''defmodule A do'')) = Some (Some (lit ''A''))"
  "re_match (MODULE_RE (one_of alnum_items)) (lit ''def f'') = None"
  "map_option (\<lambda>m. (group_text 1 m, group_text 2 m)) (re_match DEF_RE (lit ''def f'')) = Some (None, Some (lit ''f''))"
  by (simp_all add: match_eval)

lemma ex_sources_parsed:
  "parse_text (one_of alnum_items) (lit ''defmodule A do'' @ 10 # lit ''def f'')
     = [\<lparr>entry_name = lit ''A'', entry_functions = [lit ''f'']\<rparr>]"
proof -
  have "splitlines (lit ''defmodule A do'' @ 10 # lit ''def f'') = [lit ''defmodule A do'', lit ''def f'']"
    by (simp add: splitlines_def is_line_break_def lit_def)
  moreover have "lit ''f'' \<notin> set SKIP_NAMES" by (simp add: SKIP_NAMES_def)
  ultimately show ?thesis
    using ex_lines_match by (auto simp: parse_text_def parse_line_def add_function_def Let_def)
qed

lemma ex_sources_files:
  "source_files ex_sources [] = [[lit ''core.ex'']]" "cluster_for (rel_key [lit ''core.ex'']) = Some (lit ''core'')"
  "read_replace ex_sources (lib_path [] @ [lit ''core.ex'']) = Inr (lit ''defmodule A do'' @ 10 # lit ''def f'')"
  "ex4pm_version ex_sources [] = Inr (lit ''1'')"
  by code_simp+

lemma ex_sources_collected:
  "\<exists>cs. collect (one_of alnum_items) ex_sources [] = Inr cs \<and> keys cs = [lit ''core'']"
  by (simp add: collect_def ex_sources_files add_file_def parse_file_def ex_sources_parsed add_module_def get_or_def)

lemma ex_sources_canonical: "canonical ex_sources p \<longleftrightarrow> list_all plain_name p"
  by (auto simp: canonical_def link_target_def ex_sources_def)

theorem cards_written_witness:
  "\<exists>out fs' bs v. cards_main (one_of alnum_items) ex_sources [] = Inr (out, fs')
     \<and> node_at fs' (card_file [] (lit ''core'')) = Some (File bs) \<and> ebind (read_text bs) loads = Inr v"
proof -
  have names: "plain_name (lit ''priv'')" "plain_name (lit ''cards'')" "plain_name (lit ''mix.exs'')"
    by (simp_all add: plain_name_def lit_def)
  obtain cs where cs: "collect (one_of alnum_items) ex_sources [] = Inr cs" "keys cs = [lit ''core'']"
    by (rule exE [OF ex_sources_collected]) (erule conjE, rule that)
  then obtain ms where ms: "(lit ''core'', ms) \<in> set cs" by (cases cs) auto
  have "make_dirs ex_sources (out_path []) = Inr ex_sources"
  proof (rule make_dirs_present)
    show "canonical ex_sources (out_path [])" using names by (simp add: ex_sources_canonical out_path_def)
    have "node_at ex_sources [lit ''priv''] = Some Dir" "node_at ex_sources [lit ''priv'', lit ''cards''] = Some Dir"
      by (simp_all add: node_at_def ex_sources_def)
    then show "\<forall>n. 0 < n \<and> n \<le> length (out_path []) \<longrightarrow> node_at ex_sources (take n (out_path [])) = Some Dir"
      by (auto simp: out_path_def le_Suc_eq)
  qed
  moreover have "flat_dir ex_sources (out_path [])"
    using names by (simp add: flat_dir_def ex_sources_canonical out_path_def) (simp add: node_at_def ex_sources_def)
  moreover have "canonical ex_sources ([] @ [lit ''mix.exs''])" using names by (simp add: ex_sources_canonical)
  moreover have "names_text ex_sources" by (simp add: names_text_def ex_sources_def)
  ultimately show ?thesis
    using cards_written [of ex_sources "[]" ex_sources "one_of alnum_items" cs] cs(1) ex_sources_files(4) ms by fastforce
qed

end
