(* ===== verification/SpoolCrash.thy ===== *)
theory SpoolCrash
  imports EmitProps
begin

text \<open>
  What a power failure during \<open>atomic_spool\<close> of \<open>scripts/emit-ocel.py\<close> may leave on the
  disk, and why the synchronisation before the replacement matters. The calls are
  those of the source in their order; the disk is modelled as POSIX leaves it: the
  directory entries are written back each at its own time, and the data of a
  file is only certain once it has been synchronised.
\<close>

section \<open>The calls\<close>

datatype call =
    MkDir path
  | Create path
  | Append path bytes
  | Sync path
  | Rename path path

text \<open>
  \<open>output.parent.mkdir\<close>, \<open>NamedTemporaryFile\<close>, \<open>write\<close> with \<open>flush\<close>, \<open>os.fsync\<close> and
  \<open>os.replace\<close>.
\<close>

definition spool_calls :: "bytes \<Rightarrow> path \<Rightarrow> str \<Rightarrow> call list" where
  "spool_calls payload q suffix =
     map (\<lambda>n. MkDir (take n (butlast q))) [1..<Suc (length (butlast q))]
     @ [Create (temp_path q suffix),
        Append (temp_path q suffix) payload,
        Sync (temp_path q suffix),
        Rename (temp_path q suffix) q]"

fun run_call :: "fs \<Rightarrow> call \<Rightarrow> fs res" where
  "run_call fs (MkDir p) = make_dir fs p"
| "run_call fs (Create p) = (if node_at fs p \<noteq> None then Inl FileExistsError else Inr (put_file p [] fs))"
| "run_call fs (Append p bs) =
     (case node_at fs p of Some (File old) \<Rightarrow> Inr (put_file p (old @ bs) fs) | _ \<Rightarrow> Inl FileNotFoundError)"
| "run_call fs (Sync p) = Inr fs"
| "run_call fs (Rename p p') = replace_file p p' fs"

section \<open>The disk\<close>

text \<open>The names whose file holds data that may not be on the disk yet.\<close>

fun unsynced :: "path set \<Rightarrow> call \<Rightarrow> path set" where
  "unsynced D (MkDir p) = D"
| "unsynced D (Create p) = insert p D"
| "unsynced D (Append p bs) = insert p D"
| "unsynced D (Sync p) = D - {p}"
| "unsynced D (Rename p p') = (if p \<in> D then insert p' (D - {p}) else D - {p, p'})"

text \<open>
  A crash after the first \<open>n\<close> calls leaves at every name what the name was for after
  some \<open>k \<le> n\<close> of them; the content of a file is arbitrary if it was not synchronised then.
  (In a spool no file is written under one name after it was renamed to another.)
\<close>

definition after_crash :: "fs \<Rightarrow> call list \<Rightarrow> (path \<Rightarrow> node option) \<Rightarrow> bool" where
  "after_crash fs calls disk \<longleftrightarrow>
     (\<exists>n\<le>length calls. (\<exists>fs'. efold run_call fs (take n calls) = Inr fs')
        \<and> (\<forall>p. \<exists>k\<le>n. \<exists>fs'. efold run_call fs (take k calls) = Inr fs'
             \<and> (if p \<in> foldl unsynced {} (take k calls) then \<exists>bs. disk p = Some (File bs) else disk p = node_at fs' p)))"

section \<open>The calls are the function\<close>

abbreviation mk_calls :: "path \<Rightarrow> nat \<Rightarrow> call list" where
  "mk_calls q m \<equiv> map (\<lambda>n. MkDir (take n (butlast q))) [1..<Suc m]"

lemma run_mk_calls:
  "efold run_call fs (mk_calls q m) = efold (\<lambda>fs n. make_dir fs (take n (butlast q))) fs [1..<Suc m]"
proof -
  have "efold run_call fs (map (\<lambda>n. MkDir (take n (butlast q))) ns) = efold (\<lambda>fs n. make_dir fs (take n (butlast q))) fs ns" for ns
    by (induction ns arbitrary: fs) (simp_all cong: ebind_cong)
  then show ?thesis .
qed

lemma unsynced_mk_calls: "foldl unsynced D (mk_calls q m) = D"
  by (induction m) simp_all

lemma run_spool_calls:
  "efold run_call fs (spool_calls payload q suffix) = ebind (make_dirs fs (butlast q)) (\<lambda>fs.
     efold run_call fs [Create (temp_path q suffix), Append (temp_path q suffix) payload,
       Sync (temp_path q suffix), Rename (temp_path q suffix) q])"
  by (simp only: spool_calls_def efold_append run_mk_calls make_dirs_def)

lemma spool_calls_run:
  assumes "resolve fs output = Inr q" "canonical fs q"
  shows "efold run_call fs (spool_calls payload q suffix) = Inr fs'
    \<longleftrightarrow> atomic_spool fs payload output suffix = (Inr q, fs')"
proof (cases "make_dirs fs (butlast q)")
  case (Inl e)
  then show ?thesis
    by (simp add: atomic_spool_canonical [OF assms] run_spool_calls)
next
  case (Inr fs1)
  have "efold run_call fs (spool_calls payload q suffix)
      = efold run_call fs1 [Create (temp_path q suffix), Append (temp_path q suffix) payload,
          Sync (temp_path q suffix), Rename (temp_path q suffix) q]"
    using Inr by (simp only: run_spool_calls ebind.simps)
  then show ?thesis
    using Inr by (auto simp: atomic_spool_canonical [OF assms] Let_def node_at_put_file split: sum.splits)
qed

section \<open>Crashes\<close>

text \<open>A file system met on the way, and the names not synchronised then: at most the temporary one.\<close>

lemma prefix_reached:
  assumes "efold run_call fs (take k (spool_calls payload q suffix)) = Inr s"
  shows "(\<exists>ph. (spool_step payload q suffix)\<^sup>*\<^sup>* \<lparr>sp_fs = fs, sp_phase = Making 0\<rparr> \<lparr>sp_fs = s, sp_phase = ph\<rparr>)
    \<and> foldl unsynced {} (take k (spool_calls payload q suffix)) \<subseteq> {temp_path q suffix}"
proof -
  let ?m = "length (butlast q)" and ?t = "temp_path q suffix"
  let ?R = "(spool_step payload q suffix)\<^sup>*\<^sup>*"
  let ?rest = "[Create ?t, Append ?t payload, Sync ?t, Rename ?t q]"
  show ?thesis
  proof (cases "k \<le> ?m")
    case True
    then have calls: "take k (spool_calls payload q suffix) = mk_calls q k"
      by (simp add: spool_calls_def take_map del: upt_Suc)
    show ?thesis
      using make_dirs_steps [OF True] assms unfolding calls run_mk_calls unsynced_mk_calls by blast
  next
    case False
    define j where "j = k - ?m"
    have calls: "take k (spool_calls payload q suffix) = mk_calls q ?m @ take j ?rest"
      using False by (simp add: spool_calls_def j_def del: upt_Suc)
    have dirty: "foldl unsynced {} (mk_calls q ?m @ take j ?rest) = foldl unsynced {} (take j ?rest)"
      by (simp only: foldl_append unsynced_mk_calls)
    from assms obtain s1 where s1: "efold (\<lambda>fs n. make_dir fs (take n (butlast q))) fs [1..<Suc ?m] = Inr s1"
      "efold run_call s1 (take j ?rest) = Inr s"
      unfolding calls efold_append run_mk_calls by (auto simp: ebind_Inr_iff)
    have dirs: "?R \<lparr>sp_fs = fs, sp_phase = Making 0\<rparr> \<lparr>sp_fs = s1, sp_phase = Making ?m\<rparr>"
      using make_dirs_steps [OF order_refl s1(1)] .
    have "0 < j" using False by (simp add: j_def)
    then have free: "node_at s1 ?t = None" using s1(2) by (cases j) (auto split: if_splits)
    let ?s2 = "put_file ?t [] s1"
    let ?s3 = "put_file ?t payload ?s2"
    have made: "?R \<lparr>sp_fs = fs, sp_phase = Making 0\<rparr> \<lparr>sp_fs = ?s2, sp_phase = Writing 0\<rparr>"
      using rtranclp.rtrancl_into_rtrancl [OF dirs create [OF refl free]] .
    have written: "?R \<lparr>sp_fs = fs, sp_phase = Making 0\<rparr> \<lparr>sp_fs = ?s3, sp_phase = Writing (length payload)\<rparr>"
      using rtranclp_trans [OF made write_steps] .
    have synced: "?R \<lparr>sp_fs = fs, sp_phase = Making 0\<rparr> \<lparr>sp_fs = ?s3, sp_phase = Synced\<rparr>"
      using rtranclp.rtrancl_into_rtrancl [OF written sync [OF refl]] .
    consider "j = 1" | "j = 2" | "j = 3" | "4 \<le> j" using \<open>0 < j\<close> by linarith
    then show ?thesis
    proof cases
      case 1
      with s1(2) free made show ?thesis unfolding calls dirty by auto
    next
      case 2
      with s1(2) free written show ?thesis unfolding calls dirty
        by (auto simp: node_at_put_file numeral_2_eq_2)
    next
      case 3
      with s1(2) free synced show ?thesis unfolding calls dirty
        by (auto simp: node_at_put_file numeral_3_eq_3)
    next
      case 4
      then have "take j ?rest = ?rest" by simp
      with s1(2) free have "replace_file ?t q ?s3 = Inr s" by (simp add: node_at_put_file ebind_Inr_iff)
      then have "?R \<lparr>sp_fs = fs, sp_phase = Making 0\<rparr> \<lparr>sp_fs = s, sp_phase = Published\<rparr>"
        using rtranclp.rtrancl_into_rtrancl [OF synced publish] by blast
      moreover have "foldl unsynced {} ?rest \<subseteq> {?t}" by auto
      ultimately show ?thesis unfolding calls dirty unfolding \<open>take j ?rest = ?rest\<close> by blast
    qed
  qed
qed

text \<open>C24: a power failure at any moment of the spool leaves the output as it was or with the whole
  payload, and every other file but the temporary one as it was, although directory entries
  reach the disk in any order and data that was not synchronised may be lost: the payload is
  synchronised before it gets its name. The calls are those of \<open>atomic_spool\<close>: run to their end
  they leave what it leaves. (The output path is one whose links make no loop.)\<close>

theorem spool_survives_crash:
  assumes "resolve fs output = Inr q" "loop_free fs output" "q \<noteq> []"
  shows "(efold run_call fs (spool_calls payload q suffix) = Inr fs' \<longleftrightarrow> atomic_spool fs payload output suffix = (Inr q, fs'))
    \<and> (after_crash fs (spool_calls payload q suffix) disk \<longrightarrow>
        (disk q = node_at fs q \<or> disk q = Some (File payload))
        \<and> (\<forall>p. p = q \<or> p = temp_path q suffix \<or> disk p = node_at fs p \<or> node_at fs p = None \<and> disk p = Some Dir))"
proof -
  have can: "canonical fs q" using assms(1,2) by (rule resolve_canonical)
  note start = spool_inv_start [OF can assms(3), of payload suffix]
  have "(disk q = node_at fs q \<or> disk q = Some (File payload))
        \<and> (\<forall>p. p = q \<or> p = temp_path q suffix \<or> disk p = node_at fs p \<or> node_at fs p = None \<and> disk p = Some Dir)"
    if crash: "after_crash fs (spool_calls payload q suffix) disk"
  proof -
    have "\<exists>s. disk p = node_at (sp_fs s) p \<and> (spool_step payload q suffix)\<^sup>*\<^sup>* \<lparr>sp_fs = fs, sp_phase = Making 0\<rparr> s"
      if p: "p \<noteq> temp_path q suffix" for p
    proof -
      from crash obtain k s where k: "efold run_call fs (take k (spool_calls payload q suffix)) = Inr s"
        "if p \<in> foldl unsynced {} (take k (spool_calls payload q suffix)) then \<exists>bs. disk p = Some (File bs) else disk p = node_at s p"
        unfolding after_crash_def by blast
      from prefix_reached [OF k(1)] p k(2) show ?thesis by (metis insertE empty_iff select_convs(1) subsetD)
    qed
    note reached = this
    obtain s where s: "disk q = node_at (sp_fs s) q" "(spool_step payload q suffix)\<^sup>*\<^sup>* \<lparr>sp_fs = fs, sp_phase = Making 0\<rparr> s"
      using reached [of q] temp_path_neq [OF assms(3), of suffix] by metis
    have "disk q = node_at fs q \<or> disk q = Some (File payload)"
      using spooling.view_reachable [OF s(2) start] s(1) by simp
    moreover have "disk p = node_at fs p \<or> node_at fs p = None \<and> disk p = Some Dir"
      if q: "p \<noteq> q" and t: "p \<noteq> temp_path q suffix" for p
    proof -
      obtain s where s: "disk p = node_at (sp_fs s) p" "(spool_step payload q suffix)\<^sup>*\<^sup>* \<lparr>sp_fs = fs, sp_phase = Making 0\<rparr> s"
        using reached [OF t] by blast
      from spooling.inv_reachable [OF s(2) start] q t show ?thesis
        unfolding s(1) spool_inv_def others_kept_def by blast
    qed
    ultimately show ?thesis by blast
  qed
  with spool_calls_run [OF assms(1) can] show ?thesis by blast
qed

text \<open>A crash of the example after the payload was written and before it is synchronised: the temporary
  file holds other bytes, the output is not there.\<close>

lemma ex_crash:
  "after_crash ex_spool_fs (spool_calls [1] [lit ''o''] []) (\<lambda>p. if p = temp_path [lit ''o''] [] then Some (File [2]) else node_at ex_spool_fs p)"
proof -
  let ?calls = "spool_calls [1] [lit ''o''] []" and ?t = "temp_path [lit ''o''] []"
  have calls: "take 2 ?calls = [Create ?t, Append ?t [1]]" "length ?calls = 4" by (simp_all add: spool_calls_def)
  have "node_at ex_spool_fs ?t = None" using ex_spool_target(3) by (simp add: can_publish_def)
  then have run: "\<exists>fs'. efold run_call ex_spool_fs (take 2 ?calls) = Inr fs'" by (simp add: calls node_at_put_file)
  have "\<exists>k\<le>2. \<exists>fs'. efold run_call ex_spool_fs (take k ?calls) = Inr fs'
      \<and> (if p \<in> foldl unsynced {} (take k ?calls) then \<exists>bs. (if p = ?t then Some (File [2]) else node_at ex_spool_fs p) = Some (File bs)
         else (if p = ?t then Some (File [2]) else node_at ex_spool_fs p) = node_at fs' p)" for p
  proof (cases "p = ?t")
    case True
    with run show ?thesis by (intro exI [of _ 2]) (auto simp: calls)
  next
    case False
    then show ?thesis by (intro exI [of _ 0]) simp
  qed
  with run calls(2) show ?thesis unfolding after_crash_def by (intro exI [of _ 2]) simp
qed

theorem spool_survives_crash_witness:
  "\<exists>disk. after_crash ex_spool_fs (spool_calls [1] [lit ''o''] []) disk
     \<and> disk (temp_path [lit ''o''] []) = Some (File [2])
     \<and> (disk [lit ''o''] = node_at ex_spool_fs [lit ''o''] \<or> disk [lit ''o''] = Some (File [1]))"
  using ex_crash spool_survives_crash [OF ex_spool_target(1,2), of "[1]" "[]" ex_spool_fs] by fastforce

text \<open>Without the synchronisation the output can be torn: it has the new name and other bytes.\<close>

lemma unsynced_spool_torn:
  "\<exists>disk. after_crash ex_spool_fs (filter (\<lambda>c. \<forall>p. c \<noteq> Sync p) (spool_calls [1] [lit ''o''] [])) disk
     \<and> disk [lit ''o''] = Some (File [2])"
proof -
  let ?t = "temp_path [lit ''o''] []" and ?o = "[lit ''o'']"
  let ?calls = "[Create ?t, Append ?t [1], Rename ?t ?o]"
  have calls: "filter (\<lambda>c. \<forall>p. c \<noteq> Sync p) (spool_calls [1] ?o []) = ?calls" by (simp add: spool_calls_def)
  have neq: "?t \<noteq> ?o" by (rule temp_path_neq) simp
  have "node_at ex_spool_fs ?t = None" "node_at ex_spool_fs ?o \<noteq> Some Dir"
    using ex_spool_target(3) by (simp_all add: can_publish_def)
  then have run: "\<exists>fs'. efold run_call ex_spool_fs (take 3 ?calls) = Inr fs'"
    using neq by (simp add: node_at_put_file replace_file_def)
  let ?disk = "\<lambda>p. if p = ?o then Some (File [2]) else node_at ex_spool_fs p"
  have "\<exists>k\<le>3. \<exists>fs'. efold run_call ex_spool_fs (take k ?calls) = Inr fs'
      \<and> (if p \<in> foldl unsynced {} (take k ?calls) then \<exists>bs. ?disk p = Some (File bs) else ?disk p = node_at fs' p)" for p
  proof (cases "p = ?o")
    case True
    with run neq show ?thesis by (intro exI [of _ 3]) auto
  next
    case False
    then show ?thesis by (intro exI [of _ 0]) simp
  qed
  with run have "after_crash ex_spool_fs ?calls ?disk" unfolding after_crash_def by (intro exI [of _ 3]) simp
  then show ?thesis unfolding calls by (intro exI [of _ ?disk]) simp
qed

end
