(* ===== verification/Spec2Isabelle.thy ===== *)
theory Spec2Isabelle
  imports CrownProps ReleaseProps HexProps PlanExtract FlyProps EmitProps CourtProps ConsumerCourt
    RemoteServer CommandProps CardCommand SpoolCrash
begin

text \<open>
  The Python programs of ex4pm: the tools that decide whether a release, an
  observation or a consumer is admitted, and the generators around them. They run
  beside the Elixir system, read evidence from files, and answer with an exit
  code, a report and files of their own. This development models them and proves
  what their answers mean.

  \<^bold>\<open>Python.\<close> Text is a list of code points, bytes are lists of \<open>8 word\<close>, exceptions are
  values of \<open>exn\<close> in a sum, loops that may raise are \<open>efold\<close> and \<open>emap\<close>, a \<open>dict\<close> is an
  association list in insertion order (\<open>Prelude\<close>). \<open>PyText\<close> has the string methods, UTF-8
  with its round trip, and \<open>repr\<close>; \<open>PyFloat\<close> has binary64 reading and \<open>repr\<close>; \<open>PyJson\<close>,
  \<open>JsonScan\<close>, \<open>JsonDump\<close> and \<open>JsonBytes\<close> are the \<open>json\<close> module (the scanner carries fuel, and
  twice the length of the text is proved to be enough), and \<open>JsonRound\<close> proves that \<open>loads\<close>
  undoes \<open>dumps\<close> in every layout in use, as instances of the locale \<open>canonical_codec\<close>.
  \<open>Sha256\<close> is SHA-256 on 32-bit words, with the streaming digest as an instance of
  \<open>stream_hash\<close>; \<open>Sha256Vectors\<close> evaluates published vectors. \<open>PyRegex\<close> is a backtracking
  matcher with the priorities of \<open>re\<close>, proved against the relation \<open>matches\<close>. \<open>PyFs\<close> is the
  file system of \<open>pathlib\<close>: files, directories and links, the kernel's look-up behind
  \<open>open\<close> (\<open>locate\<close>) and \<open>Path.resolve\<close> of Python 3.12, writes, \<open>mkdir\<close> and \<open>rglob\<close>. Both
  walks terminate because a link that is met again is a loop; \<open>resolve\<close> does not always
  raise at a loop, so properties of resolved paths that need them free of links
  assume \<open>loop_free\<close>.

  \<^bold>\<open>The crown verifier\<close> (\<open>scripts/verify-final-crown.py\<close>). \<open>EvidenceFiles\<close>: containment of
  evidence paths, verified files, chunked digests, canonical hashes. \<open>Crown\<close>: each court as a function with
  every refusal as a constructor, \<open>verify\<close> and \<open>main\<close>. \<open>CrownCourts\<close> characterises each court,
  \<open>CrownSpec\<close> states declaratively what an evidenced crown is, and \<open>CrownProps\<close> proves that
  \<open>verify\<close> accepts exactly those, that \<open>main\<close> fails closed, that evidence stays inside the
  root when no loop of links is met (and an example where it does not, with one) and that tampering is seen. \<open>CrownExample\<close> is a crown that passes.

  \<^bold>\<open>The topology qualification\<close> (\<open>scripts/qualify-fly-topology.py\<close>): \<open>FlyTopology\<close>,
  \<open>FlyProps\<close>. The files it writes are read by the crown's topology court; \<open>fly_feeds_crown\<close>
  composes the two programs.

  \<^bold>\<open>The observation relay\<close> (\<open>scripts/emit-ocel.py\<close>): \<open>EmitOcel\<close> has the admission of the
  receipt, the observation document, the spool, the delivery and \<open>main\<close>; the clock, the
  random suffix, the environment, the HTTP endpoint and the library's check of a URL's host
  are parameters (\<open>world\<close>). \<open>EmitSpool\<close> refines the spool to system calls: a step relation with
  an invariant, and the locale \<open>publication\<close> for what a reader may see. \<open>SpoolCrash\<close> has the same
  calls as a list and a disk that loses what was not synchronised: a power failure leaves the old
  output or the whole new one, and without the call of \<open>fsync\<close> it need not.
  \<open>EmitProps\<close>: failing closed, identity binding, no torn output, independence of the
  transport, round trip. \<open>OcelTypes\<close> is a type system for documents with the type of an
  observation: what is published has it, and its references resolve.

  \<^bold>\<open>The release checks\<close>: \<open>ReleaseVersion\<close> and \<open>ReleaseProps\<close>
  (\<open>scripts/check-release-version.py\<close>), \<open>HexPackage\<close> and \<open>HexProps\<close>
  (\<open>scripts/inspect-hex-package.py\<close>), \<open>PlanExtract\<close> (\<open>scripts/extract-ex4pm-plan-json.py\<close>).

  \<^bold>\<open>The consumer courts\<close>: \<open>SubjectCourts\<close> and \<open>CourtProps\<close> for R54
  (\<open>qualification/epistemic_consumer_r54/verify.py\<close>) and R79
  (\<open>verification/r79-tcps-ready-set/verify.py\<close>), two instances of the locale \<open>cascade\<close>;
  \<open>ConsumerCourt\<close> for R58 (\<open>verification/r58-consumer/run_court.py\<close>), with the RDF library as
  the parameters \<open>parse\<close> and \<open>ask\<close>. What these programs print is encoded as it is printed:
  the parameter \<open>enc\<close> has the characters beyond ASCII that standard output can encode, and an
  identifier with another one (on UTF-8, a lone surrogate) ends a run in an exception.

  \<^bold>\<open>The reference remote\<close> (\<open>qualification/reference-remote/server.py\<close>): \<open>ReferenceRemote\<close>
  has the handlers and their replies, \<open>RemoteServer\<close> has \<open>main\<close> and the dispatch of a request, and
  proves which requests are answered with the planner's file and how the answer reads.
  Binding the port, loading the certificates and the sizes that can be allocated are
  parameters. How connections share the server is not modelled: the listening
  socket does the TLS handshake inside \<open>accept\<close>, so a client that is silent holds up the others.

  \<^bold>\<open>Command lines.\<close> \<open>ArgParse\<close> is \<open>argparse\<close> of Python 3.12 (the version the workflows
  set up) for what the programs declare: the tokens of a command line, abbreviations, values
  after \<open>=\<close>, the separator, the alternation of positionals and options, choices,
  required arguments; a namespace it returns holds values of the declared kinds.
  \<open>ArgLines\<close> proves what regular command lines are parsed into. \<open>Commands\<close> has the parser
  of each program, the arguments handed to \<open>main\<close>, the exit status, and the programs
  that find their files beside their own script. \<open>CommandProps\<close>: the crown verifier
  and the relay from the command line to the exit.

  \<^bold>\<open>The agent cards\<close> (\<open>scripts/gen_agent_cards.py\<close>): \<open>AgentCards\<close>, \<open>CardParse\<close> (a grammar of
  the lines that declare a function, and that the scan collects exactly these), \<open>CardProps\<close>, and
  \<open>CardCommand\<close> for what the command writes (with \<open>FlatDir\<close>, the lemmas on writing one file per
  item that the topology qualification shares). The words
  of \<open>\b\<close> are a parameter, since they come from the Unicode database, as is \<open>printable\<close>
  behind \<open>repr\<close> elsewhere.

  \<^bold>\<open>Bounds and fuel.\<close> Only the JSON scanner has fuel. The chunk loop of the digests is a
  partial function that is proved to return, after one read per started mebibyte
  and the empty one; every other loop is structural or has a measure.

  \<^bold>\<open>Not modelled.\<close> The Elixir system under \<open>lib/\<close>, the Lean sources, Kubernetes files and
  documents are other languages. Of the programs: the texts of help and usage and messages on
  standard error; the texts of exceptions of the interpreter, and of two messages of the
  relay the path or the nested error; files that change while a program reads them (each
  reading is of one snapshot), permissions, name lengths, NUL in paths, the kernel's limit on
  the number of links followed, which of its errors \<open>mkdir\<close> and a write through a dangling link raise;
  a relative path is resolved after joining it to the working directory, which can differ
  from the library only at a loop of links; the interpreter's
  limits on recursion and on the digits of an integer; digits and case outside ASCII in
  \<open>int\<close> and \<open>lower\<close>; sockets, TLS and the HTTP framing of the standard library (a connection
  carries one request; a body that never ends is not one); the encoding of the line the card generator
  prints last, which names the path of the checkout; pytest's \<open>test_court.py\<close>. When a program ends
  in an exception the model keeps the exception, and the file system only where the
  property needs it (the relay, the crown).
\<close>

end
